(* ===== verification/Go_Base.thy ===== *)
theory Go_Base
  imports Main "HOL-Library.Word"
begin

text \<open>
  Prelude of the development: the Go types and the part of the Go standard library the
  modelled packages use, with the generic lemmas the components share.

  \<^item> \<open>byte\<close>, \<open>u64\<close> are Go's \<open>uint8\<close> and \<open>uint64\<close> (arithmetic wraps around); a \<open>*big.Int\<close>
    is an unbounded \<open>int\<close>; \<open>common.Hash\<close> and \<open>common.Address\<close>, arrays of 32 and 20 bytes,
    are the words of that many bits whose big-endian bytes they are.
  \<^item> A statement that can panic or, in a model with fuel, run out of fuel returns a value of
    type \<open>go\<close>; \<open>go_bind\<close> sequences such statements.
  \<^item> \<open>math/big\<close>: \<open>BitLen\<close>, \<open>Uint64\<close>, \<open>Int64\<close>, \<open>SetBytes\<close>, \<open>big_Bytes\<close>, \<open>big_Div\<close>,
    \<open>big_Mod\<close>, and \<open>Bits\<close>, the little-endian 64-bit words of a value.
  \<^item> \<open>common/bytes.go\<close> and \<open>common/types.go\<close>: padding, and the conversions between byte
    slices, integers, hashes and addresses.
\<close>

unbundle bit_operations_syntax

named_theorems go_simps \<open>evaluation of the result type and of the byte and integer conversions\<close>

type_synonym byte = "8 word"
type_synonym bytes = "8 word list"
type_synonym u64 = "64 word"
type_synonym hash = "256 word"
type_synonym address = "160 word"

section \<open>Results of statements that may panic\<close>

datatype 'a go = Ret 'a | Panic | NoFuel

primrec go_bind :: "'a go \<Rightarrow> ('a \<Rightarrow> 'b go) \<Rightarrow> 'b go" where
  "go_bind (Ret x) f = f x"
| "go_bind Panic f = Panic"
| "go_bind NoFuel f = NoFuel"

declare go_bind.simps [go_simps]

lemma go_bind_eq_Ret [simp]:
  "go_bind m f = Ret y \<longleftrightarrow> (\<exists>x. m = Ret x \<and> f x = Ret y)"
  by (cases m) simp_all

lemma go_bind_eq_Panic:
  "go_bind m f = Panic \<longleftrightarrow> m = Panic \<or> (\<exists>x. m = Ret x \<and> f x = Panic)"
  by (cases m) simp_all

lemma go_bind_eq_NoFuel:
  "go_bind m f = NoFuel \<longleftrightarrow> m = NoFuel \<or> (\<exists>x. m = Ret x \<and> f x = NoFuel)"
  by (cases m) simp_all

lemma go_bind_assoc:
  "go_bind (go_bind m f) g = go_bind m (\<lambda>x. go_bind (f x) g)"
  by (cases m) simp_all

lemma go_bind_cong [fundef_cong]:
  assumes "m = m'" and "\<And>x. m' = Ret x \<Longrightarrow> f x = f' x"
  shows "go_bind m f = go_bind m' f'"
  using assms by (cases m') simp_all

text \<open>Indexing \<open>xs[i]\<close> and slicing \<open>xs[a:b]\<close> panic out of range.\<close>

definition go_index :: "'a list \<Rightarrow> nat \<Rightarrow> 'a go" where
  "go_index xs i = (if i < length xs then Ret (xs ! i) else Panic)"

definition go_slice :: "'a list \<Rightarrow> nat \<Rightarrow> nat \<Rightarrow> 'a list go" where
  "go_slice xs a b = (if a \<le> b \<and> b \<le> length xs then Ret (take (b - a) (drop a xs)) else Panic)"

lemma go_index_Ret [simp]: "go_index xs i = Ret x \<longleftrightarrow> i < length xs \<and> x = xs ! i"
  by (auto simp: go_index_def)

lemma go_slice_Ret [simp]:
  "go_slice xs a b = Ret ys \<longleftrightarrow> a \<le> b \<and> b \<le> length xs \<and> ys = take (b - a) (drop a xs)"
  by (auto simp: go_slice_def)

text \<open>\<open>copy(dst[pos:], src)\<close> overwrites at most the bytes that \<open>dst\<close> has from \<open>pos\<close> on.\<close>

definition go_copy :: "'a list \<Rightarrow> nat \<Rightarrow> 'a list \<Rightarrow> 'a list" where
  "go_copy dst pos src = take pos dst @ take (length dst - pos) src @ drop (pos + length src) dst"

lemma length_go_copy [simp]: "pos \<le> length dst \<Longrightarrow> length (go_copy dst pos src) = length dst"
  by (auto simp: go_copy_def)

lemma go_copy_fits:
  "pos + length src \<le> length dst \<Longrightarrow> go_copy dst pos src = take pos dst @ src @ drop (pos + length src) dst"
  by (simp add: go_copy_def)

lemma take_go_copy:
  "pos + length src \<le> length dst \<Longrightarrow> take (pos + length src) (go_copy dst pos src) = take pos dst @ src"
  by (simp add: go_copy_fits)

section \<open>math/big\<close>

fun nat_bits :: "nat \<Rightarrow> nat" where
  "nat_bits n = (if n = 0 then 0 else Suc (nat_bits (n div 2)))"

declare nat_bits.simps [simp del]

lemma nat_bits_0 [simp]: "nat_bits 0 = 0"
  by (simp add: nat_bits.simps)

lemma nat_bits_le_iff: "nat_bits n \<le> k \<longleftrightarrow> n < 2 ^ k"
proof (induction k arbitrary: n)
  case 0
  then show ?case by (simp add: nat_bits.simps)
next
  case (Suc k)
  have "nat_bits n \<le> Suc k \<longleftrightarrow> n = 0 \<or> nat_bits (n div 2) \<le> k"
    by (subst nat_bits.simps) simp
  also have "\<dots> \<longleftrightarrow> n = 0 \<or> n div 2 < 2 ^ k"
    using Suc.IH by simp
  also have "\<dots> \<longleftrightarrow> n < 2 ^ Suc k"
    by auto
  finally show ?case .
qed

definition BitLen :: "int \<Rightarrow> nat" where
  "BitLen x = nat_bits (nat \<bar>x\<bar>)"

lemma BitLen_le_iff: "BitLen x \<le> k \<longleftrightarrow> \<bar>x\<bar> < 2 ^ k"
proof -
  have "nat \<bar>x\<bar> < 2 ^ k \<longleftrightarrow> \<bar>x\<bar> < 2 ^ k"
    by (metis abs_ge_zero nat_less_numeral_power_cancel_iff)
  then show ?thesis
    by (simp add: BitLen_def nat_bits_le_iff)
qed

lemma BitLen_gt_iff: "BitLen x > k \<longleftrightarrow> 2 ^ k \<le> \<bar>x\<bar>"
  using BitLen_le_iff [of x k] by linarith

lemma BitLen_0 [simp]: "BitLen 0 = 0"
  by (simp add: BitLen_def)

lemma BitLen_eq_0 [simp]: "BitLen x = 0 \<longleftrightarrow> x = 0"
  using BitLen_le_iff [of x 0] by auto

text \<open>\<open>Uint64\<close> and \<open>Int64\<close> read the low 64 bits of the absolute value.\<close>

definition Uint64 :: "int \<Rightarrow> u64" where
  "Uint64 x = word_of_int \<bar>x\<bar>"

definition Int64 :: "int \<Rightarrow> int" where
  "Int64 x = (let v = sint (word_of_int \<bar>x\<bar> :: u64) in if x < 0 then sint (- word_of_int v :: u64) else v)"

lemma uint_Uint64: "0 \<le> x \<Longrightarrow> x < 2 ^ 64 \<Longrightarrow> uint (Uint64 x) = x"
  by (simp add: Uint64_def uint_word_of_int)

lemma unat_Uint64: "0 \<le> x \<Longrightarrow> x < 2 ^ 64 \<Longrightarrow> unat (Uint64 x) = nat x"
  using uint_Uint64 [of x] by (metis unat_eq_nat_uint)

lemma Uint64_uint [simp]: "Uint64 (uint w) = w"
  by (simp add: Uint64_def)

lemma Int64_small: "0 \<le> x \<Longrightarrow> x < 2 ^ 63 \<Longrightarrow> Int64 x = x"
  by (simp add: Int64_def sint_sbintrunc' signed_take_bit_int_eq_self)

text \<open>
  \<open>Div\<close> and \<open>Mod\<close> are Euclidean: the remainder is never negative. A zero divisor panics;
  every use in the modelled code has a positive divisor or a guard.
\<close>

definition big_Div :: "int \<Rightarrow> int \<Rightarrow> int" where
  "big_Div x y = (if y < 0 then - (x div - y) else x div y)"

definition big_Mod :: "int \<Rightarrow> int \<Rightarrow> int" where
  "big_Mod x y = x mod \<bar>y\<bar>"

lemma big_Div_Mod: "y \<noteq> 0 \<Longrightarrow> big_Div x y * y + big_Mod x y = x"
proof (cases "y < 0")
  case True
  then show ?thesis
    using div_mult_mod_eq [of x "- y"] by (simp add: big_Div_def big_Mod_def)
next
  case False
  then show ?thesis
    by (simp add: big_Div_def big_Mod_def)
qed

lemma big_Div_pos [simp]: "0 \<le> y \<Longrightarrow> big_Div x y = x div y"
  by (simp add: big_Div_def)

lemma big_Mod_pos [simp]: "0 \<le> y \<Longrightarrow> big_Mod x y = x mod y"
  by (simp add: big_Mod_def)

lemma uint_pos: "x \<noteq> 0 \<Longrightarrow> 0 < uint x"
  by (metis order_le_less uint_0_iff uint_ge_0)

subsection \<open>Big-endian bytes\<close>

definition SetBytes :: "bytes \<Rightarrow> int" where
  "SetBytes bs = foldl (\<lambda>acc b. acc * 256 + uint b) 0 bs"

lemma SetBytes_Nil [simp]: "SetBytes [] = 0"
  by (simp add: SetBytes_def)

lemma SetBytes_snoc [simp]: "SetBytes (bs @ [b]) = SetBytes bs * 256 + uint b"
  by (simp add: SetBytes_def)

lemma SetBytes_append: "SetBytes (as @ bs) = SetBytes as * 256 ^ length bs + SetBytes bs"
proof (induction bs rule: rev_induct)
  case Nil
  then show ?case by simp
next
  case (snoc b bs)
  have "SetBytes (as @ bs @ [b]) = SetBytes (as @ bs) * 256 + uint b"
    using SetBytes_snoc [of "as @ bs" b] by simp
  then show ?case
    using snoc.IH by (simp add: algebra_simps)
qed

lemma SetBytes_Cons: "SetBytes (b # bs) = uint b * 256 ^ length bs + SetBytes bs"
  using SetBytes_append [of "[b]" bs] SetBytes_snoc [of "[]" b] by simp

lemma uint_byte_bounds: "0 \<le> uint (b :: byte)" "uint b < 256"
  using uint_bounded [of b] by simp_all

lemma SetBytes_bounds: "0 \<le> SetBytes bs \<and> SetBytes bs < 256 ^ length bs"
proof (induction bs rule: rev_induct)
  case Nil
  then show ?case by simp
next
  case (snoc b bs)
  then show ?case
    using uint_byte_bounds [of b] by simp
qed

lemmas SetBytes_nonneg [simp] = SetBytes_bounds [THEN conjunct1]
lemmas SetBytes_less = SetBytes_bounds [THEN conjunct2]

lemma SetBytes_replicate_0 [simp]: "SetBytes (replicate n 0) = 0"
  by (induction n) (simp_all add: SetBytes_Cons)

text \<open>The \<open>n\<close> low bytes of a value, most significant first.\<close>

primrec be_bytes :: "nat \<Rightarrow> int \<Rightarrow> bytes" where
  "be_bytes 0 x = []"
| "be_bytes (Suc n) x = be_bytes n (x div 256) @ [word_of_int x]"

lemma length_be_bytes [simp]: "length (be_bytes n x) = n"
  by (induction n arbitrary: x) simp_all

lemma SetBytes_be_bytes: "SetBytes (be_bytes n x) = x mod 256 ^ n"
proof (induction n arbitrary: x)
  case 0
  then show ?case by simp
next
  case (Suc n)
  have "uint (word_of_int x :: byte) = x mod 256"
    by (simp add: uint_word_of_int)
  moreover have "x div 256 mod 256 ^ n * 256 + x mod 256 = x mod (256 * 256 ^ n)"
    using mod_mult2_eq' [of x 256 "256 ^ n"] by simp
  ultimately show ?case
    using Suc.IH by simp
qed

lemma byte_of_int_low: "(word_of_int (k * 256 + uint b) :: byte) = b"
proof -
  have "uint (word_of_int (k * 256 + uint b) :: byte) = (k * 256 + uint b) mod 256"
    by (subst uint_word_of_int) simp
  also have "\<dots> = uint b"
    using uint_byte_bounds [of b] by simp
  finally show ?thesis
    by (simp only: word_uint_eq_iff)
qed

lemma be_bytes_SetBytes: "be_bytes (length bs) (SetBytes bs) = bs"
proof (induction bs rule: rev_induct)
  case Nil
  then show ?case by simp
next
  case (snoc b bs)
  have "(SetBytes bs * 256 + uint b) div 256 = SetBytes bs"
    using uint_byte_bounds [of b] by simp
  moreover have "(word_of_int (SetBytes bs * 256 + uint b) :: byte) = b"
    by (rule byte_of_int_low)
  ultimately show ?case
    using snoc.IH by simp
qed

text \<open>\<open>Bytes\<close>: the absolute value in big-endian order, without leading zero bytes.\<close>

definition big_Bytes :: "int \<Rightarrow> bytes" where
  "big_Bytes x = be_bytes ((BitLen x + 7) div 8) \<bar>x\<bar>"

lemma abs_less_256_power_BitLen: "\<bar>x\<bar> < 256 ^ ((BitLen x + 7) div 8)"
proof -
  have "BitLen x \<le> 8 * ((BitLen x + 7) div 8)"
    by simp
  then have "\<bar>x\<bar> < 2 ^ (8 * ((BitLen x + 7) div 8))"
    using BitLen_le_iff by blast
  then show ?thesis
    by (simp add: power_mult)
qed

lemma SetBytes_big_Bytes [simp]: "SetBytes (big_Bytes x) = \<bar>x\<bar>"
  using abs_less_256_power_BitLen [of x] by (simp add: big_Bytes_def SetBytes_be_bytes)

lemma length_big_Bytes_le: "\<bar>x\<bar> < 256 ^ n \<Longrightarrow> length (big_Bytes x) \<le> n"
proof -
  assume "\<bar>x\<bar> < 256 ^ n"
  then have "\<bar>x\<bar> < 2 ^ (8 * n)"
    by (simp add: power_mult)
  then have "BitLen x \<le> 8 * n"
    by (simp add: BitLen_le_iff)
  then show ?thesis
    by (simp add: big_Bytes_def)
qed

text \<open>\<open>Bits\<close>: the absolute value as little-endian machine words.\<close>

definition Bits :: "int \<Rightarrow> u64 list" where
  "Bits x = map (\<lambda>i. word_of_int (\<bar>x\<bar> div 2 ^ (64 * i))) [0 ..< (BitLen x + 63) div 64]"

section \<open>common/bytes.go and common/types.go\<close>

definition RightPadBytes :: "bytes \<Rightarrow> nat \<Rightarrow> bytes" where
  "RightPadBytes b l =
     (if l \<le> length b then b else b @ replicate (l - length b) 0)"

definition LeftPadBytes :: "bytes \<Rightarrow> nat \<Rightarrow> bytes" where
  "LeftPadBytes b l =
     (if l \<le> length b then b else replicate (l - length b) 0 @ b)"

lemma length_RightPadBytes [simp]: "length (RightPadBytes bs l) = max l (length bs)"
  by (simp add: RightPadBytes_def)

lemma length_LeftPadBytes [simp]: "length (LeftPadBytes bs l) = max l (length bs)"
  by (simp add: LeftPadBytes_def)

lemma SetBytes_LeftPadBytes [simp]: "SetBytes (LeftPadBytes bs l) = SetBytes bs"
  by (simp add: LeftPadBytes_def SetBytes_append)

lemma nth_RightPadBytes:
  "i < l \<Longrightarrow> RightPadBytes bs l ! i = (if i < length bs then bs ! i else 0)"
  by (simp add: RightPadBytes_def nth_append)

text \<open>\<open>Hash.SetBytes\<close> and \<open>Address.SetBytes\<close> crop a longer slice from the left.\<close>

definition BytesToHash :: "bytes \<Rightarrow> hash" where
  "BytesToHash b = word_of_int (SetBytes (if length b > 32 then drop (length b - 32) b else b))"

definition BytesToAddress :: "bytes \<Rightarrow> address" where
  "BytesToAddress b = word_of_int (SetBytes (if length b > 20 then drop (length b - 20) b else b))"

definition BigToHash :: "int \<Rightarrow> hash" where
  "BigToHash b = BytesToHash (big_Bytes b)"

definition BigToAddress :: "int \<Rightarrow> address" where
  "BigToAddress b = BytesToAddress (big_Bytes b)"

definition Hash_Bytes :: "hash \<Rightarrow> bytes" where
  "Hash_Bytes h = be_bytes 32 (uint h)"

definition Address_Bytes :: "address \<Rightarrow> bytes" where
  "Address_Bytes a = be_bytes 20 (uint a)"

definition Hash_Big :: "hash \<Rightarrow> int" where
  "Hash_Big h = SetBytes (Hash_Bytes h)"

definition Address_Big :: "address \<Rightarrow> int" where
  "Address_Big a = SetBytes (Address_Bytes a)"

definition Address_Hash :: "address \<Rightarrow> hash" where
  "Address_Hash a = BytesToHash (Address_Bytes a)"

definition EmptyHash :: "hash \<Rightarrow> bool" where
  "EmptyHash h \<longleftrightarrow> h = 0"

lemma SetBytes_drop_mod:
  "n \<le> length b \<Longrightarrow> SetBytes (drop (length b - n) b) = SetBytes b mod 256 ^ n"
proof -
  assume n: "n \<le> length b"
  let ?k = "length b - n"
  have "SetBytes b = SetBytes (take ?k b) * 256 ^ n + SetBytes (drop ?k b)"
    using SetBytes_append [of "take ?k b" "drop ?k b"] n by simp
  moreover have "SetBytes (drop ?k b) < 256 ^ n"
    using SetBytes_less [of "drop ?k b"] n by simp
  ultimately show ?thesis
    by simp
qed

lemma BytesToHash_eq: "BytesToHash b = word_of_int (SetBytes b)"
  using SetBytes_drop_mod [of 32 b]
  by (simp add: BytesToHash_def word_uint_eq_iff uint_word_of_int)

lemma BytesToAddress_eq: "BytesToAddress b = word_of_int (SetBytes b)"
  using SetBytes_drop_mod [of 20 b]
  by (simp add: BytesToAddress_def word_uint_eq_iff uint_word_of_int)

lemma BigToHash_eq: "BigToHash x = word_of_int \<bar>x\<bar>"
  by (simp add: BigToHash_def BytesToHash_eq)

lemma BigToAddress_eq: "BigToAddress x = word_of_int \<bar>x\<bar>"
  by (simp add: BigToAddress_def BytesToAddress_eq)

lemma Hash_Big_eq: "Hash_Big h = uint h"
  using uint_bounded [of h] by (simp add: Hash_Big_def Hash_Bytes_def SetBytes_be_bytes)

lemma Address_Big_eq: "Address_Big a = uint a"
  using uint_bounded [of a] by (simp add: Address_Big_def Address_Bytes_def SetBytes_be_bytes)

lemmas big_conversions [go_simps] =
  BytesToHash_eq BytesToAddress_eq BigToHash_eq BigToAddress_eq Hash_Big_eq Address_Big_eq

lemma BytesToHash_Bytes [simp]: "BytesToHash (Hash_Bytes h) = h"
  using Hash_Big_eq [of h] by (simp add: BytesToHash_eq Hash_Big_def)

lemma BigToHash_Big [simp]: "BigToHash (Hash_Big h) = h"
  by (simp add: BigToHash_eq Hash_Big_eq)

lemma BigToAddress_Big [simp]: "BigToAddress (Address_Big a) = a"
  by (simp add: BigToAddress_eq Address_Big_eq)

end
