(* ===== verification/Math_Big.thy ===== *)
theory Math_Big
  imports Go_Base
begin

text \<open>
  \<open>common/math/big.go\<close> and \<open>common/math/integer.go\<close>: 256-bit truncation and sign
  interpretation, exponentiation by squaring over the machine words of the exponent, the
  byte encoders that walk over those words, and the overflow-reporting 64-bit operations.

  The lemmas relate each routine to its arithmetic meaning: \<open>U256\<close> is reduction modulo
  \<open>2 ^ 256\<close>, \<open>S256\<close> the two's complement reading, \<open>math_Exp\<close> the modular power,
  \<open>PaddedBigBytes\<close> and \<open>math_Byte\<close> the fixed-width big-endian encoding, and the flags of
  \<open>SafeAdd\<close>, \<open>SafeSub\<close> and \<open>SafeMul\<close> are set exactly when the result does not fit.
\<close>

section \<open>Definitions\<close>

definition tt255 :: int where
  "tt255 = 2 ^ 255"

definition tt256 :: int where
  "tt256 = 2 ^ 256"

definition tt256m1 :: int where
  "tt256m1 = tt256 - 1"

definition MaxUint64 :: u64 where
  "MaxUint64 = - 1"

definition BigMax :: "int \<Rightarrow> int \<Rightarrow> int" where
  "BigMax x y = (if x < y then y else x)"

definition BigMin :: "int \<Rightarrow> int \<Rightarrow> int" where
  "BigMin x y = (if x > y then y else x)"

text \<open>The loop of \<open>FirstBitSet\<close> from index \<open>i\<close> with \<open>n\<close> indices left.\<close>

primrec firstBitFrom :: "int \<Rightarrow> nat \<Rightarrow> nat \<Rightarrow> nat" where
  "firstBitFrom v i 0 = BitLen v"
| "firstBitFrom v i (Suc n) = (if bit v i then i else firstBitFrom v (Suc i) n)"

definition FirstBitSet :: "int \<Rightarrow> nat" where
  "FirstBitSet v = firstBitFrom v 0 (BitLen v)"

text \<open>
  \<open>ReadBits\<close> fills the buffer from its end, eight bytes per word, until the words or the
  buffer are used up.
\<close>

primrec readWord :: "nat \<Rightarrow> u64 \<Rightarrow> nat \<Rightarrow> bytes \<Rightarrow> nat \<times> bytes" where
  "readWord 0 d i buf = (i, buf)"
| "readWord (Suc j) d i buf =
     (if i > 0 then readWord j (drop_bit 8 d) (i - 1) (buf[i - 1 := ucast d]) else (i, buf))"

primrec readWords :: "u64 list \<Rightarrow> nat \<Rightarrow> bytes \<Rightarrow> bytes" where
  "readWords [] i buf = buf"
| "readWords (d # ds) i buf = (case readWord 8 d i buf of (i', buf') \<Rightarrow> readWords ds i' buf')"

definition ReadBits :: "int \<Rightarrow> bytes \<Rightarrow> bytes" where
  "ReadBits bigint buf = readWords (Bits bigint) (length buf) buf"

definition PaddedBigBytes :: "int \<Rightarrow> nat \<Rightarrow> bytes" where
  "PaddedBigBytes bigint n =
     (if BitLen bigint div 8 \<ge> n then big_Bytes bigint
      else ReadBits bigint (replicate n 0))"

definition bigEndianByteAt :: "int \<Rightarrow> nat \<Rightarrow> byte" where
  "bigEndianByteAt bigint n =
     (let words = Bits bigint; i = n div 8
      in if i \<ge> length words then 0 else ucast (drop_bit (8 * (n mod 8)) (words ! i)))"

definition math_Byte :: "int \<Rightarrow> nat \<Rightarrow> nat \<Rightarrow> byte" where
  "math_Byte bigint padlength n =
     (if n \<ge> padlength then 0 else bigEndianByteAt bigint (padlength - 1 - n))"

definition U256 :: "int \<Rightarrow> int" where
  "U256 x = x AND tt256m1"

definition S256 :: "int \<Rightarrow> int" where
  "S256 x = (if x < tt255 then x else x - tt256)"

text \<open>The inner loop of \<open>Exp\<close> over the bits of one word, and the outer one over the words.\<close>

primrec expWord :: "nat \<Rightarrow> u64 \<Rightarrow> int \<Rightarrow> int \<Rightarrow> int \<times> int" where
  "expWord 0 w result base = (result, base)"
| "expWord (Suc i) w result base =
     expWord i (drop_bit 1 w) (if w AND 1 = 1 then U256 (result * base) else result)
       (U256 (base * base))"

primrec expWords :: "u64 list \<Rightarrow> int \<Rightarrow> int \<Rightarrow> int" where
  "expWords [] result base = result"
| "expWords (w # ws) result base =
     (case expWord 64 w result base of (result', base') \<Rightarrow> expWords ws result' base')"

definition math_Exp :: "int \<Rightarrow> int \<Rightarrow> int" where
  "math_Exp base exponent = expWords (Bits exponent) 1 base"

definition SafeSub :: "u64 \<Rightarrow> u64 \<Rightarrow> u64 \<times> bool" where
  "SafeSub x y = (x - y, x < y)"

definition SafeAdd :: "u64 \<Rightarrow> u64 \<Rightarrow> u64 \<times> bool" where
  "SafeAdd x y = (x + y, y > MaxUint64 - x)"

definition SafeMul :: "u64 \<Rightarrow> u64 \<Rightarrow> u64 \<times> bool" where
  "SafeMul x y = (if x = 0 \<or> y = 0 then (0, False) else (x * y, y > MaxUint64 div x))"

section \<open>256-bit values\<close>

lemma U256_eq_mod: "U256 x = x mod 2 ^ 256"
proof -
  have "tt256m1 = mask 256"
    by (simp add: tt256m1_def tt256_def mask_eq_exp_minus_1)
  then have "U256 x = take_bit 256 x"
    by (simp add: U256_def take_bit_eq_mask)
  then show ?thesis
    by (simp only: take_bit_eq_mod)
qed

text \<open>The values an EVM stack slot may hold.\<close>

definition is_u256 :: "int \<Rightarrow> bool" where
  "is_u256 x \<longleftrightarrow> 0 \<le> x \<and> x < 2 ^ 256"

lemma is_u256_U256 [simp, intro!]: "is_u256 (U256 x)"
  by (simp add: is_u256_def U256_eq_mod)

lemma U256_id [simp]: "is_u256 x \<Longrightarrow> U256 x = x"
  by (simp add: is_u256_def U256_eq_mod)

lemma is_u256_0 [simp]: "is_u256 0" and is_u256_1 [simp]: "is_u256 1"
  by (simp_all add: is_u256_def)

lemma is_u256_mono: "is_u256 y \<Longrightarrow> 0 \<le> x \<Longrightarrow> x \<le> y \<Longrightarrow> is_u256 x"
  by (simp add: is_u256_def)

lemma S256_eq_sint: "is_u256 x \<Longrightarrow> S256 x = sint (word_of_int x :: 256 word)"
proof -
  assume x: "is_u256 x"
  have "sint (word_of_int x :: 256 word) = (x + 2 ^ 255) mod 2 ^ 256 - 2 ^ 255"
    by (simp add: int_word_sint)
  also have "\<dots> = S256 x"
  proof (cases "x < 2 ^ 255")
    case True
    then show ?thesis
      using x by (simp add: S256_def tt255_def is_u256_def)
  next
    case False
    have "(x + 2 ^ 255) mod 2 ^ 256 = (x - 2 ^ 255) mod 2 ^ 256"
      using mod_add_self2 [of "x - 2 ^ 255" "2 ^ 256"] by (simp add: algebra_simps)
    also have "\<dots> = x - 2 ^ 255"
      using x False by (simp add: is_u256_def)
    finally show ?thesis
      using False by (simp add: S256_def tt255_def tt256_def)
  qed
  finally show ?thesis ..
qed

lemma S256_bounds: "is_u256 x \<Longrightarrow> - (2 ^ 255) \<le> S256 x \<and> S256 x < 2 ^ 255"
  by (auto simp: S256_def tt255_def tt256_def is_u256_def)

lemma U256_S256 [simp]: "is_u256 x \<Longrightarrow> U256 (S256 x) = x"
  by (auto simp: S256_def tt256_def is_u256_def U256_eq_mod)

lemma S256_U256: "- (2 ^ 255) \<le> x \<Longrightarrow> x < 2 ^ 255 \<Longrightarrow> S256 (U256 x) = x"
proof (cases "x < 0")
  case True
  assume "- (2 ^ 255) \<le> x"
  moreover have "x mod 2 ^ 256 = x + 2 ^ 256" if "- (2 ^ 255) \<le> x"
  proof -
    have "x mod 2 ^ 256 = (x + 2 ^ 256) mod 2 ^ 256"
      by (rule mod_add_self2 [symmetric])
    also have "\<dots> = x + 2 ^ 256"
      using True that by (intro mod_pos_pos_trivial) simp_all
    finally show ?thesis .
  qed
  ultimately show ?thesis
    using True by (simp add: S256_def U256_eq_mod tt255_def tt256_def)
next
  case False
  assume "x < 2 ^ 255"
  then show ?thesis
    using False by (simp add: S256_def U256_eq_mod tt255_def)
qed

section \<open>Overflow-reporting arithmetic\<close>

lemma unat_MaxUint64: "unat MaxUint64 = 2 ^ 64 - 1"
  by (simp add: MaxUint64_def unsigned_minus_1_eq_mask mask_eq_exp_minus_1)

lemma SafeAdd_spec:
  "SafeAdd x y = (z, False) \<longleftrightarrow> unat x + unat y < 2 ^ 64 \<and> z = x + y"
proof -
  have "unat (MaxUint64 - x) = 2 ^ 64 - 1 - unat x"
    using unat_MaxUint64 unat_sub [of x MaxUint64] by (simp add: MaxUint64_def)
  moreover have "unat x < 2 ^ 64"
    using unsigned_less [of x, where ?'a = nat] by simp
  ultimately have "y > MaxUint64 - x \<longleftrightarrow> unat x + unat y \<ge> 2 ^ 64"
    by (simp add: word_less_nat_alt) linarith
  then show ?thesis
    by (auto simp: SafeAdd_def)
qed

lemma SafeSub_spec:
  "SafeSub x y = (z, False) \<longleftrightarrow> unat y \<le> unat x \<and> z = x - y"
  by (auto simp: SafeSub_def word_less_nat_alt not_less)

lemma SafeMul_spec:
  "SafeMul x y = (z, False) \<longleftrightarrow> unat x * unat y < 2 ^ 64 \<and> z = x * y"
proof (cases "x = 0 \<or> y = 0")
  case True
  then show ?thesis
    by (auto simp: SafeMul_def)
next
  case False
  then have x: "0 < unat x"
    by (simp add: unat_gt_0)
  have "y > MaxUint64 div x \<longleftrightarrow> (2 ^ 64 - 1) div unat x < unat y"
    by (simp add: word_less_nat_alt unat_div unat_MaxUint64)
  also have "\<dots> \<longleftrightarrow> \<not> unat x * unat y < 2 ^ 64"
    using x less_eq_div_iff_mult_less_eq [of "unat x" "unat y" "2 ^ 64 - 1"]
    by (simp add: mult.commute) linarith
  finally show ?thesis
    using False by (auto simp: SafeMul_def)
qed

lemma SafeAdd_unat: "SafeAdd x y = (z, False) \<Longrightarrow> unat z = unat x + unat y"
  by (auto simp: SafeAdd_spec unat_word_ariths)

lemma SafeMul_unat: "SafeMul x y = (z, False) \<Longrightarrow> unat z = unat x * unat y"
  by (auto simp: SafeMul_spec unat_word_ariths)

section \<open>Machine words of an integer\<close>

primrec words_val :: "u64 list \<Rightarrow> int" where
  "words_val [] = 0"
| "words_val (w # ws) = uint w + 2 ^ 64 * words_val ws"

lemma words_val_nonneg [simp]: "0 \<le> words_val ws"
  by (induction ws) simp_all

lemma words_val_map_div:
  "words_val (map (\<lambda>i. word_of_int (y div 2 ^ (64 * i))) [k ..< k + n])
     = y div 2 ^ (64 * k) mod 2 ^ (64 * n)"
proof (induction n arbitrary: k)
  case 0
  then show ?case by simp
next
  case (Suc n)
  let ?z = "y div 2 ^ (64 * k)"
  have next_word: "y div 2 ^ (64 * Suc k) = ?z div 2 ^ 64"
    by (simp add: power_add zdiv_zmult2_eq [symmetric] mult.commute)
  have "words_val (map (\<lambda>i. word_of_int (y div 2 ^ (64 * i))) [k ..< k + Suc n])
      = uint (word_of_int ?z :: u64)
        + 2 ^ 64 * words_val (map (\<lambda>i. word_of_int (y div 2 ^ (64 * i))) [Suc k ..< Suc k + n])"
    by (subst upt_conv_Cons) simp_all
  also have "\<dots> = ?z mod 2 ^ 64 + 2 ^ 64 * (?z div 2 ^ 64 mod 2 ^ (64 * n))"
    by (simp only: Suc.IH next_word uint_word_of_int len_of_numeral_defs) simp
  also have "\<dots> = ?z mod (2 ^ 64 * 2 ^ (64 * n))"
    using mod_mult2_eq' [of ?z "2 ^ 64" "2 ^ (64 * n)"] by (simp add: add.commute)
  finally show ?case
    by (simp add: power_add)
qed

lemma words_val_Bits [simp]: "words_val (Bits x) = \<bar>x\<bar>"
proof -
  have "BitLen x \<le> 64 * ((BitLen x + 63) div 64)"
    by simp
  then have "\<bar>x\<bar> < 2 ^ (64 * ((BitLen x + 63) div 64))"
    using BitLen_le_iff by blast
  then show ?thesis
    using words_val_map_div [of "\<bar>x\<bar>" 0] by (simp add: Bits_def)
qed

section \<open>Exponentiation by squaring\<close>

lemma power_mod_cong:
  fixes a b m :: int
  assumes "a mod m = b mod m"
  shows "a ^ n mod m = b ^ n mod m"
  using assms by (metis power_mod)

lemma mult_mod_cong:
  fixes a a' b b' m :: int
  assumes "a mod m = a' mod m" and "b mod m = b' mod m"
  shows "a * b mod m = a' * b' mod m"
  using assms by (metis mod_mult_eq)

lemma nat_mod_Suc_bit:
  fixes n :: nat
  shows "n mod 2 ^ Suc i = 2 * (n div 2 mod 2 ^ i) + n mod 2"
  using mod_mult2_eq [of n 2 "2 ^ i"] by simp

lemma expWord_spec:
  "expWord n w r b = (r', b') \<Longrightarrow>
     r' mod 2 ^ 256 = r * b ^ (unat w mod 2 ^ n) mod 2 ^ 256 \<and>
     b' mod 2 ^ 256 = b ^ 2 ^ n mod 2 ^ 256 \<and> (is_u256 r \<longrightarrow> is_u256 r')"
proof (induction n arbitrary: w r b)
  case 0
  then show ?case by simp
next
  case (Suc i)
  let ?w = "drop_bit 1 w" and ?b = "U256 (b * b)"
  let ?r = "if w AND 1 = 1 then U256 (r * b) else r"
  have odd_iff: "w AND 1 = 1 \<longleftrightarrow> odd (unat w)"
    using bit_unsigned_iff [of w 0, where ?'a = nat]
    by (simp add: and_one_eq bit_0 flip: odd_iff_mod_2_eq_one)
  have w: "unat ?w = unat w div 2"
    by (simp add: drop_bit_eq_div unat_div)
  have IH: "r' mod 2 ^ 256 = ?r * ?b ^ (unat ?w mod 2 ^ i) mod 2 ^ 256"
    "b' mod 2 ^ 256 = ?b ^ 2 ^ i mod 2 ^ 256" "is_u256 ?r \<longrightarrow> is_u256 r'"
    using Suc.IH [of ?w ?r ?b] Suc.prems by simp_all
  have b: "?b mod 2 ^ 256 = b ^ 2 mod 2 ^ 256"
    by (simp add: U256_eq_mod power2_eq_square)
  have r: "?r mod 2 ^ 256 = r * b ^ (unat w mod 2) mod 2 ^ 256"
    by (simp add: odd_iff U256_eq_mod odd_iff_mod_2_eq_one)
  have "r' mod 2 ^ 256 = (r * b ^ (unat w mod 2)) * (b ^ 2) ^ (unat w div 2 mod 2 ^ i) mod 2 ^ 256"
    unfolding IH(1) w by (intro mult_mod_cong power_mod_cong b r)
  also have "\<dots> = r * b ^ (unat w mod 2 ^ Suc i) mod 2 ^ 256"
    unfolding nat_mod_Suc_bit by (simp add: power_add power_mult mult_ac)
  finally have "r' mod 2 ^ 256 = r * b ^ (unat w mod 2 ^ Suc i) mod 2 ^ 256" .
  moreover have "b' mod 2 ^ 256 = (b ^ 2) ^ 2 ^ i mod 2 ^ 256"
    unfolding IH(2) by (rule power_mod_cong [OF b])
  then have "b' mod 2 ^ 256 = b ^ 2 ^ Suc i mod 2 ^ 256"
    by (simp add: power_mult)
  moreover have "is_u256 r \<longrightarrow> is_u256 r'"
    using IH(3) by (simp split: if_splits)
  ultimately show ?case
    by blast
qed

lemma expWords_spec:
  "expWords ws r b mod 2 ^ 256 = r * b ^ nat (words_val ws) mod 2 ^ 256 \<and>
     (is_u256 r \<longrightarrow> is_u256 (expWords ws r b))"
proof (induction ws arbitrary: r b)
  case Nil
  then show ?case by simp
next
  case (Cons w ws)
  obtain r1 b1 where e: "expWord 64 w r b = (r1, b1)"
    by fastforce
  have w: "unat w mod 2 ^ 64 = unat w"
    using unsigned_less [of w, where ?'a = nat] by simp
  have r1: "r1 mod 2 ^ 256 = r * b ^ unat w mod 2 ^ 256"
    and b1: "b1 mod 2 ^ 256 = b ^ 2 ^ 64 mod 2 ^ 256"
    and u: "is_u256 r \<longrightarrow> is_u256 r1"
    using expWord_spec [OF e] w by simp_all
  have "expWords (w # ws) r b mod 2 ^ 256 = r1 * b1 ^ nat (words_val ws) mod 2 ^ 256"
    using Cons.IH [of r1 b1] e by simp
  also have "\<dots> = (r * b ^ unat w) * (b ^ 2 ^ 64) ^ nat (words_val ws) mod 2 ^ 256"
    by (intro mult_mod_cong power_mod_cong r1 b1)
  also have "\<dots> = r * b ^ (unat w + 2 ^ 64 * nat (words_val ws)) mod 2 ^ 256"
    by (simp only: power_add power_mult mult.assoc)
  also have "unat w + 2 ^ 64 * nat (words_val ws) = nat (words_val (w # ws))"
    by (simp add: nat_add_distrib nat_mult_distrib)
  finally show ?case
    using Cons.IH [of r1 b1] u e by simp
qed

lemma math_Exp_eq: "math_Exp b e = b ^ nat \<bar>e\<bar> mod 2 ^ 256"
proof -
  have "is_u256 (math_Exp b e)" and "math_Exp b e mod 2 ^ 256 = b ^ nat \<bar>e\<bar> mod 2 ^ 256"
    using expWords_spec [of "Bits e" 1 b] by (simp_all add: math_Exp_def)
  then show ?thesis
    by (simp add: is_u256_def)
qed

section \<open>Big-endian encoders\<close>

lemma be_bytes_add: "be_bytes (a + n) x = be_bytes a (x div 256 ^ n) @ be_bytes n x"
proof (induction n arbitrary: x)
  case 0
  then show ?case by simp
next
  case (Suc n)
  have "x div 256 div 256 ^ n = x div 256 ^ Suc n"
    by (simp add: zdiv_zmult2_eq)
  then show ?case
    using Suc.IH [of "x div 256"] by simp
qed

lemma be_bytes_zero [simp]: "be_bytes n 0 = replicate n 0"
  by (induction n) (simp_all add: replicate_append_same)

lemma be_bytes_cong: "x mod 256 ^ n = y mod 256 ^ n \<Longrightarrow> be_bytes n x = be_bytes n y"
  by (metis SetBytes_be_bytes be_bytes_SetBytes length_be_bytes)

lemma be_bytes_mod [simp]: "be_bytes n (x mod 256 ^ n) = be_bytes n x"
  by (rule be_bytes_cong) simp

lemma uint_drop_bit_8: "uint (drop_bit 8 (d :: u64)) = uint d div 256"
  by (simp add: drop_bit_eq_div uint_div)

lemma take_update_drop:
  assumes "0 < i" and "i \<le> length buf" and "m \<le> i - 1"
  shows "take m (buf[i - 1 := x]) = take m buf" and "drop (i - 1) (buf[i - 1 := x]) = x # drop i buf"
proof -
  show "take m (buf[i - 1 := x]) = take m buf"
    using assms(3) by (simp add: take_update_cancel)
  obtain k where k: "i = Suc k" "k < length buf"
    using assms(1,2) by (cases i) simp_all
  have "drop k (buf[k := x]) = buf[k := x] ! k # drop (Suc k) (buf[k := x])"
    using k(2) by (intro Cons_nth_drop_Suc [symmetric]) simp
  then show "drop (i - 1) (buf[i - 1 := x]) = x # drop i buf"
    using k by (simp add: drop_update_cancel)
qed

lemma readWord_spec:
  "i \<le> length buf \<Longrightarrow>
     readWord j d i buf =
       (i - j, take (i - j) buf @ be_bytes (min i j) (uint d) @ drop i buf)"
proof (induction j arbitrary: d i buf)
  case 0
  then show ?case by simp
next
  case (Suc j)
  show ?case
  proof (cases "i > 0")
    case True
    let ?buf = "buf[i - 1 := ucast d]"
    have "readWord (Suc j) d i buf = readWord j (drop_bit 8 d) (i - 1) ?buf"
      using True by simp
    also have "\<dots> = (i - 1 - j, take (i - 1 - j) ?buf
        @ be_bytes (min (i - 1) j) (uint d div 256) @ drop (i - 1) ?buf)"
      using Suc.prems by (subst Suc.IH) (simp_all add: uint_drop_bit_8)
    also have "\<dots> = (i - Suc j, take (i - Suc j) buf
        @ (be_bytes (min (i - 1) j) (uint d div 256) @ [ucast d]) @ drop i buf)"
      using take_update_drop [OF True Suc.prems, of "i - 1 - j" "ucast d"] by simp
    also have "be_bytes (min (i - 1) j) (uint d div 256) @ [ucast d] = be_bytes (min i (Suc j)) (uint d)"
      using True by (cases i) simp_all
    finally show ?thesis .
  next
    case False
    then show ?thesis by simp
  qed
qed

lemma readWords_spec:
  "i \<le> length buf \<Longrightarrow>
     readWords ws i buf =
       (let m = min i (8 * length ws) in take (i - m) buf @ be_bytes m (words_val ws) @ drop i buf)"
proof (induction ws arbitrary: i buf)
  case Nil
  then show ?case by simp
next
  case (Cons w ws)
  let ?buf = "take (i - 8) buf @ be_bytes (min i 8) (uint w) @ drop i buf"
  let ?m = "min (i - 8) (8 * length ws)"
  have "readWords (w # ws) i buf = readWords ws (i - 8) ?buf"
    using Cons.prems by (simp add: readWord_spec)
  also have "\<dots> = take (i - 8 - ?m) ?buf @ be_bytes ?m (words_val ws) @ drop (i - 8) ?buf"
    using Cons.prems by (subst Cons.IH) (simp_all add: Let_def)
  also have "\<dots> = take (i - 8 - ?m) buf
      @ (be_bytes ?m (words_val ws) @ be_bytes (min i 8) (uint w)) @ drop i buf"
    using Cons.prems by simp
  also have "be_bytes ?m (words_val ws) @ be_bytes (min i 8) (uint w)
      = be_bytes (min i (8 * length (w # ws))) (words_val (w # ws))"
  proof (cases "8 \<le> i")
    case True
    have "uint w < 2 ^ 64"
      using uint_bounded [of w] by simp
    then have "words_val (w # ws) div 256 ^ 8 = words_val ws"
      by simp
    moreover have "be_bytes 8 (words_val (w # ws)) = be_bytes 8 (uint w)"
      by (rule be_bytes_cong) simp
    moreover have "min i (8 * length (w # ws)) = ?m + 8"
      using True by simp
    ultimately show ?thesis
      using True by (simp only: be_bytes_add) simp
  next
    case False
    then have "be_bytes i (words_val (w # ws)) = be_bytes i (uint w)"
    proof (intro be_bytes_cong)
      have "(256 :: int) ^ i dvd 2 ^ 64"
        using False le_imp_power_dvd [of i 8 "256 :: int"] by simp
      then have "(256 :: int) ^ i dvd 2 ^ 64 * words_val ws"
        by (rule dvd_mult2)
      then obtain q where q: "2 ^ 64 * words_val ws = 256 ^ i * q"
        by (rule dvdE)
      show "words_val (w # ws) mod 256 ^ i = uint w mod 256 ^ i"
        by (simp only: words_val.simps q mod_mult_self2)
    qed
    then show ?thesis
      using False by simp
  qed
  also have "i - 8 - ?m = i - min i (8 * length (w # ws))"
    by (auto simp: min_def)
  finally show ?case
    by (simp only: Let_def append_assoc)
qed

lemma ReadBits_eq:
  assumes "\<bar>x\<bar> < 256 ^ n"
  shows "ReadBits x (replicate n 0) = be_bytes n \<bar>x\<bar>"
proof -
  let ?k = "8 * length (Bits x)"
  have len: "?k = 8 * ((BitLen x + 63) div 64)"
    by (simp add: Bits_def)
  have "ReadBits x (replicate n 0) = replicate (n - min n ?k) 0 @ be_bytes (min n ?k) \<bar>x\<bar>"
    by (simp add: ReadBits_def readWords_spec Let_def)
  also have "\<dots> = be_bytes n \<bar>x\<bar>"
  proof (cases "n \<le> ?k")
    case True
    then show ?thesis by (simp add: min_absorb1)
  next
    case False
    have "BitLen x \<le> 8 * ?k"
      unfolding len by simp
    then have "\<bar>x\<bar> < 2 ^ (8 * ?k)"
      using BitLen_le_iff by blast
    then have "\<bar>x\<bar> div 256 ^ ?k = 0"
      by (simp add: power_mult)
    then show ?thesis
      using False be_bytes_add [of "n - ?k" ?k "\<bar>x\<bar>"] by (simp add: min_absorb2)
  qed
  finally show ?thesis .
qed

lemma PaddedBigBytes_eq: "\<bar>x\<bar> < 256 ^ n \<Longrightarrow> PaddedBigBytes x n = be_bytes n \<bar>x\<bar>"
proof (cases "BitLen x div 8 \<ge> n")
  case True
  assume "\<bar>x\<bar> < 256 ^ n"
  then have "\<bar>x\<bar> < 2 ^ (8 * n)"
    by (simp add: power_mult)
  then have "BitLen x \<le> 8 * n"
    by (simp add: BitLen_le_iff)
  with True have "(BitLen x + 7) div 8 = n"
    by simp
  with True show ?thesis
    by (simp add: PaddedBigBytes_def big_Bytes_def)
next
  case False
  assume "\<bar>x\<bar> < 256 ^ n"
  with False show ?thesis
    by (simp add: PaddedBigBytes_def ReadBits_eq)
qed

lemma nth_be_bytes: "i < n \<Longrightarrow> be_bytes n x ! i = word_of_int (x div 256 ^ (n - 1 - i))"
proof (induction n arbitrary: x)
  case 0
  then show ?case by simp
next
  case (Suc n)
  show ?case
  proof (cases "i = n")
    case True
    then show ?thesis by (simp add: nth_append)
  next
    case False
    with Suc.prems have i: "i < n"
      by simp
    then have "n - i = Suc (n - 1 - i)"
      by simp
    then have "x div 256 div 256 ^ (n - 1 - i) = x div 256 ^ (n - i)"
      by (simp add: zdiv_zmult2_eq)
    with i Suc.IH [OF i, of "x div 256"] show ?thesis
      by (simp add: nth_append)
  qed
qed

lemma bigEndianByteAt_eq: "bigEndianByteAt x n = word_of_int (\<bar>x\<bar> div 256 ^ n)"
proof (cases "n div 8 < length (Bits x)")
  case True
  have "bigEndianByteAt x n = ucast (drop_bit (8 * (n mod 8)) (word_of_int (\<bar>x\<bar> div 2 ^ (64 * (n div 8))) :: u64))"
    using True by (simp add: bigEndianByteAt_def Let_def Bits_def)
  also have "\<dots> = word_of_int (drop_bit (8 * n) \<bar>x\<bar>)"
  proof (rule bit_word_eqI)
    fix j :: nat
    assume "j < LENGTH(8)"
    then have j: "j < 8"
      by simp
    have "8 * (n mod 8) + j < 64"
      using j by (simp add: nat_mult_less_cancel_disj)
    moreover have "64 * (n div 8) + (8 * (n mod 8) + j) = 8 * n + j"
      by presburger
    ultimately show "bit (ucast (drop_bit (8 * (n mod 8)) (word_of_int (\<bar>x\<bar> div 2 ^ (64 * (n div 8))) :: u64)) :: byte) j
        = bit (word_of_int (drop_bit (8 * n) \<bar>x\<bar>) :: byte) j"
      using j by (simp add: bit_simps add.assoc [symmetric] flip: drop_bit_eq_div)
  qed
  also have "drop_bit (8 * n) \<bar>x\<bar> = \<bar>x\<bar> div 256 ^ n"
    by (simp add: drop_bit_eq_div power_mult)
  finally show ?thesis .
next
  case False
  have "length (Bits x) = (BitLen x + 63) div 64"
    by (simp add: Bits_def)
  with False have "BitLen x \<le> 8 * n"
    by linarith
  then have "\<bar>x\<bar> < 2 ^ (8 * n)"
    by (simp add: BitLen_le_iff)
  then have "\<bar>x\<bar> div 256 ^ n = 0"
    by (simp add: power_mult)
  with False show ?thesis
    by (simp add: bigEndianByteAt_def Let_def)
qed

lemma math_Byte_eq: "n < l \<Longrightarrow> math_Byte x l n = be_bytes l \<bar>x\<bar> ! n"
  by (simp add: math_Byte_def bigEndianByteAt_eq nth_be_bytes)

section \<open>Properties\<close>

text \<open>
  C24: \<open>Exp\<close> computes the power modulo \<open>2 ^ 256\<close> by square-and-multiply over the machine
  words of the exponent, whatever the base.
\<close>

theorem math_Exp_is_modular_power: "math_Exp base exponent = base ^ nat \<bar>exponent\<bar> mod 2 ^ 256"
  by (rule math_Exp_eq)

text \<open>
  C25: \<open>S256\<close> and \<open>U256\<close> are the two's complement conversions: \<open>S256\<close> reads a 256-bit value as a
  signed word, and the two are inverse to each other on their ranges.
\<close>

theorem S256_U256_inverse:
  "(is_u256 x \<longrightarrow> S256 x = sint (word_of_int x :: 256 word) \<and> U256 (S256 x) = x) \<and>
   (- (2 ^ 255) \<le> y \<and> y < 2 ^ 255 \<longrightarrow> is_u256 (U256 y) \<and> S256 (U256 y) = y)"
  using S256_eq_sint [of x] U256_S256 [of x] S256_U256 [of y] by (simp add: is_u256_def U256_eq_mod)

theorem S256_U256_inverse_witness:
  "is_u256 (2 ^ 256 - 1) \<and> S256 (2 ^ 256 - 1) = - 1 \<and> U256 (S256 (2 ^ 256 - 1)) = 2 ^ 256 - 1 \<and> S256 (U256 (- 1)) = - 1"
  using S256_U256_inverse [of "2 ^ 256 - 1" "- 1"] by (simp add: is_u256_def S256_def tt255_def tt256_def)

text \<open>
  C26: The overflow flags are exact: \<open>SafeAdd\<close>, \<open>SafeSub\<close> and \<open>SafeMul\<close> report no overflow if
  and only if the mathematical result fits 64 bits, and then return it.
\<close>

theorem Safe_arithmetic_exact:
  "(SafeAdd x y = (z, False) \<longleftrightarrow> unat x + unat y < 2 ^ 64 \<and> z = x + y) \<and>
   (SafeSub x y = (z, False) \<longleftrightarrow> unat y \<le> unat x \<and> z = x - y) \<and>
   (SafeMul x y = (z, False) \<longleftrightarrow> unat x * unat y < 2 ^ 64 \<and> z = x * y)"
  using SafeAdd_spec SafeSub_spec SafeMul_spec by simp

text \<open>
  C27: \<open>PaddedBigBytes\<close> writes a value that fits into \<open>n\<close> bytes as exactly its \<open>n\<close> big-endian
  bytes, \<open>Byte\<close> selects one of them, and reading them back gives the value.
\<close>

theorem PaddedBigBytes_roundtrip:
  assumes "0 \<le> x" and "x < 256 ^ n"
  shows "length (PaddedBigBytes x n) = n \<and> SetBytes (PaddedBigBytes x n) = x \<and>
    (i < n \<longrightarrow> PaddedBigBytes x n ! i = math_Byte x n i)"
  using assms PaddedBigBytes_eq [of x n] math_Byte_eq [of i n x] by (simp add: SetBytes_be_bytes)

theorem PaddedBigBytes_roundtrip_witness:
  "PaddedBigBytes 1024 4 = [0, 0, 4, 0] \<and> length (PaddedBigBytes 1024 4) = 4 \<and>
   SetBytes (PaddedBigBytes 1024 4) = 1024 \<and> PaddedBigBytes 1024 4 ! 2 = math_Byte 1024 4 2"
proof -
  have "PaddedBigBytes 1024 4 = [0, 0, 4, 0]"
    by code_simp
  then show ?thesis
    using PaddedBigBytes_roundtrip [of 1024 4 2] by simp
qed

end
