(* ===== verification/Params_Config.thy ===== *)
theory Params_Config
  imports Go_Base
begin

text \<open>
  Package \<open>params\<close>: the chain configuration with its scheduled forks
  (\<open>config.go\<close>, \<open>hf.go\<close>), the gas price tables (\<open>gas_table.go\<close>) and the protocol
  constants (\<open>protocol_params.go\<close>).

  A \<open>*big.Int\<close> that may be nil is an \<open>int option\<close>. A \<open>ForkMap\<close> is a partial map: a missing
  key and a nil value both read as nil. The code compares configurations by pointer, so the
  record carries the address of the structure (\<open>config_addr\<close>) beside its fields.

  The lemmas show that a fork never deactivates, that \<open>CheckCompatible\<close> terminates, and
  that it reports the highest block to which the chain has to be rewound.
\<close>

section \<open>Protocol constants\<close>

abbreviation (input) GasLimitBoundDivisor :: u64 where "GasLimitBoundDivisor \<equiv> 1024"
abbreviation (input) MinGasLimit :: u64 where "MinGasLimit \<equiv> 5000"
abbreviation (input) MaximumExtraDataSize :: u64 where "MaximumExtraDataSize \<equiv> 32"
abbreviation (input) CallValueTransferGas :: u64 where "CallValueTransferGas \<equiv> 9000"
abbreviation (input) CallNewAccountGas :: u64 where "CallNewAccountGas \<equiv> 25000"
abbreviation (input) TxGas :: u64 where "TxGas \<equiv> 21000"
abbreviation (input) TxGasContractCreation :: u64 where "TxGasContractCreation \<equiv> 53000"
abbreviation (input) TxDataZeroGas :: u64 where "TxDataZeroGas \<equiv> 4"
abbreviation (input) QuadCoeffDiv :: u64 where "QuadCoeffDiv \<equiv> 512"
abbreviation (input) SstoreSetGas :: u64 where "SstoreSetGas \<equiv> 20000"
abbreviation (input) LogDataGas :: u64 where "LogDataGas \<equiv> 8"
abbreviation (input) CallStipend :: u64 where "CallStipend \<equiv> 2300"
abbreviation (input) Sha3Gas :: u64 where "Sha3Gas \<equiv> 30"
abbreviation (input) Sha3WordGas :: u64 where "Sha3WordGas \<equiv> 6"
abbreviation (input) SstoreResetGas :: u64 where "SstoreResetGas \<equiv> 5000"
abbreviation (input) SstoreClearGas :: u64 where "SstoreClearGas \<equiv> 5000"
abbreviation (input) SstoreRefundGas :: u64 where "SstoreRefundGas \<equiv> 15000"
abbreviation (input) JumpdestGas :: u64 where "JumpdestGas \<equiv> 1"
abbreviation (input) CreateDataGas :: u64 where "CreateDataGas \<equiv> 200"
abbreviation (input) CallCreateDepth :: nat where "CallCreateDepth \<equiv> 1024"
abbreviation (input) LogGas :: u64 where "LogGas \<equiv> 375"
abbreviation (input) CopyGas :: u64 where "CopyGas \<equiv> 3"
abbreviation (input) StackLimit :: nat where "StackLimit \<equiv> 1024"
abbreviation (input) LogTopicGas :: u64 where "LogTopicGas \<equiv> 375"
abbreviation (input) CreateGas :: u64 where "CreateGas \<equiv> 32000"
abbreviation (input) SuicideRefundGas :: u64 where "SuicideRefundGas \<equiv> 24000"
abbreviation (input) MemoryGas :: u64 where "MemoryGas \<equiv> 3"
abbreviation (input) TxDataNonZeroGas :: u64 where "TxDataNonZeroGas \<equiv> 68"
abbreviation (input) MaxCodeSize :: nat where "MaxCodeSize \<equiv> 24576"

abbreviation (input) MaxMoney :: int where "MaxMoney \<equiv> 42000000"
abbreviation (input) BlockReward :: int where "BlockReward \<equiv> 1000000000000000000"
abbreviation (input) EthBlockReward :: int where "EthBlockReward \<equiv> 5000000000000000000"
abbreviation (input) EthBlockReward2 :: int where "EthBlockReward2 \<equiv> 3000000000000000000"
abbreviation (input) MinimumDifficultyEth :: int where "MinimumDifficultyEth \<equiv> 131072"
abbreviation (input) MinimumDifficultyGenesis :: int where "MinimumDifficultyGenesis \<equiv> 99999999"
abbreviation (input) MinimumDifficultyHF1 :: int where "MinimumDifficultyHF1 \<equiv> 100001792"
abbreviation (input) MinimumDifficultyHF3 :: int where "MinimumDifficultyHF3 \<equiv> 30959185800"
abbreviation (input) MinimumDifficultyHF8Testnet :: int where "MinimumDifficultyHF8Testnet \<equiv> 64"
abbreviation (input) MinimumDifficultyHF5Testnet :: int where "MinimumDifficultyHF5Testnet \<equiv> 4096"
abbreviation (input) MinimumDifficultyHF5 :: int where "MinimumDifficultyHF5 \<equiv> 46039386"
abbreviation (input) DifficultyBoundDivisor :: int where "DifficultyBoundDivisor \<equiv> 2048"
abbreviation (input) DifficultyBoundDivisorHF5 :: int where "DifficultyBoundDivisorHF5 \<equiv> 16"
abbreviation (input) DifficultyBoundDivisorHF6 :: int where "DifficultyBoundDivisorHF6 \<equiv> 128"
abbreviation (input) DifficultyBoundDivisorHF8 :: int where "DifficultyBoundDivisorHF8 \<equiv> 1024"
abbreviation (input) DifficultyBoundDivisorHF8Testnet :: int where "DifficultyBoundDivisorHF8Testnet \<equiv> 8"
abbreviation (input) DurationLimit :: int where "DurationLimit \<equiv> 240"
abbreviation (input) DurationLimitHF6 :: int where "DurationLimitHF6 \<equiv> 180"

section \<open>Gas tables\<close>

record GasTable =
  ExtcodeSize :: u64
  ExtcodeCopy :: u64
  Balance :: u64
  SLoad :: u64
  Calls :: u64
  Suicide :: u64
  ExpByte :: u64
  CreateBySuicide :: u64

definition GasTableHomestead :: GasTable where
  "GasTableHomestead =
     \<lparr>ExtcodeSize = 700, ExtcodeCopy = 700, Balance = 400, SLoad = 200, Calls = 700,
      Suicide = 5000, ExpByte = 10, CreateBySuicide = 25000\<rparr>"

definition GasTableHF1 :: GasTable where
  "GasTableHF1 =
     \<lparr>ExtcodeSize = 700, ExtcodeCopy = 700, Balance = 400, SLoad = 200, Calls = 700,
      Suicide = 5000, ExpByte = 50, CreateBySuicide = 25000\<rparr>"

section \<open>Chain configuration\<close>

type_synonym ForkMap = "nat \<rightharpoonup> int"

record ChainConfig =
  config_addr :: nat
  ChainId :: "int option"
  HomesteadBlock :: "int option"
  DAOForkBlock :: "int option"
  DAOForkSupport :: bool
  EIP150Block :: "int option"
  EIP150Hash :: hash
  EIP155Block :: "int option"
  EIP158Block :: "int option"
  ByzantiumBlock :: "int option"
  ConstantinopleBlock :: "int option"
  HF :: ForkMap

abbreviation (input) KnownHF :: nat where "KnownHF \<equiv> 9"

definition AquachainHF :: ForkMap where
  "AquachainHF = [1 \<mapsto> 3600, 2 \<mapsto> 7200, 3 \<mapsto> 13026, 4 \<mapsto> 21800, 5 \<mapsto> 22800, 6 \<mapsto> 36000, 7 \<mapsto> 36050]"

definition TestnetHF :: ForkMap where
  "TestnetHF = [1 \<mapsto> 1, 2 \<mapsto> 2, 3 \<mapsto> 3, 4 \<mapsto> 4, 5 \<mapsto> 5, 6 \<mapsto> 6, 7 \<mapsto> 25, 8 \<mapsto> 650]"

definition Testnet2HF :: ForkMap where
  "Testnet2HF = [5 \<mapsto> 0, 6 \<mapsto> 0, 7 \<mapsto> 0, 8 \<mapsto> 8, 9 \<mapsto> 19]"

definition TestHF :: ForkMap where
  "TestHF = [4 \<mapsto> 12, 5 \<mapsto> 13, 7 \<mapsto> 30]"

definition MainnetChainConfig :: ChainConfig where
  "MainnetChainConfig =
     \<lparr>config_addr = 0, ChainId = Some 61717561, HomesteadBlock = Some 0, DAOForkBlock = None,
      DAOForkSupport = False, EIP150Block = Some 0, EIP150Hash = 0, EIP155Block = AquachainHF 7,
      EIP158Block = AquachainHF 7, ByzantiumBlock = AquachainHF 7, ConstantinopleBlock = None,
      HF = AquachainHF\<rparr>"

definition TestnetChainConfig :: ChainConfig where
  "TestnetChainConfig =
     \<lparr>config_addr = 1, ChainId = Some 3, HomesteadBlock = Some 0, DAOForkBlock = None,
      DAOForkSupport = False, EIP150Block = Some 0, EIP150Hash = 0, EIP155Block = TestnetHF 7,
      EIP158Block = TestnetHF 7, ByzantiumBlock = TestnetHF 7, ConstantinopleBlock = None,
      HF = TestnetHF\<rparr>"

definition Testnet2ChainConfig :: ChainConfig where
  "Testnet2ChainConfig =
     \<lparr>config_addr = 2, ChainId = Some 4096, HomesteadBlock = Some 0, DAOForkBlock = None,
      DAOForkSupport = False, EIP150Block = Some 0, EIP150Hash = 0, EIP155Block = Testnet2HF 7,
      EIP158Block = Testnet2HF 7, ByzantiumBlock = Testnet2HF 7, ConstantinopleBlock = None,
      HF = Testnet2HF\<rparr>"

definition EthnetChainConfig :: ChainConfig where
  "EthnetChainConfig =
     \<lparr>config_addr = 3, ChainId = Some 1, HomesteadBlock = Some 1150000,
      DAOForkBlock = Some 1920000, DAOForkSupport = True, EIP150Block = Some 2463000,
      EIP150Hash = 0x2086799aeebeae135c246c65021c82b4e15a2c451340993aacfd2751886514f0,
      EIP155Block = Some 2675000, EIP158Block = Some 2675000, ByzantiumBlock = Some 4370000,
      ConstantinopleBlock = None, HF = Map.empty\<rparr>"

definition TestChainConfig :: ChainConfig where
  "TestChainConfig =
     \<lparr>config_addr = 4, ChainId = Some 3, HomesteadBlock = Some 0, DAOForkBlock = None,
      DAOForkSupport = False, EIP150Block = Some 0, EIP150Hash = 0, EIP155Block = Some 0,
      EIP158Block = Some 0, ByzantiumBlock = Some 0, ConstantinopleBlock = None, HF = TestHF\<rparr>"

definition isForked :: "int option \<Rightarrow> int option \<Rightarrow> bool" where
  "isForked s head = (case (s, head) of (Some b, Some h) \<Rightarrow> b \<le> h | _ \<Rightarrow> False)"

definition IsHomestead :: "ChainConfig \<Rightarrow> int option \<Rightarrow> bool" where
  "IsHomestead c num = isForked (HomesteadBlock c) num"

definition IsDAOFork :: "ChainConfig \<Rightarrow> int option \<Rightarrow> bool" where
  "IsDAOFork c num = isForked (DAOForkBlock c) num"

definition IsEIP150 :: "ChainConfig \<Rightarrow> int option \<Rightarrow> bool" where
  "IsEIP150 c num = isForked (EIP150Block c) num"

definition IsEIP155 :: "ChainConfig \<Rightarrow> int option \<Rightarrow> bool" where
  "IsEIP155 c num = isForked (EIP155Block c) num"

definition IsEIP158 :: "ChainConfig \<Rightarrow> int option \<Rightarrow> bool" where
  "IsEIP158 c num = isForked (EIP158Block c) num"

definition IsByzantium :: "ChainConfig \<Rightarrow> int option \<Rightarrow> bool" where
  "IsByzantium c num = isForked (ByzantiumBlock c) num"

definition IsConstantinople :: "ChainConfig \<Rightarrow> int option \<Rightarrow> bool" where
  "IsConstantinople c num = isForked (ConstantinopleBlock c) num"

definition IsHF :: "ChainConfig \<Rightarrow> nat \<Rightarrow> int option \<Rightarrow> bool" where
  "IsHF c hf num = (if HF c hf = None then False else isForked (HF c hf) num)"

definition GasTable_of :: "ChainConfig \<Rightarrow> int option \<Rightarrow> GasTable" where
  "GasTable_of c num =
     (if num = None then GasTableHomestead
      else if IsHF c 1 num then GasTableHF1 else GasTableHomestead)"

text \<open>\<open>GetBlockVersion\<close> panics on a nil height.\<close>

definition GetBlockVersion :: "ChainConfig \<Rightarrow> int option \<Rightarrow> byte go" where
  "GetBlockVersion c height =
     (if height = None then Panic
      else if config_addr c = config_addr EthnetChainConfig then Ret 1
      else if IsHF c 9 height then Ret 4
      else if IsHF c 8 height then Ret 3
      else if IsHF c 5 height then Ret 2
      else Ret 1)"

definition Sorted :: "ForkMap \<Rightarrow> nat list" where
  "Sorted f = filter (\<lambda>i. f i \<noteq> None) [0 ..< KnownHF]"

definition UseHF :: "ChainConfig \<Rightarrow> int option \<Rightarrow> nat" where
  "UseHF c height =
     foldl (\<lambda>active hf. if IsHF c hf height then hf else active) 0 (Sorted (HF c))"

definition GetHF :: "ChainConfig \<Rightarrow> nat \<Rightarrow> int option" where
  "GetHF c hf = HF c hf"

text \<open>The loop of \<open>NextHF\<close> runs from \<open>KnownHF\<close> down to 1; \<open>cur\<close> is never read.\<close>

primrec nextHFFrom :: "ForkMap \<Rightarrow> nat \<Rightarrow> int option" where
  "nextHFFrom f 0 = None"
| "nextHFFrom f (Suc i) = (if f (Suc i) = None then nextHFFrom f i else f (Suc i))"

definition NextHF :: "ChainConfig \<Rightarrow> int option \<Rightarrow> int option" where
  "NextHF c cur = nextHFFrom (HF c) KnownHF"

record Rules =
  RulesChainId :: int
  RulesIsHomestead :: bool
  RulesIsEIP150 :: bool
  RulesIsEIP155 :: bool
  RulesIsEIP158 :: bool
  RulesIsByzantium :: bool

definition Rules_of :: "ChainConfig \<Rightarrow> int option \<Rightarrow> Rules" where
  "Rules_of c num =
     \<lparr>RulesChainId = (case ChainId c of None \<Rightarrow> 0 | Some i \<Rightarrow> i),
      RulesIsHomestead = IsHomestead c num, RulesIsEIP150 = IsEIP150 c num,
      RulesIsEIP155 = IsEIP155 c num, RulesIsEIP158 = IsEIP158 c num,
      RulesIsByzantium = IsByzantium c num\<rparr>"

subsection \<open>Compatibility of two configurations\<close>

definition configNumEqual :: "int option \<Rightarrow> int option \<Rightarrow> bool" where
  "configNumEqual x y =
     (if x = None then y = None else if y = None then x = None else the x = the y)"

definition isForkIncompatible :: "int option \<Rightarrow> int option \<Rightarrow> int option \<Rightarrow> bool" where
  "isForkIncompatible s1 s2 head =
     ((isForked s1 head \<or> isForked s2 head) \<and> \<not> configNumEqual s1 s2)"

record ConfigCompatError =
  What :: string
  StoredConfig :: "int option"
  NewConfig :: "int option"
  RewindTo :: u64

definition newCompatError :: "string \<Rightarrow> int option \<Rightarrow> int option \<Rightarrow> ConfigCompatError" where
  "newCompatError what storedblock newblock =
     (let rew = (case storedblock of None \<Rightarrow> newblock
                 | Some s \<Rightarrow> (case newblock of None \<Rightarrow> storedblock
                              | Some n \<Rightarrow> if s < n then storedblock else newblock))
      in \<lparr>What = what, StoredConfig = storedblock, NewConfig = newblock,
          RewindTo = (case rew of None \<Rightarrow> 0 | Some r \<Rightarrow> if r > 0 then Uint64 r - 1 else 0)\<rparr>)"

text \<open>The checks in the order of the code: the hard forks below \<open>KnownHF\<close>, then the others.\<close>

primrec checkHFs ::
  "ChainConfig \<Rightarrow> ChainConfig \<Rightarrow> int option \<Rightarrow> nat list \<Rightarrow> ConfigCompatError option" where
  "checkHFs c newcfg head [] = None"
| "checkHFs c newcfg head (i # is) =
     (if HF c i = None \<and> HF newcfg i = None then checkHFs c newcfg head is
      else if isForkIncompatible (HF c i) (HF newcfg i) head
      then Some (newCompatError (''Aquachain HF'' @ [char_of (48 + i)] @ '' block'') (HF c i) (HF newcfg i))
      else checkHFs c newcfg head is)"

definition checkCompatible ::
  "ChainConfig \<Rightarrow> ChainConfig \<Rightarrow> int option \<Rightarrow> ConfigCompatError option" where
  "checkCompatible c newcfg head =
     (case checkHFs c newcfg head [1 ..< KnownHF] of Some e \<Rightarrow> Some e
      | None \<Rightarrow>
        if isForkIncompatible (HomesteadBlock c) (HomesteadBlock newcfg) head
        then Some (newCompatError ''Homestead fork block'' (HomesteadBlock c) (HomesteadBlock newcfg))
        else if isForkIncompatible (DAOForkBlock c) (DAOForkBlock newcfg) head
        then Some (newCompatError ''DAO fork block'' (DAOForkBlock c) (DAOForkBlock newcfg))
        else if IsDAOFork c head \<and> DAOForkSupport c \<noteq> DAOForkSupport newcfg
        then Some (newCompatError ''DAO fork support flag'' (DAOForkBlock c) (DAOForkBlock newcfg))
        else if isForkIncompatible (EIP150Block c) (EIP150Block newcfg) head
        then Some (newCompatError ''EIP150 fork block'' (EIP150Block c) (EIP150Block newcfg))
        else if isForkIncompatible (EIP155Block c) (EIP155Block newcfg) head
        then Some (newCompatError ''EIP155 fork block'' (EIP155Block c) (EIP155Block newcfg))
        else if isForkIncompatible (EIP158Block c) (EIP158Block newcfg) head
        then Some (newCompatError ''EIP158 fork block'' (EIP158Block c) (EIP158Block newcfg))
        else if IsEIP158 c head \<and> \<not> configNumEqual (ChainId c) (ChainId newcfg)
        then Some (newCompatError ''EIP158 chain ID'' (EIP158Block c) (EIP158Block newcfg))
        else if isForkIncompatible (ByzantiumBlock c) (ByzantiumBlock newcfg) head
        then Some (newCompatError ''Byzantium fork block'' (ByzantiumBlock c) (ByzantiumBlock newcfg))
        else if isForkIncompatible (ConstantinopleBlock c) (ConstantinopleBlock newcfg) head
        then Some (newCompatError ''Constantinople fork block'' (ConstantinopleBlock c) (ConstantinopleBlock newcfg))
        else None)"

section \<open>Forks never deactivate\<close>

lemma isForked_mono: "isForked s (Some h) \<Longrightarrow> h \<le> h' \<Longrightarrow> isForked s (Some h')"
  by (auto simp: isForked_def split: option.splits)

lemma isForked_None [simp]: "\<not> isForked None h" "\<not> isForked s None"
  by (auto simp: isForked_def split: option.splits)

lemma isForked_Some [simp]: "isForked (Some b) (Some h) \<longleftrightarrow> b \<le> h"
  by (simp add: isForked_def)

lemma IsHF_eq [simp]: "IsHF c hf num = isForked (HF c hf) num"
  by (simp add: IsHF_def)

lemma configNumEqual_eq [simp]: "configNumEqual x y \<longleftrightarrow> x = y"
  by (auto simp: configNumEqual_def)

lemma GetBlockVersion_range:
  "GetBlockVersion c (Some h) = Ret v \<Longrightarrow> v \<in> {1, 2, 3, 4}"
  by (auto simp: GetBlockVersion_def split: if_splits)

lemma GetBlockVersion_mono:
  assumes "GetBlockVersion c (Some h) = Ret v" and "GetBlockVersion c (Some h') = Ret v'" and "h \<le> h'"
  shows "v \<le> v'"
  using assms isForked_mono [of _ h h']
  by (auto simp: GetBlockVersion_def split: if_splits)

lemma Sorted_less: "hf \<in> set (Sorted f) \<Longrightarrow> hf < KnownHF"
  by (auto simp: Sorted_def)

lemma foldl_last_active:
  "foldl (\<lambda>active hf. if P hf then hf else active) a xs \<in> insert a {hf \<in> set xs. P hf}"
  by (induction xs rule: rev_induct) auto

lemma foldl_last_active_ge:
  "sorted xs \<Longrightarrow> a \<le> hd (xs @ [a]) \<Longrightarrow> hf \<in> set xs \<Longrightarrow> P hf \<Longrightarrow>
     hf \<le> foldl (\<lambda>active hf. if P hf then hf else active) (a :: nat) xs"
proof (induction xs arbitrary: a rule: rev_induct)
  case Nil
  then show ?case by simp
next
  case (snoc x xs)
  have "sorted xs" and x: "\<forall>y \<in> set xs. y \<le> x"
    using snoc.prems(1) by (auto simp: sorted_append)
  show ?case
  proof (cases "P x")
    case True
    then show ?thesis
      using snoc.prems(3) x by auto
  next
    case False
    with snoc.prems have "hf \<in> set xs"
      by auto
    then have "a \<le> hd (xs @ [a])"
      using snoc.prems(2) by (cases xs) auto
    with \<open>hf \<in> set xs\<close> \<open>sorted xs\<close> False show ?thesis
      using snoc.IH snoc.prems(4) by simp
  qed
qed

text \<open>
  \<open>UseHF\<close> is the highest activated hard fork among those below \<open>KnownHF\<close>; the hard fork
  numbered \<open>KnownHF\<close> itself is never selected, whatever its height.
\<close>

lemma UseHF_bound: "UseHF c height < KnownHF"
  using foldl_last_active [of "\<lambda>hf. IsHF c hf height" 0 "Sorted (HF c)"] Sorted_less
  by (auto simp: UseHF_def)

lemma UseHF_active: "UseHF c height = 0 \<or> IsHF c (UseHF c height) height"
  using foldl_last_active [of "\<lambda>hf. IsHF c hf height" 0 "Sorted (HF c)"]
  by (auto simp: UseHF_def)

lemma UseHF_highest: "IsHF c hf height \<Longrightarrow> hf < KnownHF \<Longrightarrow> hf \<le> UseHF c height"
proof -
  assume hf: "IsHF c hf height" "hf < KnownHF"
  then have "HF c hf \<noteq> None"
    by (cases "HF c hf") auto
  with hf(2) have mem: "hf \<in> set (Sorted (HF c))"
    by (auto simp: Sorted_def)
  have "sorted (Sorted (HF c))"
    unfolding Sorted_def by (rule sorted_wrt_filter) simp
  then show ?thesis
    unfolding UseHF_def using mem hf(1) by (intro foldl_last_active_ge) simp_all
qed

section \<open>CheckCompatible\<close>

lemma checkHFs_None_iff:
  "checkHFs c n head is = None \<longleftrightarrow> (\<forall>i \<in> set is. \<not> isForkIncompatible (HF c i) (HF n i) head)"
  by (induction "is") (auto simp: isForkIncompatible_def)

lemma checkHFs_Some:
  "checkHFs c n head is = Some e \<Longrightarrow>
     \<exists>i \<in> set is. \<exists>w. e = newCompatError w (HF c i) (HF n i) \<and> isForkIncompatible (HF c i) (HF n i) head"
  by (induction "is") (auto split: if_splits)

lemma checkCompatible_None_iff:
  "checkCompatible c n head = None \<longleftrightarrow>
     (\<forall>i \<in> {1 ..< KnownHF}. \<not> isForkIncompatible (HF c i) (HF n i) head) \<and>
     \<not> isForkIncompatible (HomesteadBlock c) (HomesteadBlock n) head \<and>
     \<not> isForkIncompatible (DAOForkBlock c) (DAOForkBlock n) head \<and>
     \<not> (IsDAOFork c head \<and> DAOForkSupport c \<noteq> DAOForkSupport n) \<and>
     \<not> isForkIncompatible (EIP150Block c) (EIP150Block n) head \<and>
     \<not> isForkIncompatible (EIP155Block c) (EIP155Block n) head \<and>
     \<not> isForkIncompatible (EIP158Block c) (EIP158Block n) head \<and>
     \<not> (IsEIP158 c head \<and> ChainId c \<noteq> ChainId n) \<and>
     \<not> isForkIncompatible (ByzantiumBlock c) (ByzantiumBlock n) head \<and>
     \<not> isForkIncompatible (ConstantinopleBlock c) (ConstantinopleBlock n) head"
  using checkHFs_None_iff [of c n head "[1 ..< KnownHF]"]
  by (auto simp: checkCompatible_def split: option.split)

text \<open>The block at which a conflict between two schedules begins.\<close>

definition conflict_start :: "int option \<Rightarrow> int option \<Rightarrow> int option" where
  "conflict_start s1 s2 =
     (case s1 of None \<Rightarrow> s2 | Some a \<Rightarrow> (case s2 of None \<Rightarrow> s1 | Some b \<Rightarrow> Some (min a b)))"

lemma RewindTo_newCompatError:
  "RewindTo (newCompatError w s1 s2) =
     (case conflict_start s1 s2 of None \<Rightarrow> 0 | Some r \<Rightarrow> if r > 0 then Uint64 r - 1 else 0)"
  by (auto simp: newCompatError_def conflict_start_def min_def split: option.splits)

lemma isForkIncompatible_start:
  "isForkIncompatible s1 s2 (Some h) \<longleftrightarrow>
     s1 \<noteq> s2 \<and> (\<exists>r. conflict_start s1 s2 = Some r \<and> r \<le> h)"
  by (cases s1; cases s2) (auto simp: isForkIncompatible_def conflict_start_def)

lemma isForkIncompatible_mono:
  "isForkIncompatible s1 s2 (Some h) \<Longrightarrow> h \<le> h' \<Longrightarrow> isForkIncompatible s1 s2 (Some h')"
  by (auto simp: isForkIncompatible_start)

lemma checkCompatible_antimono:
  assumes "checkCompatible c n (Some h') = None" and "h \<le> h'"
  shows "checkCompatible c n (Some h) = None"
  using assms(1) isForkIncompatible_mono [OF _ assms(2)] isForked_mono [OF _ assms(2)]
  unfolding checkCompatible_None_iff IsDAOFork_def IsEIP158_def by blast

text \<open>The checks after the hard forks, as guards with the error each reports.\<close>

definition fork_checks ::
  "ChainConfig \<Rightarrow> ChainConfig \<Rightarrow> int option \<Rightarrow> (bool \<times> ConfigCompatError) list" where
  "fork_checks c n head =
     [(isForkIncompatible (HomesteadBlock c) (HomesteadBlock n) head, newCompatError ''Homestead fork block'' (HomesteadBlock c) (HomesteadBlock n)),
      (isForkIncompatible (DAOForkBlock c) (DAOForkBlock n) head, newCompatError ''DAO fork block'' (DAOForkBlock c) (DAOForkBlock n)),
      (IsDAOFork c head \<and> DAOForkSupport c \<noteq> DAOForkSupport n,
        newCompatError ''DAO fork support flag'' (DAOForkBlock c) (DAOForkBlock n)),
      (isForkIncompatible (EIP150Block c) (EIP150Block n) head, newCompatError ''EIP150 fork block'' (EIP150Block c) (EIP150Block n)),
      (isForkIncompatible (EIP155Block c) (EIP155Block n) head, newCompatError ''EIP155 fork block'' (EIP155Block c) (EIP155Block n)),
      (isForkIncompatible (EIP158Block c) (EIP158Block n) head, newCompatError ''EIP158 fork block'' (EIP158Block c) (EIP158Block n)),
      (IsEIP158 c head \<and> \<not> configNumEqual (ChainId c) (ChainId n),
        newCompatError ''EIP158 chain ID'' (EIP158Block c) (EIP158Block n)),
      (isForkIncompatible (ByzantiumBlock c) (ByzantiumBlock n) head, newCompatError ''Byzantium fork block'' (ByzantiumBlock c) (ByzantiumBlock n)),
      (isForkIncompatible (ConstantinopleBlock c) (ConstantinopleBlock n) head, newCompatError ''Constantinople fork block'' (ConstantinopleBlock c) (ConstantinopleBlock n))]"

primrec first_failing :: "(bool \<times> 'e) list \<Rightarrow> 'e option" where
  "first_failing [] = None"
| "first_failing (x # xs) = (if fst x then Some (snd x) else first_failing xs)"

lemma first_failing_Some: "first_failing xs = Some e \<Longrightarrow> (True, e) \<in> set xs"
  by (induction xs) (auto split: if_splits)

lemma checkCompatible_fork_checks:
  "checkCompatible c n head =
     (case checkHFs c n head [1 ..< KnownHF] of Some e \<Rightarrow> Some e
      | None \<Rightarrow> first_failing (fork_checks c n head))"
  by (simp only: checkCompatible_def fork_checks_def first_failing.simps fst_conv snd_conv)

definition conflict_below :: "ChainConfig \<Rightarrow> ChainConfig \<Rightarrow> int \<Rightarrow> ConfigCompatError \<Rightarrow> bool" where
  "conflict_below c n h e \<longleftrightarrow>
     (\<exists>w s1 s2 r. e = newCompatError w s1 s2 \<and> conflict_start s1 s2 = Some r \<and> r \<le> h \<and>
        checkCompatible c n (Some r) \<noteq> None)"

lemma conflict_below_schedules:
  assumes "isForkIncompatible s1 s2 (Some h)"
    and "\<And>r. isForkIncompatible s1 s2 (Some r) \<Longrightarrow> checkCompatible c n (Some r) \<noteq> None"
  shows "conflict_below c n h (newCompatError w s1 s2)"
  using assms unfolding isForkIncompatible_start conflict_below_def by blast

lemma conflict_below_flag:
  assumes "isForked s (Some h)"
    and "\<And>r. isForked s (Some r) \<Longrightarrow> checkCompatible c n (Some r) \<noteq> None"
    and "\<And>r. isForkIncompatible s s' (Some r) \<Longrightarrow> checkCompatible c n (Some r) \<noteq> None"
  shows "conflict_below c n h (newCompatError w s s')"
proof (cases "isForkIncompatible s s' (Some h)")
  case True
  then show ?thesis using conflict_below_schedules assms(3) by blast
next
  case False
  with assms(1) obtain b where "s = Some b" "s' = Some b" "b \<le> h"
    by (cases s) (auto simp: isForkIncompatible_def)
  moreover have "checkCompatible c n (Some b) \<noteq> None"
    using assms(2) [of b] \<open>s = Some b\<close> by simp
  ultimately show ?thesis
    unfolding conflict_below_def by (force simp: conflict_start_def)
qed

lemma fork_checks_conflict:
  "list_all (\<lambda>x. fst x \<longrightarrow> conflict_below c n h (snd x)) (fork_checks c n (Some h))"
  unfolding fork_checks_def list.pred_inject fst_conv snd_conv
  by (intro conjI impI; (elim conjE)?;
      ((rule conflict_below_schedules, assumption, simp add: checkCompatible_None_iff)
       | (rule conflict_below_flag, simp add: IsDAOFork_def IsEIP158_def,
          simp_all add: checkCompatible_None_iff IsDAOFork_def IsEIP158_def)
       | simp))

lemma checkCompatible_conflict:
  assumes "checkCompatible c n (Some h) = Some e"
  shows "conflict_below c n h e"
proof (cases "checkHFs c n (Some h) [1 ..< KnownHF]")
  case (Some e')
  then obtain i w where i: "i \<in> set [1 ..< KnownHF]" "e' = newCompatError w (HF c i) (HF n i)"
    "isForkIncompatible (HF c i) (HF n i) (Some h)"
    using checkHFs_Some by blast
  moreover have "e' = e"
    using assms Some by (simp add: checkCompatible_def)
  moreover have "checkCompatible c n (Some r) \<noteq> None"
    if "isForkIncompatible (HF c i) (HF n i) (Some r)" for r
    using that i(1) unfolding checkCompatible_None_iff by auto
  ultimately show ?thesis
    using conflict_below_schedules i(3) by blast
next
  case None
  with assms have "(True, e) \<in> set (fork_checks c n (Some h))"
    by (simp add: checkCompatible_fork_checks first_failing_Some)
  then show ?thesis
    using fork_checks_conflict [of c n h] by (auto simp: list_all_iff)
qed

lemma unat_RewindTo_below:
  fixes h :: u64
  assumes "conflict_below c n (uint h) e"
  shows "unat (RewindTo e) \<le> unat h - 1"
proof -
  from assms obtain w s1 s2 r where e: "e = newCompatError w s1 s2"
    and r: "conflict_start s1 s2 = Some r" "r \<le> uint h"
    by (auto simp: conflict_below_def)
  show ?thesis
  proof (cases "r > 0")
    case True
    have "uint h < 2 ^ 64"
      using uint_bounded [of h] by simp
    with r True have u: "uint (Uint64 r) = r"
      by (intro uint_Uint64) simp_all
    then have "Uint64 r \<noteq> 0"
      using True by auto
    then have "unat (Uint64 r - 1) = unat (Uint64 r) - 1"
      by (rule unat_minus_one)
    also have "unat (Uint64 r) = nat r"
      using u by (metis unat_eq_nat_uint)
    finally have "unat (RewindTo e) = nat r - 1"
      using r True e by (simp add: RewindTo_newCompatError)
    moreover have "nat r \<le> unat h"
      using nat_mono [OF r(2)] by simp
    ultimately show ?thesis
      by simp
  next
    case False
    then show ?thesis
      using r e by (simp add: RewindTo_newCompatError)
  qed
qed

text \<open>The loop of \<open>CheckCompatible\<close>, from the last error found and the current head.\<close>

function compatLoop ::
  "ChainConfig \<Rightarrow> ChainConfig \<Rightarrow> ConfigCompatError option \<Rightarrow> u64 \<Rightarrow> ConfigCompatError option" where
  "compatLoop c newcfg lasterr bhead =
     (case checkCompatible c newcfg (Some (uint bhead)) of None \<Rightarrow> lasterr
      | Some err \<Rightarrow>
        if lasterr \<noteq> None \<and> RewindTo err = RewindTo (the lasterr) then lasterr
        else compatLoop c newcfg (Some err) (RewindTo err))"
  by pat_completeness auto
termination
proof (relation "measure (\<lambda>(c, n, l, h). 2 * unat h + (if l \<noteq> None \<and> RewindTo (the l) = h then 0 else 1))")
  fix c n and l :: "ConfigCompatError option" and e and h :: u64
  assume e: "checkCompatible c n (Some (uint h)) = Some e"
    and stop: "\<not> (l \<noteq> None \<and> RewindTo e = RewindTo (the l))"
  have le: "unat (RewindTo e) \<le> unat h - 1"
    using checkCompatible_conflict [OF e] by (rule unat_RewindTo_below)
  have "unat (RewindTo e) < unat h \<or> RewindTo e = h"
  proof (cases "unat h = 0")
    case True
    with le show ?thesis
      by (simp add: unat_eq_zero)
  next
    case False
    with le show ?thesis
      by linarith
  qed
  then show "((c, n, Some e, RewindTo e), c, n, l, h)
      \<in> measure (\<lambda>(c, n, l, h). 2 * unat h + (if l \<noteq> None \<and> RewindTo (the l) = h then 0 else 1))"
    using stop by auto
qed simp

declare compatLoop.simps [simp del]

definition CheckCompatible :: "ChainConfig \<Rightarrow> ChainConfig \<Rightarrow> u64 \<Rightarrow> ConfigCompatError option" where
  "CheckCompatible c newcfg height = compatLoop c newcfg None height"

text \<open>
  Whether the chain may keep its blocks up to a height under the new configuration: at every height
  up to it the two configurations have the same hard forks below 9 and the same Ethereum forks
  active, they agree on supporting the DAO fork once it is active, and on the chain id once EIP158 is active.
\<close>

definition active :: "int option \<Rightarrow> int \<Rightarrow> bool" where
  "active fork b \<longleftrightarrow> (case fork of None \<Rightarrow> False | Some a \<Rightarrow> a \<le> b)"

definition same_rules :: "ChainConfig \<Rightarrow> ChainConfig \<Rightarrow> int \<Rightarrow> bool" where
  "same_rules c n b \<longleftrightarrow>
     (\<forall>i \<in> {1, 2, 3, 4, 5, 6, 7, 8}. active (HF c i) b = active (HF n i) b) \<and>
     (\<forall>fork \<in> {HomesteadBlock, DAOForkBlock, EIP150Block, EIP155Block, EIP158Block, ByzantiumBlock, ConstantinopleBlock}.
        active (fork c) b = active (fork n) b) \<and>
     (active (DAOForkBlock c) b \<longrightarrow> DAOForkSupport c = DAOForkSupport n) \<and>
     (active (EIP158Block c) b \<longrightarrow> ChainId c = ChainId n)"

definition compatible_upto :: "ChainConfig \<Rightarrow> ChainConfig \<Rightarrow> u64 \<Rightarrow> bool" where
  "compatible_upto c newcfg height \<longleftrightarrow> (\<forall>b \<le> uint height. same_rules c newcfg b)"

lemma isForked_active: "isForked s (Some b) \<longleftrightarrow> active s b"
  by (cases s) (simp_all add: active_def)

lemma active_mono: "active s b \<Longrightarrow> b \<le> h \<Longrightarrow> active s h"
  by (auto simp: active_def split: option.splits)

lemma all_active: "(\<forall>b \<le> h. active s b \<longrightarrow> P) \<longleftrightarrow> (active s h \<longrightarrow> P)"
  using active_mono by blast

lemma isForkIncompatible_iff: "isForkIncompatible s1 s2 (Some h) \<longleftrightarrow> \<not> (\<forall>b \<le> h. active s1 b = active s2 b)"
proof (cases "s1 = s2")
  case False
  have "\<exists>b \<le> h. active s1 b \<noteq> active s2 b" if "conflict_start s1 s2 = Some r" "r \<le> h" for r
    using that False by (intro exI [of _ r]) (auto simp: active_def conflict_start_def min_def split: option.splits if_splits)
  moreover have "\<exists>r. conflict_start s1 s2 = Some r \<and> r \<le> h" if "b \<le> h" "active s1 b \<noteq> active s2 b" for b
    using that by (auto simp: active_def conflict_start_def split: option.splits)
  ultimately show ?thesis
    using False by (auto simp: isForkIncompatible_start)
qed (simp add: isForkIncompatible_start)

lemma bounded_all_conj: "(\<forall>b \<le> h. P b \<and> Q b) \<longleftrightarrow> (\<forall>b \<le> h. P b) \<and> (\<forall>b \<le> (h :: int). Q b)"
  and bounded_all_ball: "(\<forall>b \<le> h. \<forall>i \<in> S. R i b) \<longleftrightarrow> (\<forall>i \<in> S. \<forall>b \<le> h. R i b)"
  by blast+

lemma compatible_upto_split:
  "compatible_upto c n height \<longleftrightarrow>
     (\<forall>i \<in> {1, 2, 3, 4, 5, 6, 7, 8}. \<forall>b \<le> uint height. active (HF c i) b = active (HF n i) b) \<and>
     (\<forall>fork \<in> {HomesteadBlock, DAOForkBlock, EIP150Block, EIP155Block, EIP158Block, ByzantiumBlock, ConstantinopleBlock}.
        \<forall>b \<le> uint height. active (fork c) b = active (fork n) b) \<and>
     (active (DAOForkBlock c) (uint height) \<longrightarrow> DAOForkSupport c = DAOForkSupport n) \<and>
     (active (EIP158Block c) (uint height) \<longrightarrow> ChainId c = ChainId n)"
  unfolding compatible_upto_def same_rules_def bounded_all_conj bounded_all_ball all_active ..

lemma compatible_upto_iff: "compatible_upto c n height \<longleftrightarrow> checkCompatible c n (Some (uint height)) = None"
proof -
  have "{1 ..< KnownHF} = {1, 2, 3, 4, 5, 6, 7, 8}"
    by auto
  then show ?thesis
    unfolding checkCompatible_None_iff isForkIncompatible_iff IsDAOFork_def IsEIP158_def isForked_active compatible_upto_split not_not
      de_Morgan_conj disj_not1
    by (simp only: ball_simps(7) ball_empty simp_thms) (intro iffI conjI; elim conjE; assumption)
qed

lemma compatible_upto_antimono: "compatible_upto c n h' \<Longrightarrow> h \<le> h' \<Longrightarrow> compatible_upto c n h"
  unfolding compatible_upto_iff by (rule checkCompatible_antimono) (simp_all add: word_le_def)

lemma incompatible_above_RewindTo:
  fixes h :: u64
  assumes "conflict_below c n (uint h) e" and "RewindTo e < h'"
  shows "\<not> compatible_upto c n h'"
proof -
  from assms(1) obtain w s1 s2 r where e: "e = newCompatError w s1 s2"
    and r: "conflict_start s1 s2 = Some r" "r \<le> uint h" and no: "checkCompatible c n (Some r) \<noteq> None"
    by (auto simp: conflict_below_def)
  have "r \<le> uint h'"
  proof (cases "r > 0")
    case True
    have "uint h < 2 ^ 64"
      using uint_bounded [of h] by simp
    with r True have u: "uint (Uint64 r) = r"
      by (intro uint_Uint64) simp_all
    have "Uint64 r - 1 < h'"
      using assms(2) r True e by (simp add: RewindTo_newCompatError)
    moreover have "uint (Uint64 r - 1) = r - 1"
      using u True by (subst uint_sub_if') (auto simp: word_le_def)
    ultimately show ?thesis
      by (simp add: word_less_def)
  next
    case False
    then show ?thesis
      using uint_ge_0 [of h'] by linarith
  qed
  then have "checkCompatible c n (Some r) = None" if "compatible_upto c n h'"
    using that checkCompatible_antimono by (simp add: compatible_upto_iff)
  with no show ?thesis
    by auto
qed

lemma compatLoop_spec:
  fixes h :: u64
  assumes "compatLoop c n (Some l) (RewindTo l) = Some e" and "conflict_below c n (uint h) l"
  shows "(\<exists>h. conflict_below c n (uint (h :: u64)) e) \<and> (compatible_upto c n (RewindTo e) \<or> RewindTo e = 0)"
  using assms
proof (induction c n "Some l" "RewindTo l" arbitrary: l h rule: compatLoop.induct)
  case (1 c n l)
  show ?case
  proof (cases "checkCompatible c n (Some (uint (RewindTo l)))")
    case None
    then have "e = l"
      using "1.prems"(1) by (simp add: compatLoop.simps)
    then show ?thesis
      using None "1.prems"(2) by (auto simp: compatible_upto_iff)
  next
    case (Some err)
    have err: "conflict_below c n (uint (RewindTo l)) err"
      using checkCompatible_conflict [OF Some] .
    show ?thesis
    proof (cases "RewindTo err = RewindTo l")
      case True
      then have "e = l"
        using "1.prems"(1) Some by (simp add: compatLoop.simps [of c n "Some l"])
      moreover have "unat (RewindTo l) \<le> unat (RewindTo l) - 1"
        using unat_RewindTo_below [OF err] True by simp
      then have "RewindTo l = 0"
        by (metis diff_le_self diff_less le_antisym less_irrefl unat_gt_0 zero_less_one)
      ultimately show ?thesis
        using "1.prems"(2) by auto
    next
      case False
      then have "compatLoop c n (Some err) (RewindTo err) = Some e"
        using "1.prems"(1) Some by (simp add: compatLoop.simps [of c n "Some l"])
      with False show ?thesis
        using "1.hyps" [OF Some _ _ err] by simp
    qed
  qed
qed

lemma CheckCompatible_None_iff: "CheckCompatible c n h = None \<longleftrightarrow> compatible_upto c n h"
proof (cases "checkCompatible c n (Some (uint h))")
  case None
  then show ?thesis
    by (simp add: CheckCompatible_def compatLoop.simps [of c n None] compatible_upto_iff)
next
  case (Some err)
  have "compatLoop c n (Some l) h' \<noteq> None" for l h'
    by (induction c n "Some l" h' arbitrary: l rule: compatLoop.induct)
      (subst compatLoop.simps, auto split: option.split)
  then show ?thesis
    using Some by (simp add: CheckCompatible_def compatLoop.simps [of c n None] compatible_upto_iff)
qed

lemma CheckCompatible_rewind:
  assumes "CheckCompatible c n h = Some e"
  shows "(RewindTo e < h' \<longrightarrow> \<not> compatible_upto c n h') \<and>
     (h' \<le> RewindTo e \<and> 0 < h' \<longrightarrow> compatible_upto c n h')"
proof -
  obtain err where err: "checkCompatible c n (Some (uint h)) = Some err"
    using assms by (auto simp: CheckCompatible_def compatLoop.simps [of c n None] split: option.splits)
  then have "compatLoop c n (Some err) (RewindTo err) = Some e"
    using assms by (simp add: CheckCompatible_def compatLoop.simps [of c n None])
  then obtain k :: u64 where k: "conflict_below c n (uint k) e"
    and end_cond: "compatible_upto c n (RewindTo e) \<or> RewindTo e = 0"
    using compatLoop_spec checkCompatible_conflict [OF err] by blast
  show ?thesis
    using incompatible_above_RewindTo [OF k] end_cond compatible_upto_antimono
    by (metis word_le_0_iff word_neq_0_conv)
qed

section \<open>Properties\<close>

text \<open>
  C15: \<open>CheckCompatible\<close> returns no error exactly when the stored chain is compatible with
  the new configuration up to its height: when at every height up to it both configurations have the same forks active, leaving aside hard fork 9,
  which the code does not compare, and agree on the DAO support and the chain id where they matter.
  Otherwise the height \<open>RewindTo\<close> of its error is the highest
  compatible one: every block height above zero is compatible if and only if it does not
  exceed \<open>RewindTo\<close>. The loop over ever lower heads terminates.
\<close>

theorem CheckCompatible_finds_highest_compatible_height:
  "(CheckCompatible c n h = None \<longleftrightarrow> compatible_upto c n h) \<and>
   (CheckCompatible c n h = Some e \<longrightarrow> 0 < h' \<longrightarrow> (compatible_upto c n h' \<longleftrightarrow> h' \<le> RewindTo e))"
  using CheckCompatible_None_iff CheckCompatible_rewind [of c n h e h'] by (auto simp: linorder_not_less [symmetric])

definition delayed_config :: ChainConfig where
  "delayed_config = MainnetChainConfig\<lparr>HF := (HF MainnetChainConfig)(5 := Some 30000)\<rparr>"

theorem CheckCompatible_finds_highest_compatible_height_witness:
  "\<exists>e. CheckCompatible MainnetChainConfig delayed_config 50000 = Some e \<and> RewindTo e = 22799 \<and>
    compatible_upto MainnetChainConfig delayed_config 22799 \<and>
    \<not> compatible_upto MainnetChainConfig delayed_config 22800"
proof -
  have "map_option RewindTo (CheckCompatible MainnetChainConfig delayed_config 50000) = Some 22799"
    by code_simp
  then obtain e where "CheckCompatible MainnetChainConfig delayed_config 50000 = Some e" "RewindTo e = 22799"
    by auto
  then show ?thesis
    using CheckCompatible_finds_highest_compatible_height [of MainnetChainConfig delayed_config 50000 e 22799]
      CheckCompatible_finds_highest_compatible_height [of MainnetChainConfig delayed_config 50000 e 22800] by auto
qed

text \<open>
  C23: \<open>UseHF\<close> selects the highest activated hard fork below number 9: what it returns is
  activated unless it is 0, no activated fork below 9 is higher, and hard fork 9 itself is
  never selected, although it is a known fork and the second test network schedules it.
\<close>

theorem UseHF_highest_below_9:
  "UseHF c height < 9 \<and>
   (UseHF c height = 0 \<or> IsHF c (UseHF c height) height) \<and>
   (\<forall>hf. IsHF c hf height \<and> hf < 9 \<longrightarrow> hf \<le> UseHF c height)"
  using UseHF_bound UseHF_active UseHF_highest by blast

theorem UseHF_highest_below_9_witness:
  "IsHF Testnet2ChainConfig 9 (Some 100) \<and> UseHF Testnet2ChainConfig (Some 100) = 8 \<and>
   UseHF Testnet2ChainConfig (Some 100) < 9"
proof -
  have "IsHF Testnet2ChainConfig 9 (Some 100)" "UseHF Testnet2ChainConfig (Some 100) = 8"
    by code_simp+
  then show ?thesis
    using UseHF_highest_below_9 [of Testnet2ChainConfig "Some 100"] by blast
qed

end
