(* ===== verification/RLP_Encode.thy ===== *)
theory RLP_Encode
  imports Go_Base
begin

text \<open>
  The RLP encoder (\<open>rlp/encode.go\<close>).

  A Go value is seen through the writer that \<open>makeWriter\<close> selects for its type: \<open>rlpval\<close> has
  one constructor per writer. \<open>encbuf\<close> is the buffer of the two-pass encoder: string data and
  list headers are collected apart, a list header knows the offset it belongs to, and
  \<open>toBytes\<close> merges them. \<open>list\<close> returns a pointer to the header it appends, here its index.

  \<open>rlp_encode\<close> is the recursive specification of the format; the refinement lemma shows
  that a run of the writer followed by \<open>toBytes\<close> produces it.
\<close>

section \<open>Integers and headers\<close>

definition putint :: "u64 \<Rightarrow> bytes" where
  "putint i =
     (if i < 2 ^ 8 then [ucast i]
      else if i < 2 ^ 16 then [ucast (drop_bit 8 i), ucast i]
      else if i < 2 ^ 24 then [ucast (drop_bit 16 i), ucast (drop_bit 8 i), ucast i]
      else if i < 2 ^ 32 then
        [ucast (drop_bit 24 i), ucast (drop_bit 16 i), ucast (drop_bit 8 i), ucast i]
      else if i < 2 ^ 40 then
        [ucast (drop_bit 32 i), ucast (drop_bit 24 i), ucast (drop_bit 16 i), ucast (drop_bit 8 i), ucast i]
      else if i < 2 ^ 48 then
        [ucast (drop_bit 40 i), ucast (drop_bit 32 i), ucast (drop_bit 24 i), ucast (drop_bit 16 i),
         ucast (drop_bit 8 i), ucast i]
      else if i < 2 ^ 56 then
        [ucast (drop_bit 48 i), ucast (drop_bit 40 i), ucast (drop_bit 32 i), ucast (drop_bit 24 i),
         ucast (drop_bit 16 i), ucast (drop_bit 8 i), ucast i]
      else
        [ucast (drop_bit 56 i), ucast (drop_bit 48 i), ucast (drop_bit 40 i), ucast (drop_bit 32 i),
         ucast (drop_bit 24 i), ucast (drop_bit 16 i), ucast (drop_bit 8 i), ucast i])"

function intsize :: "u64 \<Rightarrow> nat" where
  "intsize i = (let i = drop_bit 8 i in if i = 0 then 1 else Suc (intsize i))"
  by auto

lemma unat_drop_bit_8_less: "drop_bit 8 i \<noteq> 0 \<Longrightarrow> unat (drop_bit 8 (i :: u64)) < unat i"
proof -
  assume nz: "drop_bit 8 i \<noteq> 0"
  then have "unat i \<noteq> 0"
    by (metis unat_eq_zero drop_bit_of_0)
  then show ?thesis
    by (simp add: drop_bit_eq_div unat_div)
qed

termination intsize
  by (relation "measure unat") (simp_all add: unat_drop_bit_8_less)

declare intsize.simps [simp del]

definition headsize :: "u64 \<Rightarrow> nat" where
  "headsize sz = (if sz < 56 then 1 else 1 + intsize sz)"

definition puthead :: "byte \<Rightarrow> byte \<Rightarrow> u64 \<Rightarrow> bytes" where
  "puthead smalltag largetag sz =
     (if sz < 56 then [smalltag + ucast sz]
      else (largetag + of_nat (length (putint sz))) # putint sz)"

definition ListSize :: "u64 \<Rightarrow> u64" where
  "ListSize contentSize = of_nat (headsize contentSize) + contentSize"

section \<open>The encoding buffer\<close>

record listhead =
  lh_offset :: nat
  lh_size :: nat

record encbuf =
  enc_str :: bytes
  enc_lheads :: "listhead list"
  enc_lhsize :: nat

definition encbuf_reset :: encbuf where
  "encbuf_reset = \<lparr>enc_str = [], enc_lheads = [], enc_lhsize = 0\<rparr>"

definition encbuf_Write :: "bytes \<Rightarrow> encbuf \<Rightarrow> encbuf" where
  "encbuf_Write b w = w\<lparr>enc_str := enc_str w @ b\<rparr>"

definition encodeStringHeader :: "nat \<Rightarrow> encbuf \<Rightarrow> encbuf" where
  "encodeStringHeader sz w =
     (if sz < 56 then encbuf_Write [0x80 + of_nat sz] w
      else encbuf_Write ((0xB7 + of_nat (length (putint (of_nat sz)))) # putint (of_nat sz)) w)"

definition encodeString :: "bytes \<Rightarrow> encbuf \<Rightarrow> encbuf" where
  "encodeString b w =
     (if length b = 1 \<and> hd b \<le> 0x7F then encbuf_Write [hd b] w
      else encbuf_Write b (encodeStringHeader (length b) w))"

definition encbuf_size :: "encbuf \<Rightarrow> nat" where
  "encbuf_size w = length (enc_str w) + enc_lhsize w"

definition encbuf_list :: "encbuf \<Rightarrow> encbuf \<times> nat" where
  "encbuf_list w =
     (w\<lparr>enc_lheads := enc_lheads w @ [\<lparr>lh_offset = length (enc_str w), lh_size = enc_lhsize w\<rparr>]\<rparr>,
      length (enc_lheads w))"

definition encbuf_listEnd :: "nat \<Rightarrow> encbuf \<Rightarrow> encbuf" where
  "encbuf_listEnd lh w =
     (let h = enc_lheads w ! lh;
          sz = encbuf_size w - lh_offset h - lh_size h
      in w\<lparr>enc_lheads := (enc_lheads w)[lh := h\<lparr>lh_size := sz\<rparr>],
           enc_lhsize := enc_lhsize w + (if sz < 56 then 1 else 1 + intsize (of_nat sz))\<rparr>)"

definition listhead_encode :: "listhead \<Rightarrow> bytes" where
  "listhead_encode h = puthead 0xC0 0xF7 (of_nat (lh_size h))"

text \<open>
  \<open>toBytes\<close> copies into a buffer of \<open>size()\<close> bytes: the loop carries the output, the
  position in it and the position in the string data.
\<close>

primrec toBytes_loop :: "bytes \<Rightarrow> listhead list \<Rightarrow> bytes \<Rightarrow> nat \<Rightarrow> nat \<Rightarrow> bytes go" where
  "toBytes_loop str [] out pos strpos =
     (if pos \<le> length out \<and> strpos \<le> length str then Ret (go_copy out pos (drop strpos str)) else Panic)"
| "toBytes_loop str (head # heads) out pos strpos =
     (if pos \<le> length out \<and> strpos \<le> lh_offset head \<and> lh_offset head \<le> length str then
        (let src = take (lh_offset head - strpos) (drop strpos str);
             n = min (length out - pos) (length src);
             out = go_copy out pos src;
             pos = pos + n;
             enc = listhead_encode head
         in if pos + length enc \<le> length out
            then toBytes_loop str heads (go_copy out pos enc) (pos + length enc) (strpos + n)
            else Panic)
      else Panic)"

definition toBytes :: "encbuf \<Rightarrow> bytes go" where
  "toBytes w = toBytes_loop (enc_str w) (enc_lheads w) (replicate (encbuf_size w) 0) 0 0"

text \<open>\<open>toWriter\<close> with the bytes written so far as its output, on a writer that does not fail.\<close>

primrec toWriter_loop :: "bytes \<Rightarrow> listhead list \<Rightarrow> bytes \<Rightarrow> nat \<Rightarrow> bytes" where
  "toWriter_loop str [] out strpos = (if strpos < length str then out @ drop strpos str else out)"
| "toWriter_loop str (head # heads) out strpos =
     (if lh_offset head > strpos
      then toWriter_loop str heads
             (out @ take (lh_offset head - strpos) (drop strpos str) @ listhead_encode head) (lh_offset head)
      else toWriter_loop str heads (out @ listhead_encode head) strpos)"

definition toWriter :: "encbuf \<Rightarrow> bytes" where
  "toWriter w = toWriter_loop (enc_str w) (enc_lheads w) [] 0"

section \<open>Writers\<close>

datatype rlpval =
    VRaw bytes
  | VUint u64
  | VBool bool
  | VBigInt "int option"
  | VBytes bytes
  | VNilInterface
  | VNilStruct
  | VSlice bool "rlpval list"
  | VStruct "rlpval list"

datatype rlp_error = ErrNegativeBigInt

definition writeUint :: "u64 \<Rightarrow> encbuf \<Rightarrow> encbuf" where
  "writeUint i w =
     (if i = 0 then encbuf_Write [0x80] w
      else if i < 128 then encbuf_Write [ucast i] w
      else encbuf_Write ((0x80 + of_nat (length (putint i))) # putint i) w)"

definition writeBool :: "bool \<Rightarrow> encbuf \<Rightarrow> encbuf" where
  "writeBool b w = (if b then encbuf_Write [0x01] w else encbuf_Write [0x80] w)"

definition writeBigInt :: "int \<Rightarrow> encbuf \<Rightarrow> rlp_error option \<times> encbuf" where
  "writeBigInt i w =
     (if i < 0 then (Some ErrNegativeBigInt, w)
      else if i = 0 then (None, encbuf_Write [0x80] w)
      else (None, encodeString (big_Bytes i) w))"

definition writeBigIntPtr :: "int option \<Rightarrow> encbuf \<Rightarrow> rlp_error option \<times> encbuf" where
  "writeBigIntPtr p w =
     (case p of None \<Rightarrow> (None, encbuf_Write [0x80] w) | Some i \<Rightarrow> writeBigInt i w)"

text \<open>
  A slice closes its list also after an error (\<open>defer\<close>), a struct does not; a slice with the
  \<open>tail\<close> tag writes its elements into the enclosing list.
\<close>

fun rlp_writer :: "rlpval \<Rightarrow> encbuf \<Rightarrow> rlp_error option \<times> encbuf"
  and rlp_writers :: "rlpval list \<Rightarrow> encbuf \<Rightarrow> rlp_error option \<times> encbuf" where
  "rlp_writer (VRaw b) w = (None, encbuf_Write b w)"
| "rlp_writer (VUint i) w = (None, writeUint i w)"
| "rlp_writer (VBool b) w = (None, writeBool b w)"
| "rlp_writer (VBigInt p) w = writeBigIntPtr p w"
| "rlp_writer (VBytes b) w = (None, encodeString b w)"
| "rlp_writer VNilInterface w = (None, encbuf_Write [0xC0] w)"
| "rlp_writer VNilStruct w = (let (w, lh) = encbuf_list w in (None, encbuf_listEnd lh w))"
| "rlp_writer (VSlice tail vs) w =
     (if tail then rlp_writers vs w
      else let (w, lh) = encbuf_list w; (e, w) = rlp_writers vs w in (e, encbuf_listEnd lh w))"
| "rlp_writer (VStruct vs) w =
     (let (w, lh) = encbuf_list w; (e, w) = rlp_writers vs w
      in case e of Some e \<Rightarrow> (Some e, w) | None \<Rightarrow> (None, encbuf_listEnd lh w))"
| "rlp_writers [] w = (None, w)"
| "rlp_writers (v # vs) w =
     (let (e, w) = rlp_writer v w in case e of Some e \<Rightarrow> (Some e, w) | None \<Rightarrow> rlp_writers vs w)"

definition EncodeToBytes :: "rlpval \<Rightarrow> (rlp_error + bytes) go" where
  "EncodeToBytes v =
     (let (e, w) = rlp_writer v encbuf_reset
      in case e of Some e \<Rightarrow> Ret (Inl e) | None \<Rightarrow> go_bind (toBytes w) (\<lambda>b. Ret (Inr b)))"

definition Encode :: "rlpval \<Rightarrow> rlp_error + bytes" where
  "Encode v =
     (let (e, w) = rlp_writer v encbuf_reset
      in case e of Some e \<Rightarrow> Inl e | None \<Rightarrow> Inr (toWriter w))"

section \<open>Reading the encoding piecewise\<close>

record encReader =
  er_buf :: "encbuf option"
  er_lhpos :: nat
  er_strpos :: nat
  er_piece :: "bytes option"

definition encReader_next :: "encReader \<Rightarrow> bytes option \<times> encReader" where
  "encReader_next r =
     (case er_buf r of None \<Rightarrow> (None, r)
      | Some buf \<Rightarrow>
        if er_piece r \<noteq> None then (er_piece r, r)
        else if er_lhpos r < length (enc_lheads buf) then
          (let head = enc_lheads buf ! er_lhpos r; sizebefore = lh_offset head - er_strpos r
           in if sizebefore > 0
              then (Some (take sizebefore (drop (er_strpos r) (enc_str buf))), r\<lparr>er_strpos := er_strpos r + sizebefore\<rparr>)
              else (Some (listhead_encode head), r\<lparr>er_lhpos := er_lhpos r + 1\<rparr>))
        else if er_strpos r < length (enc_str buf)
        then (Some (drop (er_strpos r) (enc_str buf)), r\<lparr>er_strpos := length (enc_str buf)\<rparr>)
        else (None, r))"

definition er_measure :: "encReader \<Rightarrow> nat" where
  "er_measure r =
     (case er_buf r of None \<Rightarrow> 0
      | Some buf \<Rightarrow> 2 * (length (enc_lheads buf) - er_lhpos r) +
          2 * (Max (insert (length (enc_str buf)) (lh_offset ` set (enc_lheads buf))) - er_strpos r) +
          (if er_piece r = None then 0 else 1))"

lemma er_measure_next:
  assumes "encReader_next r = (Some p, r')"
  shows "er_measure (r'\<lparr>er_piece := None\<rparr>) < er_measure r"
proof -
  obtain buf where buf: "er_buf r = Some buf"
    using assms by (cases "er_buf r") (auto simp: encReader_next_def)
  let ?S = "insert (length (enc_str buf)) (lh_offset ` set (enc_lheads buf))"
  obtain M where M: "Max ?S = M"
    by simp
  have "lh_offset (enc_lheads buf ! er_lhpos r) \<le> M" if "er_lhpos r < length (enc_lheads buf)"
    using that unfolding M [symmetric] by (intro Max_ge) auto
  moreover have "length (enc_str buf) \<le> M"
    unfolding M [symmetric] by (intro Max_ge) auto
  ultimately show ?thesis
    using assms buf by (auto simp: encReader_next_def er_measure_def Let_def M split: if_splits)
qed

text \<open>
  \<open>Read\<close> into a buffer with room for \<open>n\<close> more bytes, \<open>acc\<close> being those read so far; the
  flag tells \<open>io.EOF\<close>.
\<close>

function encReader_Read :: "nat \<Rightarrow> bytes \<Rightarrow> encReader \<Rightarrow> bytes \<times> bool \<times> encReader" where
  "encReader_Read n acc r =
     (case encReader_next r of
        (None, r) \<Rightarrow> (acc, True, r\<lparr>er_buf := None, er_piece := None\<rparr>)
      | (Some p, r) \<Rightarrow>
          let nn = min n (length p)
          in if nn < length p then (acc @ take nn p, False, r\<lparr>er_piece := Some (drop nn p)\<rparr>)
             else encReader_Read (n - nn) (acc @ take nn p) (r\<lparr>er_piece := None\<rparr>))"
  by auto

termination encReader_Read
  by (relation "measure (\<lambda>(n, acc, r). er_measure r)") (auto dest!: sym [of _ "encReader_next _"] er_measure_next)

declare encReader_Read.simps [simp del]

definition EncodeToReader :: "rlpval \<Rightarrow> rlp_error + nat \<times> encReader" where
  "EncodeToReader v =
     (let (e, w) = rlp_writer v encbuf_reset
      in case e of Some e \<Rightarrow> Inl e
         | None \<Rightarrow> Inr (encbuf_size w, \<lparr>er_buf = Some w, er_lhpos = 0, er_strpos = 0, er_piece = None\<rparr>))"

section \<open>The format\<close>

definition rlp_string :: "bytes \<Rightarrow> bytes" where
  "rlp_string b =
     (if length b = 1 \<and> hd b \<le> 0x7F then b else puthead 0x80 0xB7 (of_nat (length b)) @ b)"

definition rlp_list :: "bytes \<Rightarrow> bytes" where
  "rlp_list content = puthead 0xC0 0xF7 (of_nat (length content)) @ content"

fun rlp_encode :: "rlpval \<Rightarrow> bytes" where
  "rlp_encode (VRaw b) = b"
| "rlp_encode (VUint i) = rlp_string (big_Bytes (uint i))"
| "rlp_encode (VBool b) = (if b then [1] else [0x80])"
| "rlp_encode (VBigInt p) = (case p of None \<Rightarrow> [0x80] | Some i \<Rightarrow> rlp_string (big_Bytes i))"
| "rlp_encode (VBytes b) = rlp_string b"
| "rlp_encode VNilInterface = [0xC0]"
| "rlp_encode VNilStruct = [0xC0]"
| "rlp_encode (VSlice tail vs) =
     (if tail then concat (map rlp_encode vs) else rlp_list (concat (map rlp_encode vs)))"
| "rlp_encode (VStruct vs) = rlp_list (concat (map rlp_encode vs))"

text \<open>The values \<open>Encode\<close> accepts: no negative big integer.\<close>

fun rlp_encodable :: "rlpval \<Rightarrow> bool" where
  "rlp_encodable (VBigInt p) = (case p of None \<Rightarrow> True | Some i \<Rightarrow> 0 \<le> i)"
| "rlp_encodable (VSlice tail vs) = list_all rlp_encodable vs"
| "rlp_encodable (VStruct vs) = list_all rlp_encodable vs"
| "rlp_encodable _ = True"

section \<open>Integers\<close>

lemma intsize_pos [simp]: "0 < intsize i"
  by (simp add: intsize.simps [of i] Let_def)

lemma intsize_le_iff: "0 < k \<Longrightarrow> intsize i \<le> k \<longleftrightarrow> uint i < 256 ^ k"
proof (induction i arbitrary: k rule: intsize.induct)
  case (1 i)
  obtain j where k: "k = Suc j"
    using "1.prems" by (cases k) auto
  have d: "uint (drop_bit 8 i) = uint i div 256"
    by (simp add: drop_bit_eq_div uint_div)
  have step: "uint i < 256 ^ Suc j \<longleftrightarrow> uint i div 256 < 256 ^ j" for j
  proof -
    have "x < 256 * y \<longleftrightarrow> x div 256 < y" for x y :: int
      by (rule iffI) linarith+
    then show ?thesis
      by simp
  qed
  show ?case
  proof (cases "drop_bit 8 i = 0")
    case True
    then have "uint i div 256 = 0"
      using d by simp
    then show ?thesis
      using True step [of j] by (simp add: intsize.simps [of i] k)
  next
    case False
    then have nz: "uint i div 256 \<noteq> 0"
      using d by (metis uint_0_iff)
    have "intsize (drop_bit 8 i) \<le> j \<longleftrightarrow> uint i div 256 < 256 ^ j"
    proof (cases j)
      case 0
      have "0 < uint i div 256"
        using nz d uint_ge_0 [of "drop_bit 8 i"] by linarith
      then show ?thesis using 0 intsize_pos [of "drop_bit 8 i"] by simp
    next
      case (Suc j')
      then show ?thesis using "1.IH" [OF refl False, of j] d by simp
    qed
    then show ?thesis
      using False step [of j] by (simp add: intsize.simps [of i] Let_def k)
  qed
qed

lemma intsize_eq: "i \<noteq> 0 \<Longrightarrow> intsize i = (BitLen (uint i) + 7) div 8"
proof -
  assume "i \<noteq> 0"
  then have "0 < BitLen (uint i)"
    by (metis BitLen_eq_0 gr0I uint_0_iff)
  have "intsize i \<le> k \<longleftrightarrow> (BitLen (uint i) + 7) div 8 \<le> k" if "0 < k" for k
  proof -
    have "(BitLen (uint i) + 7) div 8 \<le> k \<longleftrightarrow> BitLen (uint i) \<le> 8 * k"
      by auto
    also have "\<dots> \<longleftrightarrow> uint i < 256 ^ k"
      by (simp add: BitLen_le_iff power_mult)
    finally show ?thesis
      using intsize_le_iff [OF that] by simp
  qed
  moreover have "0 < (BitLen (uint i) + 7) div 8"
    using \<open>0 < BitLen (uint i)\<close> by simp
  ultimately show ?thesis
    by (metis dual_order.refl intsize_pos le_antisym)
qed

lemma intsize_le_8: "intsize i \<le> 8"
  using uint_bounded [of i] by (simp add: intsize_le_iff)

lemma ucast_drop_bit_byte: "(ucast (drop_bit n (i :: u64)) :: byte) = word_of_int (uint i div 2 ^ n)"
proof -
  have "uint (drop_bit n i) = uint i div 2 ^ n"
    using take_bit_int_eq_self [of "uint i" 64] uint_bounded [of i]
    by (simp only: unsigned_drop_bit_eq) (simp add: drop_bit_eq_div)
  then show ?thesis
    by (metis ucast_eq)
qed

lemma intsize_eqI:
  assumes "0 < k" and "\<not> uint i < 256 ^ k" and "uint i < 256 ^ Suc k"
  shows "intsize i = Suc k"
  using assms intsize_le_iff [of k i] intsize_le_iff [of "Suc k" i] by simp

lemma putint_eq: "putint i = be_bytes (intsize i) (uint i)"
proof -
  have be: "be_bytes 1 x = [word_of_int x]"
    "be_bytes 2 x = [word_of_int (x div 256), word_of_int x]"
    "be_bytes 3 x = [word_of_int (x div 65536), word_of_int (x div 256), word_of_int x]"
    "be_bytes 4 x = [word_of_int (x div 16777216), word_of_int (x div 65536), word_of_int (x div 256), word_of_int x]"
    "be_bytes 5 x = word_of_int (x div 4294967296) # be_bytes 4 x"
    "be_bytes 6 x = word_of_int (x div 1099511627776) # be_bytes 5 x"
    "be_bytes 7 x = word_of_int (x div 281474976710656) # be_bytes 6 x"
    "be_bytes 8 x = word_of_int (x div 72057594037927936) # be_bytes 7 x" for x
    by (simp_all add: numeral_nat zdiv_zmult2_eq [symmetric])
  have byte: "(word_of_int (uint i div 256) :: byte) = ucast (drop_bit 8 i)"
    "(word_of_int (uint i div 65536) :: byte) = ucast (drop_bit 16 i)"
    "(word_of_int (uint i div 16777216) :: byte) = ucast (drop_bit 24 i)"
    "(word_of_int (uint i div 4294967296) :: byte) = ucast (drop_bit 32 i)"
    "(word_of_int (uint i div 1099511627776) :: byte) = ucast (drop_bit 40 i)"
    "(word_of_int (uint i div 281474976710656) :: byte) = ucast (drop_bit 48 i)"
    "(word_of_int (uint i div 72057594037927936) :: byte) = ucast (drop_bit 56 i)"
    by (simp_all only: ucast_drop_bit_byte, simp_all)
  consider (1) "uint i < 256"
    | (2) "256 \<le> uint i" "uint i < 65536"
    | (3) "65536 \<le> uint i" "uint i < 16777216"
    | (4) "16777216 \<le> uint i" "uint i < 4294967296"
    | (5) "4294967296 \<le> uint i" "uint i < 1099511627776"
    | (6) "1099511627776 \<le> uint i" "uint i < 281474976710656"
    | (7) "281474976710656 \<le> uint i" "uint i < 72057594037927936"
    | (8) "72057594037927936 \<le> uint i"
    by linarith
  then show ?thesis
  proof cases
    case 1
    then have "intsize i = 1"
      using intsize_le_iff [of 1 i] intsize_pos [of i] by (simp del: intsize_pos)
    then show ?thesis
      using 1 by (simp add: putint_def word_less_def)
  next
    case 2
    then have "intsize i = 2"
      using intsize_eqI [of 1 i]  by (simp add: numeral_nat)
    then show ?thesis
      using 2 by (simp add: putint_def word_less_def byte be)
  next
    case 3
    then have "intsize i = 3"
      using intsize_eqI [of 2 i]  by (simp add: numeral_nat)
    then show ?thesis
      using 3 by (simp add: putint_def word_less_def byte be)
  next
    case 4
    then have "intsize i = 4"
      using intsize_eqI [of 3 i]  by (simp add: numeral_nat)
    then show ?thesis
      using 4 by (simp add: putint_def word_less_def byte be)
  next
    case 5
    then have "intsize i = 5"
      using intsize_eqI [of 4 i]  by (simp add: numeral_nat)
    then show ?thesis
      using 5 by (simp add: putint_def word_less_def byte be)
  next
    case 6
    then have "intsize i = 6"
      using intsize_eqI [of 5 i]  by (simp add: numeral_nat)
    then show ?thesis
      using 6 by (simp add: putint_def word_less_def byte be)
  next
    case 7
    then have "intsize i = 7"
      using intsize_eqI [of 6 i]  by (simp add: numeral_nat)
    then show ?thesis
      using 7 by (simp add: putint_def word_less_def byte be)
  next
    case 8
    then have "intsize i = 8"
      using intsize_eqI [of 7 i] uint_bounded [of i] by (simp add: numeral_nat)
    then show ?thesis
      using 8 by (simp add: putint_def word_less_def byte be)
  qed
qed

lemma length_putint [simp]: "length (putint i) = intsize i"
  by (simp add: putint_eq)

lemma putint_big_Bytes: "i \<noteq> 0 \<Longrightarrow> putint i = big_Bytes (uint i)"
  by (simp add: putint_eq big_Bytes_def intsize_eq)

lemma SetBytes_putint [simp]: "SetBytes (putint i) = uint i"
  using putint_big_Bytes [of i] by (cases "i = 0") (simp_all add: putint_def SetBytes_Cons)

lemma length_puthead [simp]: "length (puthead a b i) = headsize i"
  by (simp add: puthead_def headsize_def)

lemma putint_less_256: "i < 256 \<Longrightarrow> putint i = [ucast i]"
  by (simp add: putint_def)

lemma intsize_eq_1_iff: "intsize i = 1 \<longleftrightarrow> i < 256"
  using intsize_le_iff [of 1 i] intsize_pos [of i] by (auto simp: word_less_def simp del: intsize_pos)

lemma of_nat_less_56: "n < 2 ^ 64 \<Longrightarrow> (of_nat n :: u64) < 56 \<longleftrightarrow> n < 56"
  by (simp add: word_less_nat_alt unat_of_nat)

lemma writeUint_eq: "writeUint i w = encbuf_Write (rlp_string (big_Bytes (uint i))) w"
proof (cases "i = 0")
  case True
  then show ?thesis
    by (simp add: writeUint_def rlp_string_def puthead_def big_Bytes_def)
next
  case nz: False
  have small: "of_nat (intsize i) < (56 :: u64)" and cast: "ucast (of_nat (intsize i) :: u64) = (of_nat (intsize i) :: byte)"
    using intsize_le_8 [of i] by (simp_all add: of_nat_less_56 unsigned_of_nat word_unat_eq_iff unat_of_nat)
  show ?thesis
  proof (cases "i < 256")
    case True
    then have b: "big_Bytes (uint i) = [ucast i]" and "uint i < 256"
      using nz putint_big_Bytes [of i] by (simp_all add: putint_less_256 word_less_def)
    then have "(ucast i :: byte) \<le> 0x7F \<longleftrightarrow> i < 128"
      by (simp add: word_le_def word_less_def unsigned_ucast_eq take_bit_eq_mod) linarith
    then show ?thesis
      using nz True b by (simp add: writeUint_def rlp_string_def puthead_def putint_less_256 intsize_eq_1_iff)
  next
    case False
    then have "intsize i \<noteq> 1" and "\<not> i < 128"
      using intsize_eq_1_iff [of i] by (auto intro: less_trans)
    then show ?thesis
      using nz small cast putint_big_Bytes [OF nz, symmetric]
      by (simp add: writeUint_def rlp_string_def puthead_def)
  qed
qed

lemma encodeString_eq:
  assumes "length b < 2 ^ 64"
  shows "encodeString b w = encbuf_Write (rlp_string b) w"
proof -
  have "ucast (of_nat (length b) :: u64) = (of_nat (length b) :: byte)" if "length b < 56"
    using that by (simp add: unsigned_of_nat word_unat_eq_iff unat_of_nat)
  moreover have "length b = 1 \<Longrightarrow> b = [hd b]"
    by (cases b) auto
  ultimately show ?thesis
    using of_nat_less_56 [OF assms]
    by (auto simp: encodeString_def rlp_string_def encodeStringHeader_def puthead_def encbuf_Write_def)
qed

section \<open>Refinement of the format by the two-pass encoder\<close>

text \<open>The string data from position \<open>pos\<close> on, with the headers put at their offsets.\<close>

primrec render :: "nat \<Rightarrow> bytes \<Rightarrow> listhead list \<Rightarrow> bytes" where
  "render pos str [] = str"
| "render pos str (h # hs) =
     take (lh_offset h - pos) str @ listhead_encode h @ render (lh_offset h) (drop (lh_offset h - pos) str) hs"

primrec offsets_ok :: "nat \<Rightarrow> listhead list \<Rightarrow> nat \<Rightarrow> bool" where
  "offsets_ok lo [] hi \<longleftrightarrow> lo \<le> hi"
| "offsets_ok lo (h # hs) hi \<longleftrightarrow> lo \<le> lh_offset h \<and> offsets_ok (lh_offset h) hs hi"

lemma offsets_ok_le: "offsets_ok lo hs hi \<Longrightarrow> lo \<le> hi"
  by (induction hs arbitrary: lo) force+

lemma offsets_ok_append:
  "offsets_ok lo hs mid \<Longrightarrow> offsets_ok mid hs' hi \<Longrightarrow> offsets_ok lo (hs @ hs') hi"
proof (induction hs arbitrary: lo)
  case Nil
  then show ?case by (cases hs') auto
qed simp

lemma render_Nil_append:
  assumes "offsets_ok (pos + length s) hs hi"
  shows "render pos (s @ t) hs = s @ render (pos + length s) t hs"
proof (cases hs)
  case (Cons h hs')
  then have "pos + length s \<le> lh_offset h"
    using assms by simp
  then obtain k where "lh_offset h = pos + length s + k"
    using le_Suc_ex by blast
  then show ?thesis
    using Cons by simp
qed simp

lemma render_append:
  assumes "offsets_ok pos hs (pos + length s)" and "offsets_ok (pos + length s) hs' hi"
  shows "render pos (s @ t) (hs @ hs') = render pos s hs @ render (pos + length s) t hs'"
  using assms
proof (induction hs arbitrary: pos s)
  case Nil
  then show ?case by (simp add: render_Nil_append)
next
  case (Cons h hs)
  let ?d = "lh_offset h - pos"
  have le: "pos \<le> lh_offset h" and "lh_offset h \<le> pos + length s"
    using Cons.prems(1) offsets_ok_le by auto
  then have "lh_offset h + length (drop ?d s) = pos + length s" and "?d \<le> length s"
    by auto
  then show ?case
    using Cons.IH [of "lh_offset h" "drop ?d s"] Cons.prems by (simp add: add.commute)
qed

text \<open>\<open>writes w w' out\<close>: the run from \<open>w\<close> to \<open>w'\<close> appended the encoding \<open>out\<close>.\<close>

definition writes :: "encbuf \<Rightarrow> encbuf \<Rightarrow> bytes \<Rightarrow> bool" where
  "writes w w' out \<longleftrightarrow>
     (\<exists>s hs. enc_str w' = enc_str w @ s \<and> enc_lheads w' = enc_lheads w @ hs \<and>
        offsets_ok (length (enc_str w)) hs (length (enc_str w')) \<and>
        render (length (enc_str w)) s hs = out \<and>
        enc_lhsize w \<le> enc_lhsize w' \<and> length out = length s + (enc_lhsize w' - enc_lhsize w))"

lemma writes_Write [intro, simp]: "writes w (encbuf_Write b w) b"
  by (auto simp: writes_def encbuf_Write_def)

lemma writes_refl [intro, simp]: "writes w w []"
  by (auto simp: writes_def)

lemma writes_trans:
  assumes "writes w w1 o1" and "writes w1 w2 o2"
  shows "writes w w2 (o1 @ o2)"
proof -
  obtain s1 h1 where 1: "enc_str w1 = enc_str w @ s1" "enc_lheads w1 = enc_lheads w @ h1"
      "offsets_ok (length (enc_str w)) h1 (length (enc_str w1))" "render (length (enc_str w)) s1 h1 = o1"
      "enc_lhsize w \<le> enc_lhsize w1" "length o1 = length s1 + (enc_lhsize w1 - enc_lhsize w)"
    using assms(1) unfolding writes_def by blast
  obtain s2 h2 where 2: "enc_str w2 = enc_str w1 @ s2" "enc_lheads w2 = enc_lheads w1 @ h2"
      "offsets_ok (length (enc_str w1)) h2 (length (enc_str w2))" "render (length (enc_str w1)) s2 h2 = o2"
      "enc_lhsize w1 \<le> enc_lhsize w2" "length o2 = length s2 + (enc_lhsize w2 - enc_lhsize w1)"
    using assms(2) unfolding writes_def by blast
  have "render (length (enc_str w)) (s1 @ s2) (h1 @ h2) = o1 @ o2"
    using render_append [of "length (enc_str w)" h1 s1 h2 "length (enc_str w2)" s2] 1 2 by simp
  then show ?thesis
    unfolding writes_def using 1 2 offsets_ok_append [OF 1(3) 2(3)]
    by (intro exI [of _ "s1 @ s2"] exI [of _ "h1 @ h2"]) simp
qed

lemma headsize_of_nat: "n < 2 ^ 64 \<Longrightarrow> headsize (of_nat n) = (if n < 56 then 1 else 1 + intsize (of_nat n))"
  by (simp add: headsize_def of_nat_less_56)

lemma writes_list:
  assumes "encbuf_list w = (w1, lh)" and "writes w1 w2 out" and "length out < 2 ^ 64"
  shows "writes w (encbuf_listEnd lh w2) (rlp_list out)"
proof -
  let ?h = "\<lparr>lh_offset = length (enc_str w), lh_size = enc_lhsize w\<rparr>"
  let ?p = "length (enc_str w)"
  have w1: "enc_str w1 = enc_str w" "enc_lheads w1 = enc_lheads w @ [?h]" "enc_lhsize w1 = enc_lhsize w"
    and lh: "lh = length (enc_lheads w)"
    using assms(1) by (auto simp: encbuf_list_def)
  obtain s hs where 2: "enc_str w2 = enc_str w1 @ s" "enc_lheads w2 = enc_lheads w1 @ hs"
      "offsets_ok ?p hs (length (enc_str w2))" "render ?p s hs = out"
      "enc_lhsize w1 \<le> enc_lhsize w2" "length out = length s + (enc_lhsize w2 - enc_lhsize w1)"
    using assms(2) w1 unfolding writes_def by auto
  let ?h' = "?h\<lparr>lh_size := length out\<rparr>"
  have sz: "encbuf_size w2 - ?p - enc_lhsize w = length out"
    using 2 w1 by (simp add: encbuf_size_def)
  have nth: "enc_lheads w2 ! lh = ?h"
    using 2 w1 lh by (simp add: nth_append)
  have upd: "(enc_lheads w2)[lh := h'] = enc_lheads w @ h' # hs" for h'
    using 2 w1 lh by (simp add: list_update_append)
  have "encbuf_listEnd lh w2 =
      w2\<lparr>enc_lheads := enc_lheads w @ ?h' # hs, enc_lhsize := enc_lhsize w2 + headsize (of_nat (length out))\<rparr>"
    using sz nth upd headsize_of_nat [OF assms(3)] by (simp add: encbuf_listEnd_def Let_def)
  then show ?thesis
    unfolding writes_def using 2 w1
    by (intro exI [of _ s] exI [of _ "?h' # hs"]) (simp add: rlp_list_def listhead_encode_def)
qed

lemma big_Bytes_0 [simp]: "big_Bytes 0 = []"
  by (simp add: big_Bytes_def)

lemma rlp_string_Nil [simp]: "rlp_string [] = [0x80]"
  by (simp add: rlp_string_def puthead_def)

lemma rlp_list_Nil [simp]: "rlp_list [] = [0xC0]"
  by (simp add: rlp_list_def puthead_def)

lemma length_rlp_string_ge: "length b \<le> length (rlp_string b)"
  and length_rlp_list_ge: "length b \<le> length (rlp_list b)"
  by (simp_all add: rlp_string_def rlp_list_def)

lemma rlp_writer_writes:
  "rlp_encodable v \<Longrightarrow> length (rlp_encode v) < 2 ^ 64 \<Longrightarrow>
     \<exists>w'. rlp_writer v w = (None, w') \<and> writes w w' (rlp_encode v)"
  "list_all rlp_encodable vs \<Longrightarrow> length (concat (map rlp_encode vs)) < 2 ^ 64 \<Longrightarrow>
     \<exists>w'. rlp_writers vs w = (None, w') \<and> writes w w' (concat (map rlp_encode vs))"
proof (induction v w and vs w rule: rlp_writer_rlp_writers.induct)
  case (4 p w)
  then show ?case
  proof (cases p)
    case (Some i)
    then have "0 \<le> i" and "length (big_Bytes i) < 2 ^ 64"
      using 4 length_rlp_string_ge [of "big_Bytes i"] by auto
    then show ?thesis
      using Some by (simp add: writeBigIntPtr_def writeBigInt_def encodeString_eq)
  qed (simp add: writeBigIntPtr_def)
next
  case (5 b w)
  then show ?case
    using length_rlp_string_ge [of b] by (simp add: encodeString_eq)
next
  case (7 w)
  obtain w1 lh where "encbuf_list w = (w1, lh)" by fastforce
  then show ?case
    using writes_list [of w w1 lh w1 "[]"] by simp
next
  case (8 tail vs w)
  show ?case
  proof (cases tail)
    case True
    then show ?thesis using 8 by simp
  next
    case False
    obtain w1 lh where l: "encbuf_list w = (w1, lh)" by fastforce
    moreover have "length (concat (map rlp_encode vs)) < 2 ^ 64"
      using "8.prems"(2) False length_rlp_list_ge [of "concat (map rlp_encode vs)"] by simp
    moreover from this obtain w2 where "rlp_writers vs w1 = (None, w2)" "writes w1 w2 (concat (map rlp_encode vs))"
      using "8.IH"(2) [OF False l [symmetric] refl] "8.prems"(1) by auto
    ultimately show ?thesis
      using False writes_list [OF l] by simp
  qed
next
  case (9 vs w)
  obtain w1 lh where l: "encbuf_list w = (w1, lh)" by fastforce
  moreover have "length (concat (map rlp_encode vs)) < 2 ^ 64"
    using "9.prems"(2) length_rlp_list_ge [of "concat (map rlp_encode vs)"] by simp
  moreover from this obtain w2 where "rlp_writers vs w1 = (None, w2)" "writes w1 w2 (concat (map rlp_encode vs))"
    using "9.IH" [OF l [symmetric] refl] "9.prems"(1) by auto
  ultimately show ?case
    using writes_list [OF l] by simp
next
  case (11 v vs w)
  then obtain w1 where w1: "rlp_writer v w = (None, w1)" "writes w w1 (rlp_encode v)"
    by auto
  then obtain w2 where "rlp_writers vs w1 = (None, w2)" "writes w1 w2 (concat (map rlp_encode vs))"
    using "11.IH"(2) [OF w1(1) [symmetric] refl] "11.prems" by auto
  then show ?case
    using w1 writes_trans by auto
qed (auto simp: writeUint_eq writeBool_def)

lemma rlp_writer_rejects:
  "\<not> rlp_encodable v \<Longrightarrow> \<exists>w'. rlp_writer v w = (Some ErrNegativeBigInt, w')"
  "\<not> list_all rlp_encodable vs \<Longrightarrow> \<exists>w'. rlp_writers vs w = (Some ErrNegativeBigInt, w')"
proof (induction v w and vs w rule: rlp_writer_rlp_writers.induct)
  case (9 vs w)
  obtain w1 lh where l: "encbuf_list w = (w1, lh)" by fastforce
  then show ?case
    using "9.IH" [OF l [symmetric] refl] "9.prems" by auto
next
  case (11 v vs w)
  obtain e w1 where "rlp_writer v w = (e, w1)" by fastforce
  moreover have "e = Some ErrNegativeBigInt \<or> e = None"
    by (cases e) (auto intro: rlp_error.exhaust)
  ultimately show ?case
    using 11 by (cases "rlp_encodable v") auto
qed (auto simp: writeBigIntPtr_def writeBigInt_def Let_def split: option.splits prod.splits)

lemma toBytes_loop_render:
  assumes "offsets_ok strpos hs (length str)"
    and "length out = pos + length (render strpos (drop strpos str) hs)"
  shows "toBytes_loop str hs out pos strpos = Ret (take pos out @ render strpos (drop strpos str) hs)"
  using assms
proof (induction hs arbitrary: out pos strpos)
  case Nil
  then show ?case by (simp add: go_copy_def)
next
  case (Cons h hs)
  let ?src = "take (lh_offset h - strpos) (drop strpos str)" and ?enc = "listhead_encode h"
  let ?rest = "render (lh_offset h) (drop (lh_offset h) str) hs"
  have off: "strpos \<le> lh_offset h" "lh_offset h \<le> length str" and ok: "offsets_ok (lh_offset h) hs (length str)"
    using Cons.prems(1) offsets_ok_le by auto
  have rest: "render strpos (drop strpos str) (h # hs) = ?src @ ?enc @ ?rest"
    using off by simp
  let ?out1 = "go_copy out pos ?src" and ?pos1 = "pos + length ?src"
  have len: "length out = ?pos1 + length ?enc + length ?rest"
    using Cons.prems(2) unfolding rest by simp
  have "toBytes_loop str (h # hs) out pos strpos =
      toBytes_loop str hs (go_copy ?out1 ?pos1 ?enc) (?pos1 + length ?enc) (lh_offset h)"
  proof -
    have "pos \<le> length out" "min (length out - pos) (length ?src) = length ?src"
        "?pos1 + length ?enc \<le> length ?out1" "strpos + length ?src = lh_offset h"
      using off len by simp_all
    then show ?thesis
      using off by (simp only: toBytes_loop.simps Let_def simp_thms if_True)
  qed
  also have "\<dots> = Ret (take (?pos1 + length ?enc) (go_copy ?out1 ?pos1 ?enc) @ ?rest)"
    using Cons.IH [OF ok, of "go_copy ?out1 ?pos1 ?enc" "?pos1 + length ?enc"] len by simp
  also have "take (?pos1 + length ?enc) (go_copy ?out1 ?pos1 ?enc) = take pos out @ ?src @ ?enc"
    using take_go_copy [of ?pos1 ?enc ?out1] take_go_copy [of pos ?src out] len by simp
  finally show ?case
    unfolding rest by simp
qed

lemma toWriter_loop_render:
  "offsets_ok strpos hs (length str) \<Longrightarrow>
     toWriter_loop str hs out strpos = out @ render strpos (drop strpos str) hs"
proof (induction hs arbitrary: out strpos)
  case (Cons h hs)
  then show ?case
    using Cons.IH [of "lh_offset h"] by (cases "lh_offset h = strpos") auto
qed simp

lemma writes_reset:
  assumes "writes encbuf_reset w out"
  shows "toBytes w = Ret out" and "toWriter w = out"
proof -
  from assms have out: "render 0 (enc_str w) (enc_lheads w) = out"
    and ok: "offsets_ok 0 (enc_lheads w) (length (enc_str w))"
    and len: "length out = length (enc_str w) + enc_lhsize w"
    by (auto simp: writes_def encbuf_reset_def)
  show "toBytes w = Ret out"
    using toBytes_loop_render [OF ok, of "replicate (encbuf_size w) 0" 0] out len
    by (simp add: toBytes_def encbuf_size_def)
  show "toWriter w = out"
    using toWriter_loop_render [OF ok, of "[]"] out by (simp add: toWriter_def)
qed

lemma EncodeToBytes_eq:
  assumes "rlp_encodable v \<Longrightarrow> length (rlp_encode v) < 2 ^ 64"
  shows "EncodeToBytes v = Ret (if rlp_encodable v then Inr (rlp_encode v) else Inl ErrNegativeBigInt)"
    and "Encode v = (if rlp_encodable v then Inr (rlp_encode v) else Inl ErrNegativeBigInt)"
proof -
  consider w where "rlp_encodable v" "rlp_writer v encbuf_reset = (None, w)" "writes encbuf_reset w (rlp_encode v)"
    | w where "\<not> rlp_encodable v" "rlp_writer v encbuf_reset = (Some ErrNegativeBigInt, w)"
    using rlp_writer_writes(1) [of v encbuf_reset] rlp_writer_rejects(1) [of v encbuf_reset] assms by blast
  then have "EncodeToBytes v = Ret (if rlp_encodable v then Inr (rlp_encode v) else Inl ErrNegativeBigInt) \<and>
      Encode v = (if rlp_encodable v then Inr (rlp_encode v) else Inl ErrNegativeBigInt)"
    by cases (simp_all add: EncodeToBytes_def Encode_def writes_reset)
  then show "EncodeToBytes v = Ret (if rlp_encodable v then Inr (rlp_encode v) else Inl ErrNegativeBigInt)"
    and "Encode v = (if rlp_encodable v then Inr (rlp_encode v) else Inl ErrNegativeBigInt)"
    by blast+
qed

section \<open>Piecewise reading\<close>

definition er_ok :: "encReader \<Rightarrow> bool" where
  "er_ok r \<longleftrightarrow>
     (case er_buf r of None \<Rightarrow> True
      | Some buf \<Rightarrow> offsets_ok (er_strpos r) (drop (er_lhpos r) (enc_lheads buf)) (length (enc_str buf)))"

text \<open>The bytes a reader has still to deliver.\<close>

definition er_remaining :: "encReader \<Rightarrow> bytes" where
  "er_remaining r =
     (case er_buf r of None \<Rightarrow> []
      | Some buf \<Rightarrow> (case er_piece r of None \<Rightarrow> [] | Some p \<Rightarrow> p) @
          render (er_strpos r) (drop (er_strpos r) (enc_str buf)) (drop (er_lhpos r) (enc_lheads buf)))"

lemma encReader_next_Some:
  assumes "er_ok r" and "encReader_next r = (Some p, r')"
  shows "er_ok (r'\<lparr>er_piece := q\<rparr>) \<and> (\<exists>buf. er_buf r' = Some buf) \<and>
    er_remaining r = p @ er_remaining (r'\<lparr>er_piece := None\<rparr>)"
proof -
  obtain buf where buf: "er_buf r = Some buf"
    using assms(2) by (cases "er_buf r") (auto simp: encReader_next_def)
  show ?thesis
  proof (cases "er_piece r = None \<and> er_lhpos r < length (enc_lheads buf)")
    case True
    then have d: "drop (er_lhpos r) (enc_lheads buf) =
        (enc_lheads buf ! er_lhpos r) # drop (Suc (er_lhpos r)) (enc_lheads buf)"
      by (simp add: Cons_nth_drop_Suc)
    then show ?thesis
      using assms buf True offsets_ok_le
      by (auto simp: encReader_next_def er_ok_def er_remaining_def Let_def split: if_splits)
  next
    case False
    then show ?thesis
      using assms buf
      by (auto simp: encReader_next_def er_ok_def er_remaining_def Let_def split: if_splits)
  qed
qed

lemma encReader_next_None:
  "encReader_next r = (None, r') \<Longrightarrow> er_remaining r = []"
  by (auto simp: encReader_next_def er_remaining_def Let_def split: if_splits option.splits)

lemma encReader_Read_remaining:
  assumes "er_ok r"
  shows "\<exists>out eof r'. encReader_Read n acc r = (acc @ out, eof, r') \<and> er_ok r' \<and>
    out @ er_remaining r' = er_remaining r \<and> length out \<le> n \<and>
    (if eof then er_remaining r' = [] else length out = n \<and> er_remaining r' \<noteq> [])"
  using assms
proof (induction n acc r rule: encReader_Read.induct)
  case (1 n acc r)
  show ?case
  proof (cases "encReader_next r")
    case (Pair po r1)
    show ?thesis
    proof (cases po)
      case None
      then show ?thesis
        using Pair encReader_next_None [of r r1]
        by (intro exI [of _ "[]"] exI [of _ True] exI)
          (auto simp: encReader_Read.simps [of n acc r] er_ok_def er_remaining_def)
    next
      case (Some p)
      note step = encReader_next_Some [OF "1.prems" Pair [unfolded Some]]
      let ?r = "\<lambda>q. r1\<lparr>er_piece := q\<rparr>"
      have ok: "er_ok (?r q)" for q
        using step by blast
      have rem: "er_remaining r = p @ er_remaining (?r None)"
        using step [of None] by blast
      show ?thesis
      proof (cases "n < length p")
        case True
        then have "encReader_Read n acc r = (acc @ take n p, False, ?r (Some (drop n p)))"
          using Pair Some by (simp add: encReader_Read.simps [of n acc r])
        moreover have "er_remaining (?r (Some (drop n p))) = drop n p @ er_remaining (?r None)"
          using step [of None] by (auto simp: er_remaining_def)
        ultimately show ?thesis
          using ok rem True by (intro exI [of _ "take n p"] exI [of _ False] exI [of _ "?r (Some (drop n p))"]) simp
      next
        case False
        then have m: "min n (length p) = length p" and "\<not> min n (length p) < length p"
          by simp_all
        then obtain out eof r' where *: "encReader_Read (n - length p) (acc @ p) (?r None) = (acc @ p @ out, eof, r')"
            "er_ok r'" "out @ er_remaining r' = er_remaining (?r None)" "length out \<le> n - length p"
            "if eof then er_remaining r' = [] else length out = n - length p \<and> er_remaining r' \<noteq> []"
          using "1.IH" [OF Pair [symmetric] Some refl] ok [of None] by auto
        have "encReader_Read n acc r = (acc @ p @ out, eof, r')"
          using Pair Some *(1) m by (simp add: encReader_Read.simps [of n acc r])
        then show ?thesis
          using rem * False by (intro exI [of _ "p @ out"] exI [of _ eof] exI [of _ r']) (auto split: if_splits)
      qed
    qed
  qed
qed

text \<open>A client that calls \<open>Read\<close> with buffers of the given sizes, and what it is to be given: each time the next bytes, and \<open>EOF\<close> once they are the last.\<close>

primrec read_all :: "nat list \<Rightarrow> encReader \<Rightarrow> (bytes \<times> bool) list" where
  "read_all [] r = []"
| "read_all (n # ns) r = (let (out, eof, r) = encReader_Read n [] r in (out, eof) # read_all ns r)"

primrec chunks :: "nat list \<Rightarrow> bytes \<Rightarrow> (bytes \<times> bool) list" where
  "chunks [] b = []"
| "chunks (n # ns) b = (take n b, length b \<le> n) # chunks ns (drop n b)"

lemma concat_chunks: "concat (map fst (chunks ns b)) = take (sum_list ns) b"
  by (induction ns arbitrary: b) (simp_all add: take_add)

lemma encReader_Read_next:
  assumes "er_ok r"
  shows "\<exists>r'. encReader_Read n [] r = (take n (er_remaining r), length (er_remaining r) \<le> n, r') \<and> er_ok r' \<and>
    er_remaining r' = drop n (er_remaining r)"
proof -
  obtain out eof r' where *: "encReader_Read n [] r = (out, eof, r')" "er_ok r'" "out @ er_remaining r' = er_remaining r" "length out \<le> n"
      "if eof then er_remaining r' = [] else length out = n \<and> er_remaining r' \<noteq> []"
    using encReader_Read_remaining [OF assms, of n "[]"] by auto
  have "out = take n (er_remaining r)" "er_remaining r' = drop n (er_remaining r)" "eof \<longleftrightarrow> length (er_remaining r) \<le> n"
    unfolding *(3) [symmetric] using *(4,5) by (auto split: if_splits)
  then show ?thesis
    using *(1,2) by simp
qed

lemma read_all_chunks: "er_ok r \<Longrightarrow> read_all ns r = chunks ns (er_remaining r)"
proof (induction ns arbitrary: r)
  case (Cons n ns)
  obtain r' where "encReader_Read n [] r = (take n (er_remaining r), length (er_remaining r) \<le> n, r')" "er_ok r'"
      "er_remaining r' = drop n (er_remaining r)"
    using encReader_Read_next [OF Cons.prems] by blast
  then show ?case
    using Cons.IH [of r'] by simp
qed simp

lemma EncodeToReader_eq:
  assumes "rlp_encodable v" and "length (rlp_encode v) < 2 ^ 64"
  shows "\<exists>r. EncodeToReader v = Inr (length (rlp_encode v), r) \<and> er_ok r \<and> er_remaining r = rlp_encode v"
proof -
  obtain w where w: "rlp_writer v encbuf_reset = (None, w)" "writes encbuf_reset w (rlp_encode v)"
    using rlp_writer_writes(1) [OF assms] by blast
  then have "render 0 (enc_str w) (enc_lheads w) = rlp_encode v"
    "offsets_ok 0 (enc_lheads w) (length (enc_str w))" "encbuf_size w = length (rlp_encode v)"
    by (auto simp: writes_def encbuf_reset_def encbuf_size_def)
  with w(1) show ?thesis
    by (simp add: EncodeToReader_def er_ok_def er_remaining_def)
qed

section \<open>Properties\<close>

definition sample_value :: rlpval where
  "sample_value = VStruct [VUint 1024, VBytes [0x61, 0x62], VSlice False [VBool True, VBigInt (Some 0)]]"

text \<open>
  C16: The two-pass encoder implements the recursive RLP format: for a value without negative
  integers both \<open>EncodeToBytes\<close> and \<open>Encode\<close> deliver \<open>rlp_encode\<close> of the value, without a
  panic; every other value is rejected with the error for negative integers. A boolean is accepted and
  encoded like the integers 1 and 0, although the documentation of \<open>Encode\<close> says that booleans are not supported.
\<close>

theorem encoder_refines_format:
  assumes "length (rlp_encode v) < 2 ^ 64"
  shows "EncodeToBytes v = Ret (Encode v) \<and>
    Encode v = (if rlp_encodable v then Inr (rlp_encode v) else Inl ErrNegativeBigInt)"
  using EncodeToBytes_eq [of v] assms by simp

theorem encoder_refines_format_witness:
  "EncodeToBytes sample_value = Ret (Encode sample_value) \<and>
   Encode sample_value = Inr [0xC9, 0x82, 0x04, 0x00, 0x82, 0x61, 0x62, 0xC2, 0x01, 0x80]"
proof -
  have e: "rlp_encode sample_value = [0xC9, 0x82, 0x04, 0x00, 0x82, 0x61, 0x62, 0xC2, 0x01, 0x80]"
    "rlp_encodable sample_value"
    by code_simp+
  show ?thesis
    using encoder_refines_format [of sample_value] unfolding e by (simp add: e)
qed

text \<open>
  C19: Reading from \<open>EncodeToReader\<close> in pieces of any sizes gives the encoding. The size reported is
  its length. Whatever the sizes of the buffers in a sequence of calls, each call of
  \<open>Read\<close> returns the next bytes of the encoding, as many as its buffer holds or as are left, and reports \<open>EOF\<close> exactly when
  nothing is left after it; so the calls together return the encoding up to the sum of their sizes, all of it when the sum is its length.
\<close>

theorem EncodeToReader_Read:
  assumes "rlp_encodable v" and "length (rlp_encode v) < 2 ^ 64"
  shows "\<exists>r. EncodeToReader v = Inr (length (rlp_encode v), r) \<and> read_all ns r = chunks ns (rlp_encode v) \<and>
    concat (map fst (read_all ns r)) = take (sum_list ns) (rlp_encode v)"
  using EncodeToReader_eq [OF assms] read_all_chunks concat_chunks by metis

theorem EncodeToReader_Read_witness:
  "\<exists>r. EncodeToReader sample_value = Inr (10, r) \<and>
    read_all [4, 3, 0, 7, 1] r = [([0xC9, 0x82, 0x04, 0x00], False), ([0x82, 0x61, 0x62], False), ([], False), ([0xC2, 0x01, 0x80], True), ([], True)]"
proof -
  have e: "rlp_encode sample_value = [0xC9, 0x82, 0x04, 0x00, 0x82, 0x61, 0x62, 0xC2, 0x01, 0x80]"
    "rlp_encodable sample_value" and len: "length (rlp_encode sample_value) = 10"
    by code_simp+
  have "length (rlp_encode sample_value) < 2 ^ 64"
    unfolding len by simp
  from EncodeToReader_Read [OF e(2) this, of "[4, 3, 0, 7, 1]"] show ?thesis
    unfolding len unfolding e(1) by auto
qed

end
