(* ===== verification/RLP_Raw.thy ===== *)
theory RLP_Raw
  imports RLP_Encode
begin

text \<open>
  Splitting of encoded values (\<open>rlp/raw.go\<close>).

  The lemmas show that \<open>Split\<close> inverts the encoder, that it accepts canonical encodings only
  (whatever it splits off is exactly what the encoder would have written), that it never
  slices out of range, and that \<open>CountValues\<close> counts the values of a concatenation.
\<close>

datatype Kind = Kind_Byte | Kind_String | Kind_List

datatype rlp_err =
    EOF
  | ErrUnexpectedEOF
  | EOL
  | ErrExpectedString
  | ErrExpectedList
  | ErrCanonInt
  | ErrCanonSize
  | ErrElemTooLarge
  | ErrValueTooLarge
  | ErrMoreThanOneValue
  | errNotInList
  | errNotAtEOL
  | errUintOverflow
  | ErrInvalidBoolean u64
  | ErrInputTooLong
  | ErrInputTooShort
  | ErrTooFewElements
  | ErrTooManyElements

section \<open>Operations\<close>

definition byte_at :: "bytes \<Rightarrow> nat \<Rightarrow> u64" where
  "byte_at b i = ucast (b ! i)"

text \<open>\<open>readSize\<close> indexes \<open>b[0]\<close> after the length check, so it panics on a length of zero
  and an empty slice.\<close>

definition readSize :: "bytes \<Rightarrow> byte \<Rightarrow> (rlp_err + u64) go" where
  "readSize b slen =
     (if unat slen > length b then Ret (Inl ErrUnexpectedEOF)
      else
        let n = unat slen; at = byte_at b;
            s = (if n = 1 then at 0
                 else if n = 2 then push_bit 8 (at 0) OR at 1
                 else if n = 3 then push_bit 16 (at 0) OR push_bit 8 (at 1) OR at 2
                 else if n = 4 then push_bit 24 (at 0) OR push_bit 16 (at 1) OR push_bit 8 (at 2) OR at 3
                 else if n = 5 then push_bit 32 (at 0) OR push_bit 24 (at 1) OR push_bit 16 (at 2) OR
                   push_bit 8 (at 3) OR at 4
                 else if n = 6 then push_bit 40 (at 0) OR push_bit 32 (at 1) OR push_bit 24 (at 2) OR
                   push_bit 16 (at 3) OR push_bit 8 (at 4) OR at 5
                 else if n = 7 then push_bit 48 (at 0) OR push_bit 40 (at 1) OR push_bit 32 (at 2) OR
                   push_bit 24 (at 3) OR push_bit 16 (at 4) OR push_bit 8 (at 5) OR at 6
                 else if n = 8 then push_bit 56 (at 0) OR push_bit 48 (at 1) OR push_bit 40 (at 2) OR
                   push_bit 32 (at 3) OR push_bit 24 (at 4) OR push_bit 16 (at 5) OR push_bit 8 (at 6) OR at 7
                 else 0)
        in if s < 56 then Ret (Inl ErrCanonSize)
           else go_bind (go_index b 0) (\<lambda>b0. if b0 = 0 then Ret (Inl ErrCanonSize) else Ret (Inr s)))"

text \<open>The final check of \<open>readKind\<close>: reject values larger than the input.\<close>

definition checkContent ::
  "bytes \<Rightarrow> Kind \<Rightarrow> u64 \<Rightarrow> (rlp_err + u64) \<Rightarrow> (rlp_err + Kind \<times> u64 \<times> u64) go" where
  "checkContent buf k tagsize r =
     (case r of Inl e \<Rightarrow> Ret (Inl e)
      | Inr contentsize \<Rightarrow>
          if contentsize > of_nat (length buf) - tagsize then Ret (Inl ErrValueTooLarge)
          else Ret (Inr (k, tagsize, contentsize)))"

definition raw_readKind :: "bytes \<Rightarrow> (rlp_err + Kind \<times> u64 \<times> u64) go" where
  "raw_readKind buf =
     (case buf of [] \<Rightarrow> Ret (Inl ErrUnexpectedEOF)
      | b # rest \<Rightarrow>
        if b < 0x80 then checkContent buf Kind_Byte 0 (Inr 1)
        else if b < 0xB8 then
          (let contentsize = ucast (b - 0x80)
           in if contentsize = 1 \<and> length buf > 1 \<and> buf ! 1 < 128 then Ret (Inl ErrCanonSize)
              else checkContent buf Kind_String 1 (Inr contentsize))
        else if b < 0xC0 then
          go_bind (readSize rest (b - 0xB7)) (checkContent buf Kind_String (ucast (b - 0xB7) + 1))
        else if b < 0xF8 then checkContent buf Kind_List 1 (Inr (ucast (b - 0xC0)))
        else go_bind (readSize rest (b - 0xF7)) (checkContent buf Kind_List (ucast (b - 0xF7) + 1)))"

definition Split :: "bytes \<Rightarrow> (rlp_err + Kind \<times> bytes \<times> bytes) go" where
  "Split b =
     go_bind (raw_readKind b) (\<lambda>r.
       case r of Inl e \<Rightarrow> Ret (Inl e)
       | Inr (k, ts, cs) \<Rightarrow>
           go_bind (go_slice b (unat ts) (unat (ts + cs))) (\<lambda>content.
             go_bind (go_slice b (unat (ts + cs)) (length b)) (\<lambda>rest. Ret (Inr (k, content, rest)))))"

definition SplitString :: "bytes \<Rightarrow> (rlp_err + bytes \<times> bytes) go" where
  "SplitString b =
     go_bind (Split b) (\<lambda>r.
       case r of Inl e \<Rightarrow> Ret (Inl e)
       | Inr (k, content, rest) \<Rightarrow> if k = Kind_List then Ret (Inl ErrExpectedString) else Ret (Inr (content, rest)))"

definition SplitList :: "bytes \<Rightarrow> (rlp_err + bytes \<times> bytes) go" where
  "SplitList b =
     go_bind (Split b) (\<lambda>r.
       case r of Inl e \<Rightarrow> Ret (Inl e)
       | Inr (k, content, rest) \<Rightarrow> if k \<noteq> Kind_List then Ret (Inl ErrExpectedList) else Ret (Inr (content, rest)))"

text \<open>The loop of \<open>CountValues\<close>, with fuel; every iteration consumes at least one byte.\<close>

primrec countValues_loop :: "nat \<Rightarrow> bytes \<Rightarrow> nat \<Rightarrow> (rlp_err + nat) go" where
  "countValues_loop 0 b i = (if b = [] then Ret (Inr i) else NoFuel)"
| "countValues_loop (Suc fuel) b i =
     (if b = [] then Ret (Inr i)
      else go_bind (raw_readKind b) (\<lambda>r.
        case r of Inl e \<Rightarrow> Ret (Inl e)
        | Inr (k, tagsize, sz) \<Rightarrow>
            go_bind (go_slice b (unat (tagsize + sz)) (length b)) (\<lambda>b. countValues_loop fuel b (i + 1))))"

definition CountValues :: "bytes \<Rightarrow> (rlp_err + nat) go" where
  "CountValues b = countValues_loop (length b) b 0"

section \<open>Sizes\<close>

lemma push_bit_8_or: "push_bit 8 (x :: u64) OR ucast (b :: byte) = x * 256 + ucast b"
proof -
  have "push_bit 8 x + ucast b = push_bit 8 x OR ucast b"
    by (rule disjunctive_add) (auto simp: bit_simps dest: bit_imp_le_length)
  then show ?thesis
    by (simp add: push_bit_eq_mult)
qed

definition be_word :: "bytes \<Rightarrow> u64" where
  "be_word b = word_of_int (SetBytes b)"

lemma be_word_take_Suc:
  "n < length b \<Longrightarrow> be_word (take (Suc n) b) = push_bit 8 (be_word (take n b)) OR byte_at b n"
  by (simp add: be_word_def byte_at_def take_Suc_conv_app_nth push_bit_8_or)

lemma be_word_take:
  "1 \<le> length b \<Longrightarrow> be_word (take 1 b) = byte_at b 0"
  "2 \<le> length b \<Longrightarrow> be_word (take 2 b) = push_bit 8 (byte_at b 0) OR byte_at b 1"
  "3 \<le> length b \<Longrightarrow> be_word (take 3 b) = push_bit 16 (byte_at b 0) OR push_bit 8 (byte_at b 1) OR byte_at b 2"
  "4 \<le> length b \<Longrightarrow> be_word (take 4 b) =
     push_bit 24 (byte_at b 0) OR push_bit 16 (byte_at b 1) OR push_bit 8 (byte_at b 2) OR byte_at b 3"
  "5 \<le> length b \<Longrightarrow> be_word (take 5 b) =
     push_bit 32 (byte_at b 0) OR push_bit 24 (byte_at b 1) OR push_bit 16 (byte_at b 2) OR
     push_bit 8 (byte_at b 3) OR byte_at b 4"
  "6 \<le> length b \<Longrightarrow> be_word (take 6 b) =
     push_bit 40 (byte_at b 0) OR push_bit 32 (byte_at b 1) OR push_bit 24 (byte_at b 2) OR
     push_bit 16 (byte_at b 3) OR push_bit 8 (byte_at b 4) OR byte_at b 5"
  "7 \<le> length b \<Longrightarrow> be_word (take 7 b) =
     push_bit 48 (byte_at b 0) OR push_bit 40 (byte_at b 1) OR push_bit 32 (byte_at b 2) OR
     push_bit 24 (byte_at b 3) OR push_bit 16 (byte_at b 4) OR push_bit 8 (byte_at b 5) OR byte_at b 6"
  "8 \<le> length b \<Longrightarrow> be_word (take 8 b) =
     push_bit 56 (byte_at b 0) OR push_bit 48 (byte_at b 1) OR push_bit 40 (byte_at b 2) OR
     push_bit 32 (byte_at b 3) OR push_bit 24 (byte_at b 4) OR push_bit 16 (byte_at b 5) OR
     push_bit 8 (byte_at b 6) OR byte_at b 7"
proof -
  have step: "be_word (take n b) = push_bit 8 (be_word (take m b)) OR byte_at b m" if "n = Suc m" "n \<le> length b" for n m
    using that be_word_take_Suc by simp
  have 0: "push_bit 8 (be_word (take 0 b)) = 0"
    by (simp add: be_word_def)
  note r = step [of 1 0] step [of 2 1] step [of 3 2] step [of 4 3] step [of 5 4] step [of 6 5] step [of 7 6] step [of 8 7]
  show "1 \<le> length b \<Longrightarrow> be_word (take 1 b) = byte_at b 0"
    using step [of 1 0] 0 by simp
  then show
    "2 \<le> length b \<Longrightarrow> be_word (take 2 b) = push_bit 8 (byte_at b 0) OR byte_at b 1"
    by (simp add: step [of 2 1])
  then show
    "3 \<le> length b \<Longrightarrow> be_word (take 3 b) = push_bit 16 (byte_at b 0) OR push_bit 8 (byte_at b 1) OR byte_at b 2"
    by (simp add: step [of 3 2] push_bit_or ac_simps)
  then show
    "4 \<le> length b \<Longrightarrow> be_word (take 4 b) =
     push_bit 24 (byte_at b 0) OR push_bit 16 (byte_at b 1) OR push_bit 8 (byte_at b 2) OR byte_at b 3"
    by (simp add: step [of 4 3] push_bit_or ac_simps)
  then show
    "5 \<le> length b \<Longrightarrow> be_word (take 5 b) =
     push_bit 32 (byte_at b 0) OR push_bit 24 (byte_at b 1) OR push_bit 16 (byte_at b 2) OR
     push_bit 8 (byte_at b 3) OR byte_at b 4"
    by (simp add: step [of 5 4] push_bit_or ac_simps)
  then show
    "6 \<le> length b \<Longrightarrow> be_word (take 6 b) =
     push_bit 40 (byte_at b 0) OR push_bit 32 (byte_at b 1) OR push_bit 24 (byte_at b 2) OR
     push_bit 16 (byte_at b 3) OR push_bit 8 (byte_at b 4) OR byte_at b 5"
    by (simp add: step [of 6 5] push_bit_or ac_simps)
  then show
    "7 \<le> length b \<Longrightarrow> be_word (take 7 b) =
     push_bit 48 (byte_at b 0) OR push_bit 40 (byte_at b 1) OR push_bit 32 (byte_at b 2) OR
     push_bit 24 (byte_at b 3) OR push_bit 16 (byte_at b 4) OR push_bit 8 (byte_at b 5) OR byte_at b 6"
    by (simp add: step [of 7 6] push_bit_or ac_simps)
  then show
    "8 \<le> length b \<Longrightarrow> be_word (take 8 b) =
     push_bit 56 (byte_at b 0) OR push_bit 48 (byte_at b 1) OR push_bit 40 (byte_at b 2) OR
     push_bit 32 (byte_at b 3) OR push_bit 24 (byte_at b 4) OR push_bit 16 (byte_at b 5) OR
     push_bit 8 (byte_at b 6) OR byte_at b 7"
    by (simp add: step [of 8 7] push_bit_or ac_simps)
qed

lemma readSize_eq:
  assumes "0 < unat slen" and "unat slen \<le> 8"
  shows "readSize b slen =
    (if unat slen > length b then Ret (Inl ErrUnexpectedEOF)
     else if be_word (take (unat slen) b) < 56 \<or> hd b = 0 then Ret (Inl ErrCanonSize)
     else Ret (Inr (be_word (take (unat slen) b))))"
proof (cases "unat slen > length b")
  case False
  then have "b \<noteq> []"
    using assms by auto
  have "unat slen \<in> {1, 2, 3, 4, 5, 6, 7, 8}"
    using assms by auto
  then show ?thesis
    using False be_word_take [of b] \<open>b \<noteq> []\<close>
    by (auto simp: readSize_def Let_def go_index_def hd_conv_nth)
qed (simp add: readSize_def)

lemma hd_putint_nonzero: "s \<noteq> 0 \<Longrightarrow> hd (putint s) \<noteq> 0"
proof
  assume nz: "s \<noteq> 0" and hd: "hd (putint s) = 0"
  obtain b bs where put: "putint s = b # bs"
    using intsize_pos [of s] length_putint [of s] by (metis length_0_conv less_numeral_extra(3) neq_Nil_conv)
  then have len: "intsize s = Suc (length bs)" and val: "uint s = SetBytes bs"
    using hd length_putint [of s] SetBytes_putint [of s] by (auto simp: SetBytes_Cons)
  have lt: "uint s < 256 ^ length bs"
    using val SetBytes_less by simp
  show False
  proof (cases "length bs = 0")
    case True
    then show False
      using lt uint_pos [OF nz] by simp
  next
    case False
    then show False
      using intsize_le_iff [of "length bs" s] lt len by simp
  qed
qed

lemma putint_not_Nil [simp]: "putint s \<noteq> []"
  using intsize_pos [of s] length_putint [of s] by (metis length_0_conv less_numeral_extra(3))

lemma be_word_putint [simp]: "be_word (putint s) = s"
  by (simp add: be_word_def)

lemma putint_be_word:
  assumes "0 < n" and "n \<le> 8" and "n \<le> length b" and "hd b \<noteq> 0"
  shows "putint (be_word (take n b)) = take n b"
proof -
  obtain x xs where b: "take n b = x # xs" and x: "x = hd b"
    using assms by (cases b; cases n) auto
  have len: "n = Suc (length xs)"
    using b assms(3) by (metis length_Cons length_take min.absorb2)
  have less: "SetBytes (x # xs) < 256 ^ n"
    using SetBytes_less [of "x # xs"] len by simp
  moreover have "(256 :: int) ^ n \<le> 2 ^ 64"
    using power_increasing [OF assms(2), of "256 :: int"] by simp
  ultimately have val: "uint (be_word (take n b)) = SetBytes (x # xs)"
    by (simp add: be_word_def b uint_word_of_int)
  have "1 \<le> uint x"
    using assms(4) x uint_pos [of x] by simp
  then have "1 * 256 ^ length xs \<le> uint x * 256 ^ length xs"
    by (intro mult_right_mono) simp_all
  then have ge: "256 ^ length xs \<le> SetBytes (x # xs)"
    using SetBytes_nonneg [of xs] unfolding SetBytes_Cons by linarith
  have "intsize (be_word (take n b)) = n"
  proof (cases "length xs = 0")
    case True
    then show ?thesis
      using intsize_le_iff [of 1 "be_word (take n b)"] intsize_pos [of "be_word (take n b)"] val less len
      by (simp del: intsize_pos)
  next
    case False
    then show ?thesis
      using intsize_eqI [of "length xs" "be_word (take n b)"] val less ge len by simp
  qed
  then have "putint (be_word (take n b)) = be_bytes n (SetBytes (x # xs))"
    by (simp only: putint_eq val)
  then show ?thesis
    by (metis be_bytes_SetBytes length_Cons len b)
qed

lemma readSize_iff:
  assumes "0 < unat slen" and "unat slen \<le> 8"
  shows "readSize b slen = Ret (Inr s) \<longleftrightarrow> 56 \<le> s \<and> intsize s = unat slen \<and> (\<exists>r. b = putint s @ r)"
proof
  assume "readSize b slen = Ret (Inr s)"
  then have *: "unat slen \<le> length b" "\<not> s < 56" "hd b \<noteq> 0" "s = be_word (take (unat slen) b)"
    by (auto simp: readSize_eq [OF assms] split: if_splits)
  then have "putint s = take (unat slen) b"
    using putint_be_word [OF assms *(1,3)] by simp
  moreover from this have "intsize s = unat slen"
    using * length_putint [of s] by simp
  ultimately show "56 \<le> s \<and> intsize s = unat slen \<and> (\<exists>r. b = putint s @ r)"
    using * by (metis append_take_drop_id linorder_not_less)
next
  assume *: "56 \<le> s \<and> intsize s = unat slen \<and> (\<exists>r. b = putint s @ r)"
  then obtain r where b: "b = putint s @ r"
    by blast
  from * have "s \<noteq> 0"
    by auto
  then have "hd b \<noteq> 0" and "take (unat slen) b = putint s" and "unat slen \<le> length b"
    using hd_putint_nonzero [of s] b * intsize_pos [of s] by (auto simp: hd_append)
  then show "readSize b slen = Ret (Inr s)"
    using * by (simp add: readSize_eq [OF assms] linorder_not_less)
qed

lemma readSize_no_panic:
  "0 < unat slen \<Longrightarrow> unat slen \<le> 8 \<Longrightarrow> \<exists>r. readSize b slen = Ret r"
  by (simp add: readSize_eq)

section \<open>Canonical encodings\<close>

definition rlp_head :: "Kind \<Rightarrow> nat \<Rightarrow> bytes" where
  "rlp_head k n =
     (case k of Kind_Byte \<Rightarrow> [] | Kind_String \<Rightarrow> puthead 0x80 0xB7 (of_nat n) | Kind_List \<Rightarrow> puthead 0xC0 0xF7 (of_nat n))"

definition canonical :: "Kind \<Rightarrow> bytes \<Rightarrow> bool" where
  "canonical k c \<longleftrightarrow>
     (case k of Kind_Byte \<Rightarrow> length c = 1 \<and> hd c \<le> 0x7F
      | Kind_String \<Rightarrow> \<not> (length c = 1 \<and> hd c \<le> 0x7F) | Kind_List \<Rightarrow> True)"

lemma checkContent_iff:
  assumes "length buf < 2 ^ 64" and "unat ts \<le> length buf"
  shows "checkContent buf k ts (Inr cs) = Ret (Inr r) \<longleftrightarrow> r = (k, ts, cs) \<and> unat ts + unat cs \<le> length buf"
proof -
  have "unat (of_nat (length buf) :: u64) = length buf"
    using assms(1) by (simp add: unat_of_nat)
  then have "unat (of_nat (length buf) - ts) = length buf - unat ts"
    using assms(2) by (simp add: unat_sub word_le_nat_alt)
  then show ?thesis
    using assms(2) by (auto simp: checkContent_def word_less_nat_alt split: if_splits)
qed

lemma unat_tag:
  "n < 56 \<Longrightarrow> unat (0x80 + of_nat n :: byte) = 0x80 + n"
  "n < 56 \<Longrightarrow> unat (0xC0 + of_nat n :: byte) = 0xC0 + n"
  "m \<le> 8 \<Longrightarrow> unat (0xB7 + of_nat m :: byte) = 0xB7 + m"
  "m \<le> 8 \<Longrightarrow> unat (0xF7 + of_nat m :: byte) = 0xF7 + m"
  by (simp_all add: unat_word_ariths unat_of_nat)

lemma ucast_of_nat_byte: "n < 256 \<Longrightarrow> ucast (of_nat n :: byte) = (of_nat n :: u64)"
  by (simp add: word_unat_eq_iff unat_of_nat unsigned_ucast_eq take_bit_eq_mod)

lemma byte_tag_disj:
  "(b :: byte) < 0x80 \<or> (\<exists>n < 56. b = 0x80 + of_nat n) \<or> (\<exists>m > 0. m \<le> 8 \<and> b = 0xB7 + of_nat m) \<or>
     (\<exists>n < 56. b = 0xC0 + of_nat n) \<or> (\<exists>m > 0. m \<le> 8 \<and> b = 0xF7 + of_nat m)"
proof -
  have ex: "\<exists>n. P n \<and> b = t + of_nat n" if "t \<le> b" "unat t = k" "P (unat b - k)" for t k P
    using that by (intro exI [of _ "unat b - k"]) (auto simp: of_nat_diff word_le_nat_alt)
  have u: "unat b < 256"
    using unsigned_less [of b, where ?'a = nat] by simp
  consider "b < 0x80" | "0x80 \<le> b" "unat b - 0x80 < 56" | "0xB7 \<le> b" "0 < unat b - 0xB7" "unat b - 0xB7 \<le> 8"
    | "0xC0 \<le> b" "unat b - 0xC0 < 56" | "0xF7 \<le> b" "0 < unat b - 0xF7" "unat b - 0xF7 \<le> 8"
    using u by (simp add: word_less_nat_alt word_le_nat_alt) linarith
  then show ?thesis
  proof cases
    case 2
    then show ?thesis using ex [of 128 128 "\<lambda>n. n < 56"] by simp
  next
    case 3
    then show ?thesis using ex [of 183 183 "\<lambda>m. m > 0 \<and> m \<le> 8"] by simp
  next
    case 4
    then show ?thesis using ex [of 192 192 "\<lambda>n. n < 56"] by simp
  next
    case 5
    then show ?thesis using ex [of 247 247 "\<lambda>m. m > 0 \<and> m \<le> 8"] by simp
  qed simp
qed

text \<open>The behaviour of \<open>readKind\<close> on the two forms of a tag.\<close>

lemma readKind_short:
  assumes "n < 56"
  shows "raw_readKind ((0x80 + of_nat n) # rest) =
      (if n = 1 \<and> rest \<noteq> [] \<and> hd rest < 128 then Ret (Inl ErrCanonSize)
       else checkContent ((0x80 + of_nat n) # rest) Kind_String 1 (Inr (of_nat n)))"
    and "raw_readKind ((0xC0 + of_nat n) # rest) =
      checkContent ((0xC0 + of_nat n) # rest) Kind_List 1 (Inr (of_nat n))"
proof -
  have one: "(of_nat n :: u64) = 1 \<longleftrightarrow> n = 1"
    using assms by (simp add: word_unat_eq_iff unat_of_nat)
  have "\<not> (0x80 + of_nat n :: byte) < 0x80" "(0x80 + of_nat n :: byte) < 0xB8"
    using assms by (simp_all add: word_less_nat_alt unat_tag)
  then show "raw_readKind ((0x80 + of_nat n) # rest) =
      (if n = 1 \<and> rest \<noteq> [] \<and> hd rest < 128 then Ret (Inl ErrCanonSize)
       else checkContent ((0x80 + of_nat n) # rest) Kind_String 1 (Inr (of_nat n)))"
    using one assms by (cases rest) (simp_all add: raw_readKind_def Let_def ucast_of_nat_byte)
  have "\<not> (0xC0 + of_nat n :: byte) < 0x80" "\<not> (0xC0 + of_nat n :: byte) < 0xB8"
      "\<not> (0xC0 + of_nat n :: byte) < 0xC0" "(0xC0 + of_nat n :: byte) < 0xF8"
    using assms by (simp_all add: word_less_nat_alt unat_tag)
  then show "raw_readKind ((0xC0 + of_nat n) # rest) =
      checkContent ((0xC0 + of_nat n) # rest) Kind_List 1 (Inr (of_nat n))"
    using assms by (simp add: raw_readKind_def ucast_of_nat_byte)
qed

lemma readKind_long:
  assumes "0 < m" and "m \<le> 8"
  shows "raw_readKind ((0xB7 + of_nat m) # rest) =
      go_bind (readSize rest (of_nat m)) (checkContent ((0xB7 + of_nat m) # rest) Kind_String (of_nat m + 1))"
    and "raw_readKind ((0xF7 + of_nat m) # rest) =
      go_bind (readSize rest (of_nat m)) (checkContent ((0xF7 + of_nat m) # rest) Kind_List (of_nat m + 1))"
proof -
  have "\<not> (0xB7 + of_nat m :: byte) < 0x80" "\<not> (0xB7 + of_nat m :: byte) < 0xB8" "(0xB7 + of_nat m :: byte) < 0xC0"
    using assms by (simp_all add: word_less_nat_alt unat_tag)
  then show "raw_readKind ((0xB7 + of_nat m) # rest) =
      go_bind (readSize rest (of_nat m)) (checkContent ((0xB7 + of_nat m) # rest) Kind_String (of_nat m + 1))"
    using assms by (simp add: raw_readKind_def ucast_of_nat_byte)
  have "\<not> (0xF7 + of_nat m :: byte) < 0x80" "\<not> (0xF7 + of_nat m :: byte) < 0xB8"
      "\<not> (0xF7 + of_nat m :: byte) < 0xC0" "\<not> (0xF7 + of_nat m :: byte) < 0xF8"
    using assms by (simp_all add: word_less_nat_alt unat_tag)
  then show "raw_readKind ((0xF7 + of_nat m) # rest) =
      go_bind (readSize rest (of_nat m)) (checkContent ((0xF7 + of_nat m) # rest) Kind_List (of_nat m + 1))"
    using assms by (simp add: raw_readKind_def ucast_of_nat_byte)
qed

lemma unat_of_nat_u64: "n < 2 ^ 64 \<Longrightarrow> unat (of_nat n :: u64) = n"
  by (simp add: unat_of_nat)

lemma puthead_short: "n < 56 \<Longrightarrow> puthead t T (of_nat n) = [t + of_nat n]"
  by (simp add: puthead_def of_nat_less_56 word_unat_eq_iff unat_word_ariths unat_of_nat unsigned_ucast_eq take_bit_eq_mod)

lemma puthead_long: "56 \<le> cs \<Longrightarrow> puthead t T cs = (T + of_nat (intsize cs)) # putint cs"
  by (simp add: puthead_def linorder_not_le [symmetric])

lemma readKind_sound_short:
  assumes "length b < 2 ^ 64" and "b = (t + of_nat n) # rest" and "n < 56"
    and "checkContent b k 1 (Inr (of_nat n)) = Ret (Inr (k', ts, cs))"
  shows "k' = k \<and> unat ts = 1 \<and> unat cs = n \<and> rest = take n rest @ drop n rest \<and> length (take n rest) = n"
proof -
  have "unat (of_nat n :: u64) = n"
    using assms(3) by (simp add: unat_of_nat_u64)
  then show ?thesis
    using assms checkContent_iff [OF assms(1), of 1 k "of_nat n" "(k', ts, cs)"] by auto
qed

lemma readKind_sound_long:
  assumes "length b < 2 ^ 64" and "b = (t + of_nat m) # rest" and "0 < m" and "m \<le> 8"
    and "go_bind (readSize rest (of_nat m)) (checkContent b k (of_nat m + 1)) = Ret (Inr (k', ts, cs))"
  shows "k' = k \<and> 56 \<le> cs \<and> unat ts = Suc m \<and> intsize cs = m \<and>
    (\<exists>c r. rest = putint cs @ c @ r \<and> length c = unat cs)"
proof -
  have m: "unat (of_nat m :: byte) = m" "unat (of_nat m + 1 :: u64) = Suc m"
    using assms(4) by (simp_all add: unat_of_nat unat_word_ariths)
  obtain q where q: "readSize rest (of_nat m) = Ret q" "checkContent b k (of_nat m + 1) q = Ret (Inr (k', ts, cs))"
    using assms(5) by auto
  then obtain s where s: "q = Inr s"
    by (cases q) (auto simp: checkContent_def)
  then obtain r0 where r0: "56 \<le> s" "intsize s = m" "rest = putint s @ r0"
    using q(1) readSize_iff [of "of_nat m" rest s] m assms(3,4) by auto
  then have len: "length b = Suc (m + length r0)"
    using assms(2) by simp
  then have "k' = k \<and> ts = of_nat m + 1 \<and> cs = s \<and> Suc m + unat s \<le> length b"
    using q(2) s checkContent_iff [OF assms(1), of "of_nat m + 1" k s "(k', ts, cs)"] m by auto
  then show ?thesis
    using r0 m len
    by (intro conjI exI [of _ "take (unat s) r0"] exI [of _ "drop (unat s) r0"]) auto
qed

lemma readKind_sound:
  assumes len: "length b < 2 ^ 64" and rk: "raw_readKind b = Ret (Inr (k, ts, cs))"
  shows "\<exists>c r. b = rlp_head k (unat cs) @ c @ r \<and> length c = unat cs \<and>
    unat ts = length (rlp_head k (unat cs)) \<and> canonical k c"
proof -
  obtain x rest where b: "b = x # rest"
    using rk by (cases b) (auto simp: raw_readKind_def)
  have cast: "of_nat (unat cs) = cs"
    by simp
  from byte_tag_disj [of x] consider "x < 0x80"
    | n where "n < 56" "x = 0x80 + of_nat n" | m where "m > 0" "m \<le> 8" "x = 0xB7 + of_nat m"
    | n where "n < 56" "x = 0xC0 + of_nat n" | m where "m > 0" "m \<le> 8" "x = 0xF7 + of_nat m"
    by blast
  then show ?thesis
  proof cases
    case 1
    then have "k = Kind_Byte \<and> ts = 0 \<and> cs = 1"
      using rk b len checkContent_iff [of b 0 Kind_Byte 1 "(k, ts, cs)"] by (simp add: raw_readKind_def)
    then show ?thesis
      using 1 b by (intro exI [of _ "[x]"] exI [of _ rest])
        (auto simp: rlp_head_def canonical_def word_le_nat_alt word_less_nat_alt)
  next
    case 2
    then have chk: "checkContent b Kind_String 1 (Inr (of_nat n)) = Ret (Inr (k, ts, cs))"
        and nc: "\<not> (n = 1 \<and> rest \<noteq> [] \<and> hd rest < 128)"
      using rk b readKind_short(1) [OF 2(1), of rest] by (auto split: if_splits)
    note r = readKind_sound_short [OF len _ 2(1) chk, of "0x80" rest]
    then show ?thesis
      using 2 b nc by (intro exI [of _ "take n rest"] exI [of _ "drop n rest"])
        (auto simp: rlp_head_def canonical_def puthead_short word_le_nat_alt word_less_nat_alt)
  next
    case 3
    then have "go_bind (readSize rest (of_nat m)) (checkContent b Kind_String (of_nat m + 1)) = Ret (Inr (k, ts, cs))"
      using rk b readKind_long(1) [of m rest] by simp
    from readKind_sound_long [OF len _ 3(1,2) this, of "0xB7"] 3 b
    obtain c r where *: "k = Kind_String" "56 \<le> cs" "unat ts = Suc m" "intsize cs = m"
        "rest = putint cs @ c @ r" "length c = unat cs"
      by auto
    moreover have "56 \<le> unat cs"
      using *(2) by (simp add: word_le_nat_alt)
    ultimately show ?thesis
      using 3 b cast by (intro exI [of _ c] exI [of _ r])
        (auto simp: rlp_head_def canonical_def puthead_long)
  next
    case 4
    then have chk: "checkContent b Kind_List 1 (Inr (of_nat n)) = Ret (Inr (k, ts, cs))"
      using rk b readKind_short(2) [OF 4(1), of rest] by simp
    note r = readKind_sound_short [OF len _ 4(1) chk, of "0xC0" rest]
    then show ?thesis
      using 4 b by (intro exI [of _ "take n rest"] exI [of _ "drop n rest"])
        (auto simp: rlp_head_def canonical_def puthead_short)
  next
    case 5
    then have "go_bind (readSize rest (of_nat m)) (checkContent b Kind_List (of_nat m + 1)) = Ret (Inr (k, ts, cs))"
      using rk b readKind_long(2) [of m rest] by simp
    from readKind_sound_long [OF len _ 5(1,2) this, of "0xF7"] 5 b
    obtain c r where *: "k = Kind_List" "56 \<le> cs" "unat ts = Suc m" "intsize cs = m"
        "rest = putint cs @ c @ r" "length c = unat cs"
      by auto
    then show ?thesis
      using 5 b cast by (intro exI [of _ c] exI [of _ r])
        (auto simp: rlp_head_def canonical_def puthead_long)
  qed
qed

lemma checkContent_fits:
  assumes "length b < 2 ^ 64" and "unat ts + unat cs \<le> length b"
  shows "checkContent b k ts (Inr cs) = Ret (Inr (k, ts, cs))"
  using checkContent_iff [of b ts k cs "(k, ts, cs)"] assms by simp

lemma readKind_complete_long:
  assumes big: "56 \<le> length c" and len: "length (puthead t T (of_nat (length c)) @ c @ r) < 2 ^ 64"
    and rk: "\<And>m rest. 0 < m \<Longrightarrow> m \<le> 8 \<Longrightarrow> raw_readKind ((T + of_nat m) # rest) =
      go_bind (readSize rest (of_nat m)) (checkContent ((T + of_nat m) # rest) k (of_nat m + 1))"
  shows "raw_readKind (puthead t T (of_nat (length c)) @ c @ r) =
    Ret (Inr (k, of_nat (length (puthead t T (of_nat (length c)))), of_nat (length c)))"
proof -
  let ?cs = "of_nat (length c) :: u64"
  have cs: "56 \<le> ?cs" and u: "unat ?cs = length c"
    using big len by (simp_all add: word_le_nat_alt unat_of_nat_u64)
  have h: "puthead t T ?cs = (T + of_nat (intsize ?cs)) # putint ?cs"
    using cs by (rule puthead_long)
  have i: "unat (of_nat (intsize ?cs) + 1 :: u64) = Suc (intsize ?cs)" "unat (of_nat (intsize ?cs) :: byte) = intsize ?cs"
    using intsize_le_8 [of ?cs] by (simp_all add: unat_word_ariths unat_of_nat)
  have rs: "readSize (putint ?cs @ c @ r) (of_nat (intsize ?cs)) = Ret (Inr ?cs)"
    using readSize_iff [of "of_nat (intsize ?cs)" "putint ?cs @ c @ r" ?cs] intsize_le_8 [of ?cs] i cs by auto
  have "raw_readKind (puthead t T ?cs @ c @ r) =
      checkContent (puthead t T ?cs @ c @ r) k (of_nat (intsize ?cs) + 1) (Inr ?cs)"
    using rk [OF intsize_pos intsize_le_8, of ?cs "putint ?cs @ c @ r"] rs unfolding h by simp
  also have "\<dots> = Ret (Inr (k, of_nat (intsize ?cs) + 1, ?cs))"
    using len i u unfolding h by (intro checkContent_fits) simp_all
  finally show ?thesis
    unfolding h by (simp add: add.commute)
qed

lemma readKind_complete:
  assumes len: "length (rlp_head k (length c) @ c @ r) < 2 ^ 64" and canon: "canonical k c"
  shows "raw_readKind (rlp_head k (length c) @ c @ r) =
    Ret (Inr (k, of_nat (length (rlp_head k (length c))), of_nat (length c)))"
proof (cases k)
  case Kind_Byte
  then obtain x where "c = [x]" "x < 0x80"
    using canon by (cases c) (auto simp: canonical_def word_le_nat_alt word_less_nat_alt)
  then show ?thesis
    using Kind_Byte len by (simp add: rlp_head_def raw_readKind_def checkContent_fits)
next
  case Kind_String
  show ?thesis
  proof (cases "length c < 56")
    case True
    then have "\<not> (length c = 1 \<and> c @ r \<noteq> [] \<and> hd (c @ r) < 128)"
      using canon Kind_String by (cases c) (auto simp: canonical_def word_le_nat_alt word_less_nat_alt)
    then show ?thesis
      using Kind_String True len readKind_short(1) [OF True, of "c @ r"]
      by (simp add: rlp_head_def puthead_short checkContent_fits unat_of_nat_u64)
  next
    case False
    then show ?thesis
      using readKind_complete_long [OF _ _ readKind_long(1)] len Kind_String by (simp add: rlp_head_def)
  qed
next
  case Kind_List
  show ?thesis
  proof (cases "length c < 56")
    case True
    then show ?thesis
      using Kind_List len readKind_short(2) [OF True, of "c @ r"]
      by (simp add: rlp_head_def puthead_short checkContent_fits unat_of_nat_u64)
  next
    case False
    then show ?thesis
      using readKind_complete_long [OF _ _ readKind_long(2)] len Kind_List by (simp add: rlp_head_def)
  qed
qed

lemma readKind_no_panic: "\<exists>r. raw_readKind b = Ret r"
proof (cases b)
  case (Cons x rest)
  have chk: "\<exists>r. checkContent b k ts q = Ret r" for k ts q
    by (cases q) (auto simp: checkContent_def)
  have size: "\<exists>q. readSize rest (of_nat m) = Ret q" if "0 < m" "m \<le> 8" for m
    using that readSize_no_panic [of "of_nat m" rest] by (simp add: unat_of_nat)
  from byte_tag_disj [of x] consider "x < 0x80"
    | n where "n < 56" "x = 0x80 + of_nat n" | m where "m > 0" "m \<le> 8" "x = 0xB7 + of_nat m"
    | n where "n < 56" "x = 0xC0 + of_nat n" | m where "m > 0" "m \<le> 8" "x = 0xF7 + of_nat m"
    by blast
  then show ?thesis
  proof cases
    case 1
    then show ?thesis using Cons chk by (simp add: raw_readKind_def)
  next
    case 2
    then show ?thesis using Cons chk readKind_short(1) [of n rest] by simp
  next
    case 3
    then obtain q where "readSize rest (of_nat m) = Ret q"
      using size by blast
    then show ?thesis using 3 Cons chk readKind_long(1) [of m rest] by simp
  next
    case 4
    then show ?thesis using Cons chk readKind_short(2) [of n rest] by simp
  next
    case 5
    then obtain q where "readSize rest (of_nat m) = Ret q"
      using size by blast
    then show ?thesis using 5 Cons chk readKind_long(2) [of m rest] by simp
  qed
qed (simp add: raw_readKind_def)

lemma readKind_bounds:
  assumes "length b < 2 ^ 64" and "raw_readKind b = Ret (Inr (k, ts, cs))"
  shows "unat (ts + cs) = unat ts + unat cs" and "unat ts + unat cs \<le> length b" and "0 < unat ts + unat cs"
proof -
  obtain c r where *: "b = rlp_head k (unat cs) @ c @ r" "length c = unat cs"
      "unat ts = length (rlp_head k (unat cs))" "canonical k c"
    using readKind_sound [OF assms] by blast
  then show le: "unat ts + unat cs \<le> length b"
    by simp
  then show "unat (ts + cs) = unat ts + unat cs"
    using assms(1) by (simp add: unat_word_ariths)
  show "0 < unat ts + unat cs"
    using * by (cases k) (auto simp: canonical_def rlp_head_def headsize_def)
qed

section \<open>Splitting\<close>

text \<open>The encoding of one value, given its kind and content.\<close>

definition rlp_one :: "Kind \<Rightarrow> bytes \<Rightarrow> bytes" where
  "rlp_one k c = rlp_head k (length c) @ c"

lemma rlp_one_string:
  "rlp_string c = rlp_one (if length c = 1 \<and> hd c \<le> 0x7F then Kind_Byte else Kind_String) c"
  by (simp add: rlp_string_def rlp_one_def rlp_head_def)

lemma rlp_one_list: "rlp_list c = rlp_one Kind_List c"
  by (simp add: rlp_list_def rlp_one_def rlp_head_def)

lemma rlp_one_not_Nil: "canonical k c \<Longrightarrow> rlp_one k c \<noteq> []"
  by (cases k) (auto simp: rlp_one_def rlp_head_def canonical_def puthead_def)

lemma Split_iff:
  assumes "length b < 2 ^ 64"
  shows "Split b = Ret (Inr (k, c, r)) \<longleftrightarrow> canonical k c \<and> b = rlp_one k c @ r"
proof
  assume "Split b = Ret (Inr (k, c, r))"
  moreover obtain q where "raw_readKind b = Ret q"
    using readKind_no_panic by blast
  ultimately obtain ts cs where rk: "raw_readKind b = Ret (Inr (k, ts, cs))"
      and cr: "c = take (unat (ts + cs) - unat ts) (drop (unat ts) b)" "r = drop (unat (ts + cs)) b"
    by (cases q) (auto simp: Split_def split: prod.split_asm)
  obtain c' r' where "b = rlp_head k (unat cs) @ c' @ r'" "length c' = unat cs"
      "unat ts = length (rlp_head k (unat cs))" "canonical k c'"
    using readKind_sound [OF assms rk] by blast
  moreover from this have "c = c'" and "r = r'"
    using cr readKind_bounds [OF assms rk] by simp_all
  ultimately show "canonical k c \<and> b = rlp_one k c @ r"
    by (simp add: rlp_one_def)
next
  assume *: "canonical k c \<and> b = rlp_one k c @ r"
  let ?ts = "of_nat (length (rlp_head k (length c))) :: u64" and ?cs = "of_nat (length c) :: u64"
  have rk: "raw_readKind b = Ret (Inr (k, ?ts, ?cs))"
    using readKind_complete [of k c r] * assms by (simp add: rlp_one_def)
  have "unat ?ts = length (rlp_head k (length c))" "unat ?cs = length c"
    using * assms by (simp_all add: rlp_one_def unat_of_nat_u64)
  then show "Split b = Ret (Inr (k, c, r))"
    using rk readKind_bounds(1) [OF assms rk] * by (simp add: Split_def rlp_one_def go_slice_def)
qed

lemma Split_no_panic:
  assumes "length b < 2 ^ 64"
  shows "\<exists>r. Split b = Ret r"
proof -
  obtain q where q: "raw_readKind b = Ret q"
    using readKind_no_panic by blast
  show ?thesis
  proof (cases q)
    case (Inr v)
    then obtain k ts cs where "q = Inr (k, ts, cs)"
      by (cases v) auto
    then show ?thesis
      using q readKind_bounds [OF assms, of k ts cs] by (simp add: Split_def go_slice_def)
  qed (simp add: q Split_def)
qed

lemma countValues_loop_iff:
  assumes "length b < 2 ^ 64" and "length b \<le> fuel"
  shows "countValues_loop fuel b i = Ret (Inr n) \<longleftrightarrow>
    (\<exists>vs. n = i + length vs \<and> list_all (\<lambda>(k, c). canonical k c) vs \<and> b = concat (map (\<lambda>(k, c). rlp_one k c) vs))"
  using assms
proof (induction fuel arbitrary: b i)
  case 0
  have "vs = []" if "list_all (\<lambda>(k, c). canonical k c) vs" "concat (map (\<lambda>(k, c). rlp_one k c) vs) = []" for vs
    using that by (cases vs) (auto dest: rlp_one_not_Nil)
  then show ?case
    using 0 by auto
next
  case (Suc fuel)
  show ?case
  proof (cases "b = []")
    case True
    have "concat (map (\<lambda>(k, c). rlp_one k c) vs) = [] \<Longrightarrow> list_all (\<lambda>(k, c). canonical k c) vs \<Longrightarrow> vs = []" for vs
      by (cases vs) (auto dest: rlp_one_not_Nil)
    then show ?thesis
      using True by auto
  next
    case False
    have step: "countValues_loop (Suc fuel) b i = Ret (Inr n) \<longleftrightarrow>
        (\<exists>k c r. canonical k c \<and> b = rlp_one k c @ r \<and> countValues_loop fuel r (i + 1) = Ret (Inr n))"
    proof
      assume "countValues_loop (Suc fuel) b i = Ret (Inr n)"
      moreover obtain q where "raw_readKind b = Ret q"
        using readKind_no_panic by blast
      ultimately obtain k ts cs where rk: "raw_readKind b = Ret (Inr (k, ts, cs))"
          and rest: "countValues_loop fuel (drop (unat (ts + cs)) b) (i + 1) = Ret (Inr n)"
        using False by (cases q) (auto split: prod.split_asm)
      obtain c r where "b = rlp_head k (unat cs) @ c @ r" "length c = unat cs"
          "unat ts = length (rlp_head k (unat cs))" "canonical k c"
        using readKind_sound [OF Suc.prems(1) rk] by blast
      then show "\<exists>k c r. canonical k c \<and> b = rlp_one k c @ r \<and> countValues_loop fuel r (i + 1) = Ret (Inr n)"
        using rest readKind_bounds(1) [OF Suc.prems(1) rk]
        by (intro exI [of _ k] exI [of _ c] exI [of _ r]) (simp add: rlp_one_def)
    next
      assume "\<exists>k c r. canonical k c \<and> b = rlp_one k c @ r \<and> countValues_loop fuel r (i + 1) = Ret (Inr n)"
      then obtain k c r where *: "canonical k c" "b = rlp_one k c @ r" "countValues_loop fuel r (i + 1) = Ret (Inr n)"
        by blast
      let ?ts = "of_nat (length (rlp_head k (length c))) :: u64" and ?cs = "of_nat (length c) :: u64"
      have rk: "raw_readKind b = Ret (Inr (k, ?ts, ?cs))"
        using readKind_complete [of k c r] * Suc.prems(1) by (simp add: rlp_one_def)
      have "unat ?ts = length (rlp_head k (length c))" "unat ?cs = length c"
        using * Suc.prems(1) by (simp_all add: rlp_one_def unat_of_nat_u64)
      then show "countValues_loop (Suc fuel) b i = Ret (Inr n)"
        using rk readKind_bounds(1) [OF Suc.prems(1) rk] * False by (auto simp: rlp_one_def go_slice_def)
    qed
    have IH: "countValues_loop fuel r (i + 1) = Ret (Inr n) \<longleftrightarrow>
        (\<exists>vs. n = i + 1 + length vs \<and> list_all (\<lambda>(k, c). canonical k c) vs \<and> r = concat (map (\<lambda>(k, c). rlp_one k c) vs))"
      if "canonical k c" "b = rlp_one k c @ r" for k c r
      using Suc.IH [of r "i + 1"] Suc.prems that rlp_one_not_Nil [OF that(1)] by (cases "rlp_one k c") auto
    show ?thesis (is "_ \<longleftrightarrow> ?R")
    proof
      assume "countValues_loop (Suc fuel) b i = Ret (Inr n)"
      then obtain k c vs where "canonical k c" "b = rlp_one k c @ concat (map (\<lambda>(k, c). rlp_one k c) vs)"
          "n = i + 1 + length vs" "list_all (\<lambda>(k, c). canonical k c) vs"
        using step IH by blast
      then show ?R
        by (intro exI [of _ "(k, c) # vs"]) simp
    next
      assume ?R
      then obtain vs where vs: "n = i + length vs" "list_all (\<lambda>(k, c). canonical k c) vs"
          "b = concat (map (\<lambda>(k, c). rlp_one k c) vs)"
        by blast
      with False obtain k c vs' where "vs = (k, c) # vs'"
        by (cases vs) auto
      then show "countValues_loop (Suc fuel) b i = Ret (Inr n)"
        using step IH [of k c "concat (map (\<lambda>(k, c). rlp_one k c) vs')"] vs by auto
    qed
  qed
qed

lemma countValues_loop_total:
  assumes "length b < 2 ^ 64" and "length b \<le> fuel"
  shows "\<exists>r. countValues_loop fuel b i = Ret r"
  using assms
proof (induction fuel arbitrary: b i)
  case (Suc fuel)
  obtain q where q: "raw_readKind b = Ret q"
    using readKind_no_panic by blast
  show ?case
  proof (cases q)
    case (Inr v)
    then obtain k ts cs where v: "q = Inr (k, ts, cs)"
      by (cases v) auto
    note bounds = readKind_bounds [OF Suc.prems(1) q [unfolded v]]
    have "\<exists>r. countValues_loop fuel (drop (unat (ts + cs)) b) (i + 1) = Ret r"
      using Suc.prems bounds by (intro Suc.IH) auto
    then show ?thesis
      using q v bounds by (simp add: go_slice_def)
  qed (simp add: q)
qed simp

section \<open>Properties\<close>

text \<open>
  C17: \<open>Split\<close> accepts exactly the canonical encodings: on an input shorter than \<open>2 ^ 64\<close> bytes it
  never slices out of range, and it returns the kind \<open>k\<close>, the content \<open>c\<close> and the rest \<open>r\<close> just
  when the input is the encoder's output for \<open>k\<close> and \<open>c\<close> followed by \<open>r\<close>. Hence every value has
  one encoding.
\<close>

theorem Split_accepts_canonical:
  assumes "length b < 2 ^ 64"
  shows "(\<exists>res. Split b = Ret res) \<and>
    (Split b = Ret (Inr (k, c, r)) \<longleftrightarrow> canonical k c \<and> b = rlp_one k c @ r)"
  using Split_no_panic [OF assms] Split_iff [OF assms] by blast

theorem Split_accepts_canonical_witness:
  "Split [0x82, 0x04, 0x00, 0x05] = Ret (Inr (Kind_String, [0x04, 0x00], [0x05])) \<and>
   canonical Kind_String [0x04, 0x00] \<and> [0x82, 0x04, 0x00, 0x05] = rlp_one Kind_String [0x04, 0x00] @ [0x05]"
proof -
  have "canonical Kind_String [0x04, 0x00] \<and> [0x82, 0x04, 0x00, 0x05] = rlp_one Kind_String [0x04, 0x00] @ [0x05]"
    by code_simp
  then show ?thesis
    using Split_accepts_canonical [of "[0x82, 0x04, 0x00, 0x05]" Kind_String "[0x04, 0x00]" "[0x05]"] by simp
qed

text \<open>
  C18: \<open>CountValues\<close> always terminates with a result, and counts \<open>n\<close> values exactly when its
  input is the concatenation of \<open>n\<close> canonical encodings.
\<close>

theorem CountValues_counts:
  assumes "length b < 2 ^ 64"
  shows "(\<exists>res. CountValues b = Ret res) \<and>
    (CountValues b = Ret (Inr n) \<longleftrightarrow>
      (\<exists>vs. n = length vs \<and> list_all (\<lambda>(k, c). canonical k c) vs \<and> b = concat (map (\<lambda>(k, c). rlp_one k c) vs)))"
  using countValues_loop_iff [OF assms order_refl, of 0 n] countValues_loop_total [OF assms order_refl, of 0]
  by (simp add: CountValues_def)

theorem CountValues_counts_witness:
  "CountValues [0x05, 0x82, 0x04, 0x00, 0xC0] = Ret (Inr 3) \<and>
   (\<exists>vs. 3 = length vs \<and> list_all (\<lambda>(k, c). canonical k c) vs \<and>
     [0x05, 0x82, 0x04, 0x00, 0xC0] = concat (map (\<lambda>(k, c). rlp_one k c) vs))"
proof -
  have "CountValues [0x05, 0x82, 0x04, 0x00, 0xC0] = Ret (Inr 3)"
    by code_simp
  then show ?thesis
    using CountValues_counts [of "[0x05, 0x82, 0x04, 0x00, 0xC0]" 3] by simp
qed

end
