(* ===== verification/Aquahash_Difficulty.thy ===== *)
theory Aquahash_Difficulty
  imports Params_Config Math_Big
begin

text \<open>
  The block header (\<open>core/types/block.go\<close>) and the difficulty rules of the aquahash engine
  (\<open>consensus/aquahash/difficulty.go\<close>, \<open>eth_difficulty.go\<close>).

  A header is the record of its fields; the 2048-bit bloom filter and the 8-byte nonce are
  words. A missing grandparent header is \<open>None\<close>. The functions that can dereference nil or
  call \<open>panic\<close> return a \<open>go\<close> value.

  The lemmas give the range of every rule, the bound on a single adjustment, and show that
  a later timestamp never raises the difficulty; the rules selected by \<open>calcDifficultyHFX\<close>
  inherit them through the locale \<open>retarget\<close>.
\<close>

section \<open>Headers\<close>

record Header =
  ParentHash :: hash
  UncleHash :: hash
  Coinbase :: address
  Root :: hash
  TxHash :: hash
  ReceiptHash :: hash
  Bloom :: "2048 word"
  Difficulty :: int
  Number :: int
  GasLimit :: u64
  GasUsed :: u64
  Time :: int
  Extra :: bytes
  MixDigest :: hash
  Nonce :: u64
  Version :: byte

section \<open>Ethereum rules\<close>

abbreviation (input) expDiffPeriod :: int where "expDiffPeriod \<equiv> 100000"

text \<open>\<open>EmptyUncleHash\<close> is the Keccak hash of an empty list, a parameter here.\<close>

definition ethcalcDifficultyByzantium :: "hash \<Rightarrow> u64 \<Rightarrow> Header \<Rightarrow> int" where
  "ethcalcDifficultyByzantium EmptyUncleHash time parent =
     (let x = big_Div (uint time - Time parent) 9;
          x = (if UncleHash parent = EmptyUncleHash then 1 - x else 2 - x);
          x = (if x < - 99 then - 99 else x);
          y = big_Div (Difficulty parent) DifficultyBoundDivisor;
          x = Difficulty parent + y * x;
          x = (if x < MinimumDifficultyEth then MinimumDifficultyEth else x);
          fakeBlockNumber = (if Number parent \<ge> 2999999 then Number parent - 2999999 else 0);
          periodCount = big_Div fakeBlockNumber expDiffPeriod
      in if periodCount > 1 then x + 2 ^ nat (periodCount - 2) else x)"

definition ethcalcDifficultyHomestead :: "u64 \<Rightarrow> Header \<Rightarrow> int" where
  "ethcalcDifficultyHomestead time parent =
     (let x = 1 - big_Div (uint time - Time parent) 10;
          x = (if x < - 99 then - 99 else x);
          y = big_Div (Difficulty parent) DifficultyBoundDivisor;
          x = Difficulty parent + y * x;
          x = (if x < MinimumDifficultyEth then MinimumDifficultyEth else x);
          periodCount = big_Div (Number parent + 1) expDiffPeriod
      in if periodCount > 1 then x + 2 ^ nat (periodCount - 2) else x)"

definition ethcalcDifficultyFrontier :: "u64 \<Rightarrow> Header \<Rightarrow> int" where
  "ethcalcDifficultyFrontier time parent =
     (let adjust = big_Div (Difficulty parent) DifficultyBoundDivisor;
          diff = (if uint time - Time parent < 13 then Difficulty parent + adjust
                  else Difficulty parent - adjust);
          diff = (if diff < MinimumDifficultyEth then MinimumDifficultyEth else diff);
          periodCount = big_Div (Number parent + 1) expDiffPeriod
      in if periodCount > 1
         then BigMax (diff + 2 ^ nat (periodCount - 2)) MinimumDifficultyEth
         else diff)"

definition EthCalcDifficulty :: "hash \<Rightarrow> ChainConfig \<Rightarrow> u64 \<Rightarrow> Header \<Rightarrow> int" where
  "EthCalcDifficulty EmptyUncleHash config time parent =
     (let n = Some (Number parent + 1)
      in if IsByzantium config n then ethcalcDifficultyByzantium EmptyUncleHash time parent
         else if IsHomestead config n then ethcalcDifficultyHomestead time parent
         else ethcalcDifficultyFrontier time parent)"

definition ethReward :: "ChainConfig \<Rightarrow> Header \<Rightarrow> int" where
  "ethReward config header =
     (if IsByzantium config (Some (Number header)) then EthBlockReward2 else EthBlockReward)"

section \<open>Aquachain rules\<close>

abbreviation (input) mainnetId :: u64 where "mainnetId \<equiv> 61717561"
abbreviation (input) ethnetId :: u64 where "ethnetId \<equiv> 1"

definition calcDifficultyStarting :: "u64 \<Rightarrow> Header \<Rightarrow> u64 \<Rightarrow> int" where
  "calcDifficultyStarting time parent chainID =
     (let x = 1 - big_Div (uint time - Time parent) 10;
          x = (if x < - 99 then - 99 else x);
          y = big_Div (Difficulty parent) DifficultyBoundDivisor;
          x = Difficulty parent + y * x
      in if chainID = mainnetId then BigMax x MinimumDifficultyGenesis else x)"

definition calcDifficultyHF1 :: "u64 \<Rightarrow> Header \<Rightarrow> u64 \<Rightarrow> int" where
  "calcDifficultyHF1 time parent chainID =
     (let x = 1 - big_Div (uint time - Time parent) 10;
          x = (if x < - 99 then - 99 else x);
          y = big_Div (Difficulty parent) DifficultyBoundDivisor;
          x = Difficulty parent + y * x
      in if chainID = mainnetId then BigMax x MinimumDifficultyHF1 else x)"

definition calcDifficultyGrandparent :: "u64 \<Rightarrow> Header \<Rightarrow> Header option \<Rightarrow> nat \<Rightarrow> u64 \<Rightarrow> int go" where
  "calcDifficultyGrandparent time parent grandparent hf chainID =
     (case grandparent of None \<Rightarrow> Panic
      | Some g \<Rightarrow>
        if Time parent \<le> Time g then Panic
        else
          let x = 1 - big_Div (Time parent - Time g) 240;
              x = (if x < - 99 then - 99 else x);
              divisor = (if Difficulty g < 10000 then DifficultyBoundDivisorHF5
                         else DifficultyBoundDivisorHF8);
              x = Difficulty g + big_Div (Difficulty g) divisor * x
          in Ret (if chainID = mainnetId then BigMax x MinimumDifficultyHF5
                  else BigMax x MinimumDifficultyHF5Testnet))"

text \<open>The common tail of \<open>calcDifficultyHFX\<close>, after the switch has chosen its parameters.\<close>

definition adjustDifficulty :: "u64 \<Rightarrow> Header \<Rightarrow> int \<Rightarrow> int \<Rightarrow> int \<Rightarrow> int" where
  "adjustDifficulty time parent limit adjust minDiff =
     (let diff = (if uint time - Time parent < limit then Difficulty parent + adjust
                  else Difficulty parent - adjust)
      in if diff < minDiff then minDiff else diff)"

definition calcDifficultyHFX ::
  "hash \<Rightarrow> ChainConfig \<Rightarrow> u64 \<Rightarrow> Header \<Rightarrow> Header option \<Rightarrow> int go" where
  "calcDifficultyHFX EmptyUncleHash config time parent grandparent =
     (case ChainId config of None \<Rightarrow> Panic
      | Some i \<Rightarrow>
        let next' = Number parent + 1;
            chainID = Uint64 i;
            hf = UseHF config (Some next');
            mainnet = (mainnetId = chainID);
            minDiff = (if \<not> mainnet then MinimumDifficultyHF5Testnet else MinimumDifficultyHF5)
        in
          if ethnetId = chainID then Ret (EthCalcDifficulty EmptyUncleHash config time parent)
          else if hf > KnownHF then Panic
          else if hf = 9 then calcDifficultyGrandparent time parent grandparent hf chainID
          else if hf = 8 then
            (case GetHF config 8 of None \<Rightarrow> Panic
             | Some b \<Rightarrow>
               if next' = b \<and> mainnet then Ret MinimumDifficultyHF5
               else if next' = b \<and> \<not> mainnet then Ret MinimumDifficultyHF8Testnet
               else if \<not> mainnet
               then Ret (adjustDifficulty time parent DurationLimitHF6
                      (big_Div (Difficulty parent) DifficultyBoundDivisorHF8Testnet) MinimumDifficultyHF8Testnet)
               else Ret (adjustDifficulty time parent DurationLimitHF6
                      (big_Div (Difficulty parent) DifficultyBoundDivisorHF8) minDiff))
          else if hf = 6 \<or> hf = 7 then
            Ret (adjustDifficulty time parent DurationLimitHF6
                   (big_Div (Difficulty parent) DifficultyBoundDivisorHF6) minDiff)
          else if hf = 5 then
            (case GetHF config 5 of None \<Rightarrow> Panic
             | Some b \<Rightarrow>
               if next' = b \<and> mainnet then Ret MinimumDifficultyHF5
               else if next' = b \<and> \<not> mainnet then Ret MinimumDifficultyHF5Testnet
               else Ret (adjustDifficulty time parent DurationLimit
                      (big_Div (Difficulty parent) DifficultyBoundDivisorHF5)
                      (if mainnet then MinimumDifficultyHF5 else minDiff)))
          else if hf = 3 \<or> hf = 4 then
            Ret (adjustDifficulty time parent DurationLimit
                   (big_Div (Difficulty parent) DifficultyBoundDivisor)
                   (if mainnet then MinimumDifficultyHF3 else minDiff))
          else if hf = 2 then
            Ret (adjustDifficulty time parent DurationLimit
                   (big_Div (Difficulty parent) DifficultyBoundDivisor)
                   (if mainnet then MinimumDifficultyHF1 else minDiff))
          else if hf = 1 then Ret (calcDifficultyHF1 time parent chainID)
          else if hf = 0 then Ret (calcDifficultyStarting time parent chainID)
          else Panic)"

text \<open>\<open>CalcDifficulty\<close> panics on a nil configuration.\<close>

definition CalcDifficulty ::
  "hash \<Rightarrow> ChainConfig option \<Rightarrow> u64 \<Rightarrow> Header \<Rightarrow> Header option \<Rightarrow> int go" where
  "CalcDifficulty EmptyUncleHash config time parent grandparent =
     (case config of None \<Rightarrow> Panic
      | Some c \<Rightarrow> calcDifficultyHFX EmptyUncleHash c time parent grandparent)"

section \<open>The contract of a retargeting rule\<close>

text \<open>
  What the engine relies on in every rule: for a parent of non-negative difficulty the
  result is at least a floor, and a later timestamp never gives a higher difficulty.
\<close>

locale retarget =
  fixes rule :: "u64 \<Rightarrow> Header \<Rightarrow> int"
    and floor_of :: "Header \<Rightarrow> int"
  assumes rule_floor: "0 \<le> Difficulty p \<Longrightarrow> floor_of p \<le> rule t p"
    and rule_antimono: "0 \<le> Difficulty p \<Longrightarrow> t \<le> t' \<Longrightarrow> rule t' p \<le> rule t p"
begin

lemma rule_const_between:
  assumes "0 \<le> Difficulty p" and "t \<le> s" and "s \<le> t'" and "rule t p = rule t' p"
  shows "rule s p = rule t p"
  using rule_antimono [OF assms(1,2)] rule_antimono [OF assms(1,3)] assms(4) by simp

lemma rule_positive: "0 \<le> Difficulty p \<Longrightarrow> 0 < floor_of p \<Longrightarrow> 0 < rule t p"
  using rule_floor [of p t] by simp

end

text \<open>The Homestead step, with \<open>k\<close> and \<open>d\<close> the constants of the rule.\<close>

definition homestead_step :: "int \<Rightarrow> int \<Rightarrow> u64 \<Rightarrow> Header \<Rightarrow> int" where
  "homestead_step k d time parent =
     Difficulty parent + Difficulty parent div 2048 * max (k - (uint time - Time parent) div d) (- 99)"

lemma homestead_step_antimono:
  assumes "0 \<le> Difficulty p" and "t \<le> t'" and "0 < d"
  shows "homestead_step k d t' p \<le> homestead_step k d t p"
proof -
  have "(uint t - Time p) div d \<le> (uint t' - Time p) div d"
    using assms by (intro zdiv_mono1) (simp_all add: word_le_def)
  then show ?thesis
    unfolding homestead_step_def using assms(1) by (intro add_left_mono mult_left_mono) auto
qed

lemma homestead_step_le_max:
  "0 \<le> Difficulty p \<Longrightarrow> t \<le> t' \<Longrightarrow> 0 < d \<Longrightarrow>
   homestead_step k d t' p \<le> max (homestead_step k d t p) m"
  by (simp add: homestead_step_antimono max.coboundedI1)

lemma homestead_step_nonneg:
  assumes "0 \<le> Difficulty p"
  shows "0 \<le> homestead_step k d t p"
proof -
  have "Difficulty p div 2048 * (- 99) \<le> Difficulty p div 2048 * max (k - (uint t - Time p) div d) (- 99)"
    using assms by (intro mult_left_mono) simp_all
  moreover have "Difficulty p div 2048 * 99 \<le> Difficulty p"
    using assms by linarith
  ultimately show ?thesis
    unfolding homestead_step_def by linarith
qed

lemma clamp_max: "(if x < - 99 then - 99 else x) = max x (- 99 :: int)"
  and floor_max: "(if x < m then m else x) = max x (m :: int)"
  by auto

definition ice_age :: "int \<Rightarrow> int" where
  "ice_age periodCount = (if periodCount > 1 then 2 ^ nat (periodCount - 2) else 0)"

lemma ice_age_nonneg: "0 \<le> ice_age c"
  by (simp add: ice_age_def)

lemma calcDifficultyStarting_eq:
  "calcDifficultyStarting t p chainID =
     (if chainID = mainnetId then max (homestead_step 1 10 t p) MinimumDifficultyGenesis
      else homestead_step 1 10 t p)"
  by (simp add: calcDifficultyStarting_def homestead_step_def Let_def BigMax_def clamp_max floor_max)

lemma calcDifficultyHF1_eq:
  "calcDifficultyHF1 t p chainID =
     (if chainID = mainnetId then max (homestead_step 1 10 t p) MinimumDifficultyHF1
      else homestead_step 1 10 t p)"
  by (simp add: calcDifficultyHF1_def homestead_step_def Let_def BigMax_def clamp_max floor_max)

lemma ethcalcDifficultyHomestead_eq:
  "ethcalcDifficultyHomestead t p =
     max (homestead_step 1 10 t p) MinimumDifficultyEth + ice_age ((Number p + 1) div expDiffPeriod)"
  by (simp add: ethcalcDifficultyHomestead_def homestead_step_def ice_age_def Let_def clamp_max floor_max)

lemma ethcalcDifficultyByzantium_eq:
  "ethcalcDifficultyByzantium e t p =
     max (homestead_step (if UncleHash p = e then 1 else 2) 9 t p) MinimumDifficultyEth +
     ice_age ((if Number p \<ge> 2999999 then Number p - 2999999 else 0) div expDiffPeriod)"
  by (simp add: ethcalcDifficultyByzantium_def homestead_step_def ice_age_def Let_def clamp_max floor_max)

lemma adjustDifficulty_antimono:
  assumes "0 \<le> a" and "t \<le> t'"
  shows "adjustDifficulty t' p l a m \<le> adjustDifficulty t p l a m"
  using assms by (auto simp: adjustDifficulty_def Let_def word_le_def)

lemma adjustDifficulty_floor: "m \<le> adjustDifficulty t p l a m"
  by (simp add: adjustDifficulty_def Let_def)

lemma adjustDifficulty_step:
  assumes "0 \<le> a" and "m \<le> Difficulty p"
  shows "\<bar>adjustDifficulty t p l a m - Difficulty p\<bar> \<le> a"
  using assms by (auto simp: adjustDifficulty_def Let_def)

lemma ethcalcDifficultyFrontier_eq:
  "ethcalcDifficultyFrontier t p =
     adjustDifficulty t p 13 (Difficulty p div 2048) MinimumDifficultyEth +
     ice_age ((Number p + 1) div expDiffPeriod)"
proof -
  have "BigMax (d + 2 ^ n) m = d + 2 ^ n" if "m \<le> d" for d m :: int and n
    using add_increasing2 [OF _ that, of "2 ^ n"] by (simp add: BigMax_def)
  then show ?thesis
    by (simp add: ethcalcDifficultyFrontier_def adjustDifficulty_def ice_age_def Let_def)
qed

lemmas difficulty_rule_eqs =
  calcDifficultyStarting_eq calcDifficultyHF1_eq ethcalcDifficultyHomestead_eq
  ethcalcDifficultyByzantium_eq ethcalcDifficultyFrontier_eq

interpretation starting: retarget "\<lambda>t p. calcDifficultyStarting t p chainID"
    "\<lambda>p. if chainID = mainnetId then MinimumDifficultyGenesis else 0" for chainID
  by unfold_locales
    (auto simp: difficulty_rule_eqs homestead_step_nonneg homestead_step_antimono homestead_step_le_max)

interpretation hf1: retarget "\<lambda>t p. calcDifficultyHF1 t p chainID"
    "\<lambda>p. if chainID = mainnetId then MinimumDifficultyHF1 else 0" for chainID
  by unfold_locales
    (auto simp: difficulty_rule_eqs homestead_step_nonneg homestead_step_antimono homestead_step_le_max)

interpretation byzantium: retarget "ethcalcDifficultyByzantium e" "\<lambda>p. MinimumDifficultyEth" for e
  by unfold_locales
    (simp_all add: difficulty_rule_eqs homestead_step_antimono homestead_step_le_max add_increasing2 ice_age_nonneg)

interpretation homestead: retarget ethcalcDifficultyHomestead "\<lambda>p. MinimumDifficultyEth"
  by unfold_locales
    (simp_all add: difficulty_rule_eqs homestead_step_antimono homestead_step_le_max add_increasing2 ice_age_nonneg)

interpretation frontier: retarget ethcalcDifficultyFrontier "\<lambda>p. MinimumDifficultyEth"
  by unfold_locales
    (simp_all add: difficulty_rule_eqs adjustDifficulty_antimono adjustDifficulty_floor add_increasing2 ice_age_nonneg)

interpretation adjusting: retarget "\<lambda>t p. adjustDifficulty t p l (Difficulty p div int (Suc d)) m" "\<lambda>p. m" for l d m
  by unfold_locales
    (simp_all add: adjustDifficulty_antimono adjustDifficulty_floor pos_imp_zdiv_nonneg_iff)

lemma ethnet_retarget:
  "retarget (EthCalcDifficulty e c) (\<lambda>p. MinimumDifficultyEth)"
  by unfold_locales
    (simp_all add: EthCalcDifficulty_def Let_def byzantium.rule_floor homestead.rule_floor frontier.rule_floor
       byzantium.rule_antimono homestead.rule_antimono frontier.rule_antimono)

interpretation ethnet: retarget "EthCalcDifficulty e c" "\<lambda>p. MinimumDifficultyEth" for e c
  by (rule ethnet_retarget)

section \<open>The rule of each hard fork\<close>

text \<open>
  The table of hard forks 2 to 8: the duration limit, the divisor of the adjustment and the
  minimum. \<open>calcDifficultyHFX\<close> implements it, with a reset to the minimum in the
  first block of hard forks 5 and 8.
\<close>

definition fork_limit :: "nat \<Rightarrow> int" where
  "fork_limit hf = (if hf \<le> 5 then 240 else 180)"

definition fork_divisor :: "bool \<Rightarrow> nat \<Rightarrow> int" where
  "fork_divisor mainnet hf =
     (if hf \<le> 4 then 2048 else if hf = 5 then 16 else if hf \<le> 7 then 128 else if mainnet then 1024 else 8)"

definition fork_minimum :: "bool \<Rightarrow> nat \<Rightarrow> int" where
  "fork_minimum mainnet hf =
     (if mainnet
      then [99999999, 100001792, 100001792, 30959185800, 30959185800, 46039386, 46039386, 46039386, 46039386] ! hf
      else [0, 0, 4096, 4096, 4096, 4096, 4096, 4096, 64] ! hf)"

text \<open>The hard fork in force at a height, the highest activated one below 9.\<close>

definition fork_at :: "ChainConfig \<Rightarrow> int \<Rightarrow> nat" where
  "fork_at c n = foldr max (filter (\<lambda>i. active (HF c i) n) [1 ..< 9]) 0"

text \<open>
  The step from the difficulty of the parent: the Homestead formula for the first two rules, then an
  adjustment up below the duration limit, and down from the limit on.
\<close>

definition fork_step :: "bool \<Rightarrow> nat \<Rightarrow> u64 \<Rightarrow> Header \<Rightarrow> int" where
  "fork_step mainnet hf t p =
     (let d = Difficulty p; elapsed = uint t - Time p in
      if hf \<le> 1 then d + d div 2048 * max (1 - elapsed div 10) (- 99)
      else if elapsed < fork_limit hf then d + d div fork_divisor mainnet hf
      else d - d div fork_divisor mainnet hf)"

definition fork_rule :: "ChainConfig \<Rightarrow> u64 \<Rightarrow> Header \<Rightarrow> int" where
  "fork_rule c t p =
     (let n = Number p + 1; hf = fork_at c n; mainnet = (ChainId c = Some 61717561)
      in if (hf = 5 \<or> hf = 8) \<and> HF c hf = Some n then fork_minimum mainnet hf
         else max (fork_step mainnet hf t p) (fork_minimum mainnet hf))"

lemma foldr_max_eq: "m \<in> insert 0 (set xs) \<Longrightarrow> (\<And>x. x \<in> set xs \<Longrightarrow> x \<le> m) \<Longrightarrow> foldr max xs 0 = (m :: nat)"
proof (induction xs arbitrary: m)
  case (Cons x xs)
  have le: "foldr max xs 0 \<le> m" if "\<And>x. x \<in> set xs \<Longrightarrow> x \<le> m" for m :: nat
    using that by (induction xs) auto
  have "x \<le> m" "foldr max xs 0 \<le> m"
    using Cons.prems(2) le [of m] by auto
  moreover have "m = x \<or> foldr max xs 0 = m"
    using Cons.prems Cons.IH [of m] by auto
  ultimately show ?case
    by auto
qed simp

lemma fork_at_UseHF: "fork_at c n = UseHF c (Some n)"
  unfolding fork_at_def
proof (rule foldr_max_eq)
  have "UseHF c (Some n) = 0 \<or> active (HF c (UseHF c (Some n))) n"
    using UseHF_active [of c "Some n"] by (auto simp: isForked_active)
  then show "UseHF c (Some n) \<in> insert 0 (set (filter (\<lambda>i. active (HF c i) n) [1 ..< 9]))"
    using UseHF_bound [of c "Some n"] by auto
  show "i \<le> UseHF c (Some n)" if "i \<in> set (filter (\<lambda>i. active (HF c i) n) [1 ..< 9])" for i
    using that UseHF_highest [of c i "Some n"] by (auto simp: isForked_active)
qed

lemma adjustDifficulty_max:
  "adjustDifficulty t p l a m = max (if uint t - Time p < l then Difficulty p + a else Difficulty p - a) m"
  by (auto simp: adjustDifficulty_def Let_def)

lemma fork_rule_eq:
  "fork_rule c t p =
     (let hf = UseHF c (Some (Number p + 1)); mainnet = (ChainId c = Some 61717561)
      in if (hf = 5 \<or> hf = 8) \<and> HF c hf = Some (Number p + 1) then fork_minimum mainnet hf
         else if hf < 2 then max (homestead_step 1 10 t p) (fork_minimum mainnet hf)
         else adjustDifficulty t p (fork_limit hf) (Difficulty p div fork_divisor mainnet hf) (fork_minimum mainnet hf))"
  by (auto simp: fork_rule_def fork_step_def fork_at_UseHF adjustDifficulty_max homestead_step_def Let_def)

lemma less_9_cases: "(n :: nat) < 9 \<Longrightarrow> n \<in> {0, 1, 2, 3, 4, 5, 6, 7, 8}"
  by auto

lemma UseHF_scheduled: "UseHF c h = hf \<Longrightarrow> hf \<noteq> 0 \<Longrightarrow> \<exists>b. GetHF c hf = Some b \<and> HF c hf = Some b"
  using UseHF_active [of c h] by (cases "HF c hf") (auto simp: IsHF_def GetHF_def)

lemma calcDifficultyHFX_eq:
  assumes chain: "ChainId c = Some i" "0 \<le> i" "i < 2 ^ 64" "i \<noteq> 1" and diff: "0 \<le> Difficulty p"
  shows "calcDifficultyHFX e c t p g = Ret (fork_rule c t p)"
proof -
  let ?hf = "UseHF c (Some (Number p + 1))"
  have main: "Uint64 i = 61717561 \<longleftrightarrow> i = 61717561" and eth: "Uint64 i \<noteq> 1"
    using chain(2,3,4) by (auto simp: word_uint_eq_iff uint_Uint64)
  have main': "61717561 = Uint64 i \<longleftrightarrow> i = 61717561" and id: "Uint64 61717561 = 61717561"
    using main by (auto simp: word_uint_eq_iff uint_Uint64)
  have hom: "0 \<le> homestead_step 1 10 t p"
    using diff by (rule homestead_step_nonneg)
  have sched: "?hf = n \<Longrightarrow> n \<noteq> 0 \<Longrightarrow> \<exists>b. GetHF c n = Some b \<and> HF c n = Some b" for n
    by (rule UseHF_scheduled)
  note defs = calcDifficultyHFX_def fork_rule_eq fork_limit_def fork_divisor_def fork_minimum_def Let_def chain(1) main main' id
  have "?hf \<in> {0, 1, 2, 3, 4, 5, 6, 7, 8}"
    by (rule less_9_cases [OF UseHF_bound])
  then consider "?hf = 0" | "?hf = 1" | "?hf = 2" | "?hf = 3" | "?hf = 4" | "?hf = 5" | "?hf = 6" | "?hf = 7" | "?hf = 8"
    by auto
  then show ?thesis
  proof cases
    case 1
    then show ?thesis
      using eth hom by (simp add: defs difficulty_rule_eqs max_absorb1)
  next
    case 2
    then show ?thesis
      using eth hom by (simp add: defs difficulty_rule_eqs max_absorb1)
  next
    case 6
    with sched [of 5] obtain b where "GetHF c 5 = Some b" "HF c 5 = Some b" by auto
    then show ?thesis
      using eth 6 by (simp add: defs)
  next
    case 9
    with sched [of 8] obtain b where "GetHF c 8 = Some b" "HF c 8 = Some b" by auto
    then show ?thesis
      using eth 9 by (simp add: defs)
  qed (use eth in \<open>simp_all add: defs\<close>)
qed

lemma fork_minimum_bounds:
  assumes "hf < 9"
  shows "0 \<le> fork_minimum m hf" and "46039386 \<le> fork_minimum True hf"
  using less_9_cases [OF assms] by (auto simp: fork_minimum_def)

lemma fork_divisor_pos: "0 < fork_divisor m hf"
  by (simp add: fork_divisor_def)

interpretation fork: retarget "fork_rule c"
    "\<lambda>p. fork_minimum (ChainId c = Some 61717561) (UseHF c (Some (Number p + 1)))" for c
proof unfold_locales
  fix p :: Header and t :: u64
  show "fork_minimum (ChainId c = Some 61717561) (UseHF c (Some (Number p + 1))) \<le> fork_rule c t p"
    by (simp add: fork_rule_eq Let_def adjustDifficulty_floor)
next
  fix p :: Header and t t' :: u64
  assume "0 \<le> Difficulty p" "t \<le> t'"
  then show "fork_rule c t' p \<le> fork_rule c t p"
    by (simp add: fork_rule_eq Let_def homestead_step_le_max adjustDifficulty_antimono
        pos_imp_zdiv_nonneg_iff fork_divisor_pos)
qed

section \<open>Properties\<close>

definition sample_parent :: Header where
  "sample_parent =
     \<lparr>ParentHash = 1, UncleHash = 2, Coinbase = 3, Root = 4, TxHash = 5, ReceiptHash = 6, Bloom = 0,
      Difficulty = 128000000000, Number = 40000, GasLimit = 4200000, GasUsed = 0, Time = 1000, Extra = [],
      MixDigest = 0, Nonce = 0, Version = 2\<rparr>"

text \<open>
  C20: \<open>calcDifficultyHFX\<close> never panics for a configuration with a chain id other than
  Ethereum's: it computes the table of hard-fork rules. With the highest fork activated at the height of the new block, below 9: for forks 0 and 1 the Homestead
  formula without the exponential term of the comment in the code; from fork 2 on, the difficulty of the parent plus or minus its part by the divisor of the
  fork, plus when less than the duration limit has elapsed; never less than the minimum of the fork, and just the minimum in the
  first block of forks 5 and 8. The grandparent header has no influence on the result.
\<close>

theorem calcDifficultyHFX_implements_table:
  assumes "ChainId c = Some i" and "0 \<le> i" and "i < 2 ^ 64" and "i \<noteq> 1" and "0 \<le> Difficulty parent"
  shows "calcDifficultyHFX e c time parent grandparent = Ret (fork_rule c time parent)"
  by (rule calcDifficultyHFX_eq [OF assms])

theorem calcDifficultyHFX_implements_table_witness:
  "calcDifficultyHFX 7 Testnet2ChainConfig 1100 sample_parent None =
     Ret (fork_rule Testnet2ChainConfig 1100 sample_parent) \<and>
   fork_rule Testnet2ChainConfig 1100 sample_parent = 144000000000"
proof
  show "calcDifficultyHFX 7 Testnet2ChainConfig 1100 sample_parent None =
     Ret (fork_rule Testnet2ChainConfig 1100 sample_parent)"
    by (rule calcDifficultyHFX_implements_table [where i = 4096])
      (simp_all add: sample_parent_def Testnet2ChainConfig_def)
  show "fork_rule Testnet2ChainConfig 1100 sample_parent = 144000000000"
    by code_simp
qed

text \<open>
  C21: A later timestamp never gives a higher difficulty: the whole algorithm, Ethereum
  rules included, is antitone in the time of the new block.
\<close>

theorem CalcDifficulty_antitone_in_time:
  assumes "ChainId c = Some i" and "0 \<le> i" and "i < 2 ^ 64" and "0 \<le> Difficulty parent" and "time \<le> time'"
  shows "\<exists>d d'. CalcDifficulty e (Some c) time parent grandparent = Ret d \<and>
    CalcDifficulty e (Some c) time' parent grandparent = Ret d' \<and> d' \<le> d"
proof (cases "i = 1")
  case True
  have "Uint64 1 = 1"
    by (simp add: word_uint_eq_iff uint_Uint64)
  with True assms show ?thesis
    using ethnet.rule_antimono [OF assms(4,5), of e c] by (simp add: CalcDifficulty_def calcDifficultyHFX_def Let_def)
next
  case False
  then show ?thesis
    using calcDifficultyHFX_eq [OF assms(1-3) False assms(4)] fork.rule_antimono [OF assms(4,5), of c]
    by (simp add: CalcDifficulty_def)
qed

theorem CalcDifficulty_antitone_in_time_witness:
  "\<exists>d d'. CalcDifficulty 7 (Some MainnetChainConfig) 1010 sample_parent None = Ret d \<and>
    CalcDifficulty 7 (Some MainnetChainConfig) 1500 sample_parent None = Ret d' \<and> d' \<le> d"
  by (rule CalcDifficulty_antitone_in_time [where i = 61717561])
    (simp_all add: sample_parent_def MainnetChainConfig_def)

text \<open>
  C22: On the main network the difficulty never falls below 46039386, and from hard fork 6
  on a block moves it by at most a 128th part of the difficulty of its parent.
\<close>

theorem mainnet_difficulty_bounds:
  assumes "ChainId c = Some 61717561" and "46039386 \<le> Difficulty parent"
  shows "\<exists>d. calcDifficultyHFX e c time parent grandparent = Ret d \<and> 46039386 \<le> d \<and>
    (UseHF c (Some (Number parent + 1)) \<in> {6, 7} \<longrightarrow> \<bar>d - Difficulty parent\<bar> \<le> Difficulty parent div 128)"
proof -
  let ?hf = "UseHF c (Some (Number parent + 1))"
  have "calcDifficultyHFX e c time parent grandparent = Ret (fork_rule c time parent)"
    using assms by (intro calcDifficultyHFX_eq [where i = 61717561]) simp_all
  moreover have "46039386 \<le> fork_rule c time parent"
    using fork.rule_floor [of parent c time] fork_minimum_bounds(2) [OF UseHF_bound, of c "Some (Number parent + 1)"] assms
    by simp
  moreover have "\<bar>fork_rule c time parent - Difficulty parent\<bar> \<le> Difficulty parent div 128" if "?hf \<in> {6, 7}"
    using that assms
      adjustDifficulty_step [of "Difficulty parent div 128" 46039386 parent time 180]
    by (auto simp: fork_rule_eq fork_limit_def fork_divisor_def fork_minimum_def pos_imp_zdiv_nonneg_iff)
  ultimately show ?thesis
    by blast
qed

theorem mainnet_difficulty_bounds_witness:
  "UseHF MainnetChainConfig (Some (Number sample_parent + 1)) \<in> {6, 7} \<and>
   (\<exists>d. calcDifficultyHFX 7 MainnetChainConfig 1100 sample_parent None = Ret d \<and> 46039386 \<le> d \<and>
    (UseHF MainnetChainConfig (Some (Number sample_parent + 1)) \<in> {6, 7} \<longrightarrow>
       \<bar>d - Difficulty sample_parent\<bar> \<le> Difficulty sample_parent div 128))"
proof
  show "UseHF MainnetChainConfig (Some (Number sample_parent + 1)) \<in> {6, 7}"
    by code_simp
qed (rule mainnet_difficulty_bounds; simp add: sample_parent_def MainnetChainConfig_def)

end
