(* ===== verification/State_Object.thy ===== *)
theory State_Object
  imports RLP_Raw "HOL-Library.AList"
begin

text \<open>
  Accounts and state objects (\<open>core/state/state_object.go\<close>).

  The trie behind the state is seen through its interface: a trie is the lookup function of
  its contents, where \<open>Broken\<close> stands for a key whose nodes cannot be read. The database
  (\<open>core/state/database.go\<close>), Keccak and the root hashes of tries are the fields of a
  \<open>Backend\<close>, a parameter of every operation that needs them. A storage trie holds the RLP
  encodings the code writes and splits.

  The callback \<open>onDirty\<close> is a flag: whether it is still set. Maps whose entries are iterated
  (\<open>dirtyStorage\<close>) are association lists, the others are functions.
\<close>

section \<open>Tries and the database\<close>

datatype 'v lookup = Absent | Found 'v | Broken

datatype db_error = ErrMissingNode | ErrStorageTrie | ErrStorageValue | ErrContractCode

definition TryUpdate :: "('k \<Rightarrow> 'v lookup) \<Rightarrow> 'k \<Rightarrow> 'v \<Rightarrow> db_error option \<times> ('k \<Rightarrow> 'v lookup)" where
  "TryUpdate t k v = (case t k of Broken \<Rightarrow> (Some ErrMissingNode, t) | _ \<Rightarrow> (None, t(k := Found v)))"

definition TryDelete :: "('k \<Rightarrow> 'v lookup) \<Rightarrow> 'k \<Rightarrow> db_error option \<times> ('k \<Rightarrow> 'v lookup)" where
  "TryDelete t k = (case t k of Broken \<Rightarrow> (Some ErrMissingNode, t) | _ \<Rightarrow> (None, t(k := Absent)))"

type_synonym storage_trie = "hash \<Rightarrow> bytes lookup"

record Account =
  acct_Nonce :: u64
  acct_Balance :: int
  acct_Root :: hash
  acct_CodeHash :: hash

record Backend =
  be_keccak :: "bytes \<Rightarrow> hash"
  be_OpenStorageTrie :: "hash \<Rightarrow> hash \<Rightarrow> storage_trie option"
  be_ContractCode :: "hash \<Rightarrow> hash \<Rightarrow> bytes option"
  be_ContractCodeSize :: "hash \<Rightarrow> hash \<Rightarrow> nat option"
  be_storageHash :: "storage_trie \<Rightarrow> hash"
  be_stateHash :: "(address \<Rightarrow> Account lookup) \<Rightarrow> hash"

definition emptyCodeHash :: "Backend \<Rightarrow> hash" where
  "emptyCodeHash be = be_keccak be []"

section \<open>State objects\<close>

record stateObject =
  so_address :: address
  so_addrHash :: hash
  so_data :: Account
  so_dbErr :: "db_error option"
  so_trie :: "storage_trie option"
  so_code :: "bytes option"
  so_cachedStorage :: "hash \<Rightarrow> hash option"
  so_dirtyStorage :: "(hash \<times> hash) list"
  so_dirtyCode :: bool
  so_suicided :: bool
  so_touched :: bool
  so_deleted :: bool
  so_onDirty :: bool

definition so_empty :: "Backend \<Rightarrow> stateObject \<Rightarrow> bool" where
  "so_empty be so \<longleftrightarrow>
     acct_Nonce (so_data so) = 0 \<and> acct_Balance (so_data so) = 0 \<and> acct_CodeHash (so_data so) = emptyCodeHash be"

text \<open>The account of \<open>createObject\<close>: nil balance and code hash are replaced by \<open>newObject\<close>.\<close>

definition emptyAccount :: "Backend \<Rightarrow> Account" where
  "emptyAccount be = \<lparr>acct_Nonce = 0, acct_Balance = 0, acct_Root = 0, acct_CodeHash = emptyCodeHash be\<rparr>"

definition newObject :: "Backend \<Rightarrow> address \<Rightarrow> Account \<Rightarrow> bool \<Rightarrow> stateObject" where
  "newObject be addr data onDirty =
     \<lparr>so_address = addr, so_addrHash = be_keccak be (Address_Bytes addr), so_data = data, so_dbErr = None,
      so_trie = None, so_code = None, so_cachedStorage = (\<lambda>_. None), so_dirtyStorage = [], so_dirtyCode = False,
      so_suicided = False, so_touched = False, so_deleted = False, so_onDirty = onDirty\<rparr>"

definition so_setError :: "db_error option \<Rightarrow> stateObject \<Rightarrow> stateObject" where
  "so_setError err so = (if so_dbErr so = None then so\<lparr>so_dbErr := err\<rparr> else so)"

text \<open>A trie with the zero root is empty and needs no database.\<close>

definition openTrie :: "Backend \<Rightarrow> hash \<Rightarrow> hash \<Rightarrow> storage_trie option" where
  "openTrie be addrHash root =
     (if root = 0 then Some (\<lambda>_. Absent) else be_OpenStorageTrie be addrHash root)"

definition getTrie :: "Backend \<Rightarrow> stateObject \<Rightarrow> storage_trie \<times> stateObject" where
  "getTrie be so =
     (case so_trie so of Some t \<Rightarrow> (t, so)
      | None \<Rightarrow>
        (case openTrie be (so_addrHash so) (acct_Root (so_data so)) of
           Some t \<Rightarrow> (t, so\<lparr>so_trie := Some t\<rparr>)
         | None \<Rightarrow> (\<lambda>_. Absent, so_setError (Some ErrStorageTrie) (so\<lparr>so_trie := Some (\<lambda>_. Absent)\<rparr>))))"

text \<open>Decoding and encoding of a storage value.\<close>

definition decodeSlot :: "bytes \<Rightarrow> db_error option \<times> hash" where
  "decodeSlot enc =
     (if enc = [] then (None, 0)
      else case Split enc of
          Ret (Inr (k, content, rest)) \<Rightarrow> (None, BytesToHash content)
        | _ \<Rightarrow> (Some ErrStorageValue, 0))"

definition encodeSlot :: "hash \<Rightarrow> bytes" where
  "encodeSlot value =
     (case EncodeToBytes (VBytes (dropWhile (\<lambda>b. b = 0) (Hash_Bytes value))) of
        Ret (Inr enc) \<Rightarrow> enc | _ \<Rightarrow> [])"

definition so_GetState :: "Backend \<Rightarrow> stateObject \<Rightarrow> hash \<Rightarrow> hash \<times> stateObject" where
  "so_GetState be so key =
     (case so_cachedStorage so key of Some value \<Rightarrow> (value, so)
      | None \<Rightarrow>
        (let (t, so) = getTrie be so in
         case t key of
           Broken \<Rightarrow> (0, so_setError (Some ErrMissingNode) so)
         | Absent \<Rightarrow> (0, so)
         | Found enc \<Rightarrow>
             (let (err, value) = decodeSlot enc;
                  so = (if err = None then so else so_setError err so)
              in (value, if value \<noteq> 0 then so\<lparr>so_cachedStorage := (so_cachedStorage so)(key \<mapsto> value)\<rparr> else so))))"

text \<open>\<open>updateTrie\<close> writes one dirty entry after the other; Go iterates them in any order.\<close>

definition writeSlot :: "hash \<times> hash \<Rightarrow> db_error option \<times> storage_trie \<Rightarrow> db_error option \<times> storage_trie" where
  "writeSlot kv et =
     (let (err, t) = et;
          (e, t) = (if snd kv = 0 then TryDelete t (fst kv) else TryUpdate t (fst kv) (encodeSlot (snd kv)))
      in (if err = None then e else err, t))"

definition so_updateTrie :: "Backend \<Rightarrow> stateObject \<Rightarrow> storage_trie \<times> stateObject" where
  "so_updateTrie be so =
     (let (t, so) = getTrie be so;
          (err, t) = fold writeSlot (so_dirtyStorage so) (so_dbErr so, t)
      in (t, so\<lparr>so_trie := Some t, so_dirtyStorage := [], so_dbErr := err\<rparr>))"

definition so_updateRoot :: "Backend \<Rightarrow> stateObject \<Rightarrow> stateObject" where
  "so_updateRoot be so =
     (let (t, so) = so_updateTrie be so
      in so\<lparr>so_data := (so_data so)\<lparr>acct_Root := be_storageHash be t\<rparr>\<rparr>)"

text \<open>\<open>CommitTrie\<close>; the commit of the storage trie itself does not fail in the model.\<close>

definition so_CommitTrie :: "Backend \<Rightarrow> stateObject \<Rightarrow> db_error option \<times> stateObject" where
  "so_CommitTrie be so =
     (let (t, so) = so_updateTrie be so
      in case so_dbErr so of Some e \<Rightarrow> (Some e, so)
         | None \<Rightarrow> (None, so\<lparr>so_data := (so_data so)\<lparr>acct_Root := be_storageHash be t\<rparr>\<rparr>))"

definition so_Code :: "Backend \<Rightarrow> stateObject \<Rightarrow> bytes option \<times> stateObject" where
  "so_Code be so =
     (case so_code so of Some c \<Rightarrow> (Some c, so)
      | None \<Rightarrow>
        if acct_CodeHash (so_data so) = emptyCodeHash be then (None, so)
        else (case be_ContractCode be (so_addrHash so) (acct_CodeHash (so_data so)) of
            Some c \<Rightarrow> (Some c, so\<lparr>so_code := Some c\<rparr>)
          | None \<Rightarrow> (None, so_setError (Some ErrContractCode) so)))"

definition so_deepCopy :: "Backend \<Rightarrow> stateObject \<Rightarrow> bool \<Rightarrow> stateObject" where
  "so_deepCopy be so onDirty =
     (newObject be (so_address so) (so_data so) onDirty)
       \<lparr>so_trie := so_trie so, so_code := so_code so, so_dirtyStorage := so_dirtyStorage so,
        so_cachedStorage := map_of (so_dirtyStorage so), so_suicided := so_suicided so,
        so_dirtyCode := so_dirtyCode so, so_deleted := so_deleted so\<rparr>"

end
