(* ===== verification/State_DB.thy ===== *)
theory State_DB
  imports State_Object
begin

text \<open>
  The state database with its journal (\<open>core/state/statedb.go\<close>, \<open>core/state/journal.go\<close>).

  An object is stored in the map by value: the code holds a pointer to a state object only
  within one operation, so writing the changed object back is what the pointer does. A
  journal entry is undone by a call that may panic on a missing account. The set of dirty
  addresses, iterated by \<open>Finalise\<close> and \<open>Commit\<close> in any order, is a list without duplicates.
\<close>

record Log =
  log_Address :: address
  log_Topics :: "hash list"
  log_Data :: bytes
  log_BlockNumber :: u64
  log_TxHash :: hash
  log_TxIndex :: nat
  log_BlockHash :: hash
  log_Index :: u64
  log_Removed :: bool

datatype journalEntry =
    createObjectChange address
  | resetObjectChange stateObject
  | suicideChange address bool int
  | balanceChange address int
  | nonceChange address u64
  | storageChange address hash hash
  | codeChange address "bytes option" hash
  | refundChange u64
  | addLogChange hash
  | addPreimageChange hash
  | touchChange address bool bool

record StateDB =
  sd_trie :: "address \<Rightarrow> Account lookup"
  sd_stateObjects :: "address \<Rightarrow> stateObject option"
  sd_stateObjectsDirty :: "address list"
  sd_dbErr :: "db_error option"
  sd_refund :: u64
  sd_thash :: hash
  sd_bhash :: hash
  sd_txIndex :: nat
  sd_logs :: "hash \<Rightarrow> Log list option"
  sd_logSize :: u64
  sd_preimages :: "hash \<Rightarrow> bytes option"
  sd_journal :: "journalEntry list"
  sd_validRevisions :: "(nat \<times> nat) list"
  sd_nextRevisionId :: nat

section \<open>Construction and small operations\<close>

definition state_New :: "(address \<Rightarrow> Account lookup) \<Rightarrow> StateDB" where
  "state_New tr =
     \<lparr>sd_trie = tr, sd_stateObjects = (\<lambda>_. None), sd_stateObjectsDirty = [], sd_dbErr = None, sd_refund = 0,
      sd_thash = 0, sd_bhash = 0, sd_txIndex = 0, sd_logs = (\<lambda>_. None), sd_logSize = 0, sd_preimages = (\<lambda>_. None),
      sd_journal = [], sd_validRevisions = [], sd_nextRevisionId = 0\<rparr>"

definition sd_setError :: "db_error option \<Rightarrow> StateDB \<Rightarrow> StateDB" where
  "sd_setError err s = (if sd_dbErr s = None then s\<lparr>sd_dbErr := err\<rparr> else s)"

definition clearJournalAndRefund :: "StateDB \<Rightarrow> StateDB" where
  "clearJournalAndRefund s = s\<lparr>sd_journal := [], sd_validRevisions := [], sd_refund := 0\<rparr>"

text \<open>\<open>Reset\<close> onto the trie that \<open>OpenTrie\<close> returned; the revision counter goes on.\<close>

definition state_Reset :: "(address \<Rightarrow> Account lookup) \<Rightarrow> StateDB \<Rightarrow> StateDB" where
  "state_Reset tr s =
     clearJournalAndRefund
       (s\<lparr>sd_trie := tr, sd_stateObjects := (\<lambda>_. None), sd_stateObjectsDirty := [], sd_thash := 0, sd_bhash := 0,
          sd_txIndex := 0, sd_logs := (\<lambda>_. None), sd_logSize := 0, sd_preimages := (\<lambda>_. None)\<rparr>)"

definition journal_append :: "journalEntry \<Rightarrow> StateDB \<Rightarrow> StateDB" where
  "journal_append e s = s\<lparr>sd_journal := sd_journal s @ [e]\<rparr>"

definition AddLog :: "Log \<Rightarrow> StateDB \<Rightarrow> StateDB" where
  "AddLog l s =
     (let s = journal_append (addLogChange (sd_thash s)) s;
          l = l\<lparr>log_TxHash := sd_thash s, log_BlockHash := sd_bhash s, log_TxIndex := sd_txIndex s,
                log_Index := sd_logSize s\<rparr>;
          old = (case sd_logs s (sd_thash s) of None \<Rightarrow> [] | Some ls \<Rightarrow> ls)
      in s\<lparr>sd_logs := (sd_logs s)(sd_thash s \<mapsto> old @ [l]), sd_logSize := sd_logSize s + 1\<rparr>)"

definition GetLogs :: "StateDB \<Rightarrow> hash \<Rightarrow> Log list" where
  "GetLogs s h = (case sd_logs s h of None \<Rightarrow> [] | Some ls \<Rightarrow> ls)"

definition AddPreimage :: "hash \<Rightarrow> bytes \<Rightarrow> StateDB \<Rightarrow> StateDB" where
  "AddPreimage h preimage s =
     (if sd_preimages s h = None then
        (let s = journal_append (addPreimageChange h) s
         in s\<lparr>sd_preimages := (sd_preimages s)(h \<mapsto> preimage)\<rparr>)
      else s)"

definition AddRefund :: "u64 \<Rightarrow> StateDB \<Rightarrow> StateDB" where
  "AddRefund gas s =
     (let s = journal_append (refundChange (sd_refund s)) s in s\<lparr>sd_refund := sd_refund s + gas\<rparr>)"

definition GetRefund :: "StateDB \<Rightarrow> u64" where
  "GetRefund s = sd_refund s"

definition state_Prepare :: "hash \<Rightarrow> hash \<Rightarrow> nat \<Rightarrow> StateDB \<Rightarrow> StateDB" where
  "state_Prepare thash bhash ti s = s\<lparr>sd_thash := thash, sd_bhash := bhash, sd_txIndex := ti\<rparr>"

section \<open>Objects\<close>

definition setStateObject :: "stateObject \<Rightarrow> StateDB \<Rightarrow> StateDB" where
  "setStateObject so s = s\<lparr>sd_stateObjects := (sd_stateObjects s)(so_address so \<mapsto> so)\<rparr>"

definition MarkStateObjectDirty :: "address \<Rightarrow> StateDB \<Rightarrow> StateDB" where
  "MarkStateObjectDirty addr s = s\<lparr>sd_stateObjectsDirty := List.insert addr (sd_stateObjectsDirty s)\<rparr>"

text \<open>The end of every setter: fire \<open>onDirty\<close> once, and keep the changed object.\<close>

definition fireDirty :: "stateObject \<Rightarrow> StateDB \<Rightarrow> StateDB" where
  "fireDirty so s =
     setStateObject (so\<lparr>so_onDirty := False\<rparr>) (if so_onDirty so then MarkStateObjectDirty (so_address so) s else s)"

definition getStateObject :: "Backend \<Rightarrow> address \<Rightarrow> StateDB \<Rightarrow> stateObject option \<times> StateDB" where
  "getStateObject be addr s =
     (case sd_stateObjects s addr of
        Some obj \<Rightarrow> (if so_deleted obj then None else Some obj, s)
      | None \<Rightarrow>
        (case sd_trie s addr of
           Broken \<Rightarrow> (None, sd_setError (Some ErrMissingNode) s)
         | Absent \<Rightarrow> (None, s)
         | Found data \<Rightarrow> (let obj = newObject be addr data True in (Some obj, setStateObject obj s))))"

definition so_setBalance :: "int \<Rightarrow> stateObject \<Rightarrow> StateDB \<Rightarrow> StateDB" where
  "so_setBalance amount so s = fireDirty (so\<lparr>so_data := (so_data so)\<lparr>acct_Balance := amount\<rparr>\<rparr>) s"

definition so_SetBalance :: "int \<Rightarrow> stateObject \<Rightarrow> StateDB \<Rightarrow> StateDB" where
  "so_SetBalance amount so s =
     so_setBalance amount so (journal_append (balanceChange (so_address so) (acct_Balance (so_data so))) s)"

definition so_setNonce :: "u64 \<Rightarrow> stateObject \<Rightarrow> StateDB \<Rightarrow> StateDB" where
  "so_setNonce nonce so s = fireDirty (so\<lparr>so_data := (so_data so)\<lparr>acct_Nonce := nonce\<rparr>\<rparr>) s"

definition so_SetNonce :: "u64 \<Rightarrow> stateObject \<Rightarrow> StateDB \<Rightarrow> StateDB" where
  "so_SetNonce nonce so s =
     so_setNonce nonce so (journal_append (nonceChange (so_address so) (acct_Nonce (so_data so))) s)"

definition so_setCode :: "hash \<Rightarrow> bytes option \<Rightarrow> stateObject \<Rightarrow> StateDB \<Rightarrow> StateDB" where
  "so_setCode codeHash code so s =
     fireDirty (so\<lparr>so_code := code, so_data := (so_data so)\<lparr>acct_CodeHash := codeHash\<rparr>, so_dirtyCode := True\<rparr>) s"

definition so_SetCode :: "Backend \<Rightarrow> hash \<Rightarrow> bytes option \<Rightarrow> stateObject \<Rightarrow> StateDB \<Rightarrow> StateDB" where
  "so_SetCode be codeHash code so s =
     (let (prevcode, so) = so_Code be so
      in so_setCode codeHash code so
           (journal_append (codeChange (so_address so) prevcode (acct_CodeHash (so_data so))) s))"

definition so_setState :: "hash \<Rightarrow> hash \<Rightarrow> stateObject \<Rightarrow> StateDB \<Rightarrow> StateDB" where
  "so_setState key value so s =
     fireDirty (so\<lparr>so_cachedStorage := (so_cachedStorage so)(key \<mapsto> value),
                   so_dirtyStorage := AList.update key value (so_dirtyStorage so)\<rparr>) s"

definition so_SetState :: "Backend \<Rightarrow> hash \<Rightarrow> hash \<Rightarrow> stateObject \<Rightarrow> StateDB \<Rightarrow> StateDB" where
  "so_SetState be key value so s =
     (let (prev, so) = so_GetState be so key
      in so_setState key value so (journal_append (storageChange (so_address so) key prev) s))"

definition so_touch :: "stateObject \<Rightarrow> StateDB \<Rightarrow> StateDB" where
  "so_touch so s =
     fireDirty (so\<lparr>so_touched := True\<rparr>)
       (journal_append (touchChange (so_address so) (so_touched so) (\<not> so_onDirty so)) s)"

definition so_AddBalance :: "Backend \<Rightarrow> int \<Rightarrow> stateObject \<Rightarrow> StateDB \<Rightarrow> StateDB" where
  "so_AddBalance be amount so s =
     (if amount = 0 then (if so_empty be so then so_touch so s else s)
      else so_SetBalance (acct_Balance (so_data so) + amount) so s)"

definition so_SubBalance :: "int \<Rightarrow> stateObject \<Rightarrow> StateDB \<Rightarrow> StateDB" where
  "so_SubBalance amount so s =
     (if amount = 0 then s else so_SetBalance (acct_Balance (so_data so) - amount) so s)"

text \<open>
  \<open>createObject\<close>: the fresh object is marked dirty by \<open>setNonce(0)\<close> before it is entered into
  the map; the second result is the object it replaces.
\<close>

definition createObject :: "Backend \<Rightarrow> address \<Rightarrow> StateDB \<Rightarrow> stateObject \<times> stateObject option \<times> StateDB" where
  "createObject be addr s =
     (let (prev, s) = getStateObject be addr s;
          newobj = newObject be addr (emptyAccount be) True;
          s = MarkStateObjectDirty addr s;
          newobj = newobj\<lparr>so_onDirty := False\<rparr>;
          s = journal_append (case prev of None \<Rightarrow> createObjectChange addr | Some p \<Rightarrow> resetObjectChange p) s
      in (newobj, prev, setStateObject newobj s))"

definition GetOrNewStateObject :: "Backend \<Rightarrow> address \<Rightarrow> StateDB \<Rightarrow> stateObject \<times> StateDB" where
  "GetOrNewStateObject be addr s =
     (let (so, s) = getStateObject be addr s
      in case so of
           Some o' \<Rightarrow> if so_deleted o' then (let (n, _, s) = createObject be addr s in (n, s)) else (o', s)
         | None \<Rightarrow> (let (n, _, s) = createObject be addr s in (n, s)))"

definition CreateAccount :: "Backend \<Rightarrow> address \<Rightarrow> StateDB \<Rightarrow> StateDB" where
  "CreateAccount be addr s =
     (let (newobj, prev, s) = createObject be addr s
      in case prev of None \<Rightarrow> s | Some p \<Rightarrow> so_setBalance (acct_Balance (so_data p)) newobj s)"

section \<open>Queries\<close>

definition state_Exist :: "Backend \<Rightarrow> address \<Rightarrow> StateDB \<Rightarrow> bool \<times> StateDB" where
  "state_Exist be addr s = (let (so, s) = getStateObject be addr s in (so \<noteq> None, s))"

definition state_Empty :: "Backend \<Rightarrow> address \<Rightarrow> StateDB \<Rightarrow> bool \<times> StateDB" where
  "state_Empty be addr s =
     (let (so, s) = getStateObject be addr s
      in (case so of None \<Rightarrow> True | Some o' \<Rightarrow> so_empty be o', s))"

definition GetBalance :: "Backend \<Rightarrow> address \<Rightarrow> StateDB \<Rightarrow> int \<times> StateDB" where
  "GetBalance be addr s =
     (let (so, s) = getStateObject be addr s
      in (case so of None \<Rightarrow> 0 | Some o' \<Rightarrow> acct_Balance (so_data o'), s))"

definition GetNonce :: "Backend \<Rightarrow> address \<Rightarrow> StateDB \<Rightarrow> u64 \<times> StateDB" where
  "GetNonce be addr s =
     (let (so, s) = getStateObject be addr s
      in (case so of None \<Rightarrow> 0 | Some o' \<Rightarrow> acct_Nonce (so_data o'), s))"

definition GetCode :: "Backend \<Rightarrow> address \<Rightarrow> StateDB \<Rightarrow> bytes option \<times> StateDB" where
  "GetCode be addr s =
     (let (so, s) = getStateObject be addr s
      in case so of None \<Rightarrow> (None, s)
         | Some o' \<Rightarrow> (let (c, o') = so_Code be o' in (c, setStateObject o' s)))"

definition GetCodeSize :: "Backend \<Rightarrow> address \<Rightarrow> StateDB \<Rightarrow> nat \<times> StateDB" where
  "GetCodeSize be addr s =
     (let (so, s) = getStateObject be addr s
      in case so of None \<Rightarrow> (0, s)
         | Some o' \<Rightarrow>
           (case so_code o' of Some c \<Rightarrow> (length c, s)
            | None \<Rightarrow>
              (case be_ContractCodeSize be (so_addrHash o') (acct_CodeHash (so_data o')) of
                 Some n \<Rightarrow> (n, s) | None \<Rightarrow> (0, sd_setError (Some ErrContractCode) s))))"

definition GetCodeHash :: "Backend \<Rightarrow> address \<Rightarrow> StateDB \<Rightarrow> hash \<times> StateDB" where
  "GetCodeHash be addr s =
     (let (so, s) = getStateObject be addr s
      in (case so of None \<Rightarrow> 0 | Some o' \<Rightarrow> acct_CodeHash (so_data o'), s))"

definition GetState :: "Backend \<Rightarrow> address \<Rightarrow> hash \<Rightarrow> StateDB \<Rightarrow> hash \<times> StateDB" where
  "GetState be addr key s =
     (let (so, s) = getStateObject be addr s
      in case so of None \<Rightarrow> (0, s)
         | Some o' \<Rightarrow> (let (v, o') = so_GetState be o' key in (v, setStateObject o' s)))"

definition HasSuicided :: "Backend \<Rightarrow> address \<Rightarrow> StateDB \<Rightarrow> bool \<times> StateDB" where
  "HasSuicided be addr s =
     (let (so, s) = getStateObject be addr s
      in (case so of None \<Rightarrow> False | Some o' \<Rightarrow> so_suicided o', s))"

section \<open>Setters\<close>

definition AddBalance :: "Backend \<Rightarrow> address \<Rightarrow> int \<Rightarrow> StateDB \<Rightarrow> StateDB" where
  "AddBalance be addr amount s = (let (so, s) = GetOrNewStateObject be addr s in so_AddBalance be amount so s)"

definition SubBalance :: "Backend \<Rightarrow> address \<Rightarrow> int \<Rightarrow> StateDB \<Rightarrow> StateDB" where
  "SubBalance be addr amount s = (let (so, s) = GetOrNewStateObject be addr s in so_SubBalance amount so s)"

definition SetBalance :: "Backend \<Rightarrow> address \<Rightarrow> int \<Rightarrow> StateDB \<Rightarrow> StateDB" where
  "SetBalance be addr amount s = (let (so, s) = GetOrNewStateObject be addr s in so_SetBalance amount so s)"

definition SetNonce :: "Backend \<Rightarrow> address \<Rightarrow> u64 \<Rightarrow> StateDB \<Rightarrow> StateDB" where
  "SetNonce be addr nonce s = (let (so, s) = GetOrNewStateObject be addr s in so_SetNonce nonce so s)"

definition SetCode :: "Backend \<Rightarrow> address \<Rightarrow> bytes \<Rightarrow> StateDB \<Rightarrow> StateDB" where
  "SetCode be addr code s =
     (let (so, s) = GetOrNewStateObject be addr s in so_SetCode be (be_keccak be code) (Some code) so s)"

definition SetState :: "Backend \<Rightarrow> address \<Rightarrow> hash \<Rightarrow> hash \<Rightarrow> StateDB \<Rightarrow> StateDB" where
  "SetState be addr key value s = (let (so, s) = GetOrNewStateObject be addr s in so_SetState be key value so s)"

definition Suicide :: "Backend \<Rightarrow> address \<Rightarrow> StateDB \<Rightarrow> bool \<times> StateDB" where
  "Suicide be addr s =
     (let (so, s) = getStateObject be addr s
      in case so of None \<Rightarrow> (False, s)
         | Some o' \<Rightarrow>
           (let s = journal_append (suicideChange addr (so_suicided o') (acct_Balance (so_data o'))) s
            in (True, fireDirty (o'\<lparr>so_suicided := True, so_data := (so_data o')\<lparr>acct_Balance := 0\<rparr>\<rparr>) s)))"

section \<open>Snapshots\<close>

definition deleteObject :: "address \<Rightarrow> StateDB \<Rightarrow> StateDB" where
  "deleteObject addr s = s\<lparr>sd_stateObjects := (sd_stateObjects s)(addr := None)\<rparr>"

definition deleteDirty :: "address \<Rightarrow> StateDB \<Rightarrow> StateDB" where
  "deleteDirty addr s = s\<lparr>sd_stateObjectsDirty := removeAll addr (sd_stateObjectsDirty s)\<rparr>"

text \<open>A method call on the object of an account panics if there is none.\<close>

definition withObject :: "Backend \<Rightarrow> address \<Rightarrow> (stateObject \<Rightarrow> StateDB \<Rightarrow> StateDB) \<Rightarrow> StateDB \<Rightarrow> StateDB go" where
  "withObject be addr f s =
     (let (so, s) = getStateObject be addr s in case so of None \<Rightarrow> Panic | Some o' \<Rightarrow> Ret (f o' s))"

abbreviation (input) ripemd :: address where "ripemd \<equiv> 3"

fun journal_undo :: "Backend \<Rightarrow> journalEntry \<Rightarrow> StateDB \<Rightarrow> StateDB go" where
  "journal_undo be (createObjectChange addr) s = Ret (deleteDirty addr (deleteObject addr s))"
| "journal_undo be (resetObjectChange prev) s = Ret (setStateObject prev s)"
| "journal_undo be (suicideChange addr prev prevbalance) s =
     (let (so, s) = getStateObject be addr s
      in case so of None \<Rightarrow> Ret s
         | Some o' \<Rightarrow> Ret (so_setBalance prevbalance (o'\<lparr>so_suicided := prev\<rparr>) s))"
| "journal_undo be (touchChange addr prev prevDirty) s =
     (if \<not> prev \<and> addr \<noteq> ripemd
      then withObject be addr (\<lambda>so s.
             let s = setStateObject (so\<lparr>so_touched := prev\<rparr>) s in if \<not> prevDirty then deleteDirty addr s else s) s
      else Ret s)"
| "journal_undo be (balanceChange addr prev) s = withObject be addr (so_setBalance prev) s"
| "journal_undo be (nonceChange addr prev) s = withObject be addr (so_setNonce prev) s"
| "journal_undo be (codeChange addr prevcode prevhash) s = withObject be addr (so_setCode prevhash prevcode) s"
| "journal_undo be (storageChange addr key prevalue) s = withObject be addr (so_setState key prevalue) s"
| "journal_undo be (refundChange prev) s = Ret (s\<lparr>sd_refund := prev\<rparr>)"
| "journal_undo be (addLogChange txhash) s =
     (let logs = (case sd_logs s txhash of None \<Rightarrow> [] | Some ls \<Rightarrow> ls)
      in if logs = [] then Panic
         else Ret (s\<lparr>sd_logs := (sd_logs s)(txhash := if length logs = 1 then None else Some (butlast logs)),
                     sd_logSize := sd_logSize s - 1\<rparr>))"
| "journal_undo be (addPreimageChange h) s = Ret (s\<lparr>sd_preimages := (sd_preimages s)(h := None)\<rparr>)"

text \<open>\<open>sort.Search\<close> of the Go library: binary search for the least index with the property.\<close>

function sort_Search_loop :: "(nat \<Rightarrow> bool) \<Rightarrow> nat \<Rightarrow> nat \<Rightarrow> nat" where
  "sort_Search_loop f i j =
     (if i < j then let h = (i + j) div 2 in if \<not> f h then sort_Search_loop f (h + 1) j else sort_Search_loop f i h
      else i)"
  by auto
termination
  by (relation "measure (\<lambda>(f, i, j). j - i)") auto

declare sort_Search_loop.simps [simp del]

definition sort_Search :: "nat \<Rightarrow> (nat \<Rightarrow> bool) \<Rightarrow> nat" where
  "sort_Search n f = sort_Search_loop f 0 n"

definition Snapshot :: "StateDB \<Rightarrow> nat \<times> StateDB" where
  "Snapshot s =
     (sd_nextRevisionId s,
      s\<lparr>sd_nextRevisionId := sd_nextRevisionId s + 1,
        sd_validRevisions := sd_validRevisions s @ [(sd_nextRevisionId s, length (sd_journal s))]\<rparr>)"

text \<open>The entries are undone from the last to the first.\<close>

primrec undo_all :: "Backend \<Rightarrow> journalEntry list \<Rightarrow> StateDB \<Rightarrow> StateDB go" where
  "undo_all be [] s = Ret s"
| "undo_all be (e # es) s = go_bind (journal_undo be e s) (undo_all be es)"

definition RevertToSnapshot :: "Backend \<Rightarrow> nat \<Rightarrow> StateDB \<Rightarrow> StateDB go" where
  "RevertToSnapshot be revid s =
     (let revs = sd_validRevisions s;
          idx = sort_Search (length revs) (\<lambda>i. revid \<le> fst (revs ! i))
      in if idx = length revs \<or> fst (revs ! idx) \<noteq> revid then Panic
         else
           let snapshot = snd (revs ! idx)
           in go_bind (undo_all be (rev (drop snapshot (sd_journal s))) s) (\<lambda>s.
                Ret (s\<lparr>sd_journal := take snapshot (sd_journal s), sd_validRevisions := take idx revs\<rparr>)))"

end
