(* ===== verification/State_View.thy ===== *)
theory State_View
  imports State_DB
begin

text \<open>
  What the state database shows. \<open>view\<close> is what the queries observe of an account; it
  abstracts from the caches. \<open>sim\<close> relates states with the same observations, and \<open>objs_ok\<close> is
  the invariant of the object map. The lemmas say how writing an object, firing its dirty
  callback and loading it from the trie change the view.
\<close>

section \<open>Observations\<close>

record acct_view =
  av_nonce :: u64
  av_balance :: int
  av_root :: hash
  av_codeHash :: hash
  av_code :: "bytes option"
  av_suicided :: bool
  av_storage :: "hash \<Rightarrow> hash"

definition trie_of :: "Backend \<Rightarrow> stateObject \<Rightarrow> storage_trie" where
  "trie_of be so =
     (case so_trie so of Some t \<Rightarrow> t
      | None \<Rightarrow> (case openTrie be (so_addrHash so) (acct_Root (so_data so)) of Some t \<Rightarrow> t | None \<Rightarrow> (\<lambda>_. Absent)))"

definition slot_in :: "storage_trie \<Rightarrow> hash \<Rightarrow> hash" where
  "slot_in t key = (case t key of Found enc \<Rightarrow> snd (decodeSlot enc) | _ \<Rightarrow> 0)"

definition slot_of :: "Backend \<Rightarrow> stateObject \<Rightarrow> hash \<Rightarrow> hash" where
  "slot_of be so key =
     (case so_cachedStorage so key of Some v \<Rightarrow> v | None \<Rightarrow> slot_in (trie_of be so) key)"

definition code_of :: "Backend \<Rightarrow> stateObject \<Rightarrow> bytes option" where
  "code_of be so =
     (case so_code so of Some c \<Rightarrow> Some c
      | None \<Rightarrow> if acct_CodeHash (so_data so) = emptyCodeHash be then None
                else be_ContractCode be (so_addrHash so) (acct_CodeHash (so_data so)))"

definition so_view :: "Backend \<Rightarrow> stateObject \<Rightarrow> acct_view" where
  "so_view be so =
     \<lparr>av_nonce = acct_Nonce (so_data so), av_balance = acct_Balance (so_data so), av_root = acct_Root (so_data so),
      av_codeHash = acct_CodeHash (so_data so), av_code = code_of be so, av_suicided = so_suicided so,
      av_storage = slot_of be so\<rparr>"

text \<open>The object an access finds: the live one, or a fresh one loaded from the trie.\<close>

definition obj_at :: "Backend \<Rightarrow> StateDB \<Rightarrow> address \<Rightarrow> stateObject option" where
  "obj_at be s a =
     (case sd_stateObjects s a of Some o' \<Rightarrow> if so_deleted o' then None else Some o'
      | None \<Rightarrow> (case sd_trie s a of Found d \<Rightarrow> Some (newObject be a d True) | _ \<Rightarrow> None))"

definition view :: "Backend \<Rightarrow> StateDB \<Rightarrow> address \<Rightarrow> acct_view option" where
  "view be s a = map_option (so_view be) (obj_at be s a)"

lemma trie_of_update [simp]:
  "trie_of be (so\<lparr>so_dbErr := e\<rparr>) = trie_of be so"
  "trie_of be (so\<lparr>so_code := c\<rparr>) = trie_of be so"
  "trie_of be (so\<lparr>so_cachedStorage := m\<rparr>) = trie_of be so"
  "trie_of be (so\<lparr>so_dirtyStorage := d\<rparr>) = trie_of be so"
  "trie_of be (so\<lparr>so_dirtyCode := b\<rparr>) = trie_of be so"
  "trie_of be (so\<lparr>so_suicided := b\<rparr>) = trie_of be so"
  "trie_of be (so\<lparr>so_touched := b\<rparr>) = trie_of be so"
  "trie_of be (so\<lparr>so_deleted := b\<rparr>) = trie_of be so"
  "trie_of be (so\<lparr>so_onDirty := b\<rparr>) = trie_of be so"
  "acct_Root d' = acct_Root (so_data so) \<Longrightarrow> trie_of be (so\<lparr>so_data := d'\<rparr>) = trie_of be so"
  by (cases "so_trie so"; simp add: trie_of_def)+

lemma code_of_update [simp]:
  "code_of be (so\<lparr>so_dbErr := e\<rparr>) = code_of be so"
  "code_of be (so\<lparr>so_trie := t\<rparr>) = code_of be so"
  "code_of be (so\<lparr>so_cachedStorage := m\<rparr>) = code_of be so"
  "code_of be (so\<lparr>so_dirtyStorage := d\<rparr>) = code_of be so"
  "code_of be (so\<lparr>so_dirtyCode := b\<rparr>) = code_of be so"
  "code_of be (so\<lparr>so_suicided := b\<rparr>) = code_of be so"
  "code_of be (so\<lparr>so_touched := b\<rparr>) = code_of be so"
  "code_of be (so\<lparr>so_deleted := b\<rparr>) = code_of be so"
  "code_of be (so\<lparr>so_onDirty := b\<rparr>) = code_of be so"
  "acct_CodeHash d' = acct_CodeHash (so_data so) \<Longrightarrow> code_of be (so\<lparr>so_data := d'\<rparr>) = code_of be so"
  by (cases "so_code so"; simp add: code_of_def)+

lemma slot_of_eqI:
  "so_cachedStorage so = so_cachedStorage so' \<Longrightarrow> trie_of be so = trie_of be so' \<Longrightarrow> slot_of be so = slot_of be so'"
  by (rule ext) (simp add: slot_of_def split: option.split)

text \<open>How a write to an object changes what is observed of it.\<close>

lemma so_view_update [simp]:
  "so_view be (so\<lparr>so_dbErr := e\<rparr>) = so_view be so"
  "so_view be (so\<lparr>so_dirtyStorage := d\<rparr>) = so_view be so"
  "so_view be (so\<lparr>so_dirtyCode := b\<rparr>) = so_view be so"
  "so_view be (so\<lparr>so_touched := b\<rparr>) = so_view be so"
  "so_view be (so\<lparr>so_deleted := b\<rparr>) = so_view be so"
  "so_view be (so\<lparr>so_onDirty := b\<rparr>) = so_view be so"
  "so_view be (so\<lparr>so_suicided := b\<rparr>) = (so_view be so)\<lparr>av_suicided := b\<rparr>"
  "so_view be (so\<lparr>so_data := (so_data so)\<lparr>acct_Balance := i\<rparr>\<rparr>) = (so_view be so)\<lparr>av_balance := i\<rparr>"
  "so_view be (so\<lparr>so_data := (so_data so)\<lparr>acct_Nonce := n\<rparr>\<rparr>) = (so_view be so)\<lparr>av_nonce := n\<rparr>"
  by (simp_all add: so_view_def slot_of_eqI [of "so\<lparr>so_dbErr := e\<rparr>" so]
      slot_of_eqI [of "so\<lparr>so_dirtyStorage := d\<rparr>" so] slot_of_eqI [of "so\<lparr>so_dirtyCode := b\<rparr>" so]
      slot_of_eqI [of "so\<lparr>so_touched := b\<rparr>" so] slot_of_eqI [of "so\<lparr>so_deleted := b\<rparr>" so]
      slot_of_eqI [of "so\<lparr>so_onDirty := b\<rparr>" so] slot_of_eqI [of "so\<lparr>so_suicided := b\<rparr>" so]
      slot_of_eqI [of "so\<lparr>so_data := (so_data so)\<lparr>acct_Balance := i\<rparr>\<rparr>" so]
      slot_of_eqI [of "so\<lparr>so_data := (so_data so)\<lparr>acct_Nonce := n\<rparr>\<rparr>" so])

lemma so_view_set_cached:
  "so_view be (so\<lparr>so_cachedStorage := (so_cachedStorage so)(key \<mapsto> v)\<rparr>) =
     (so_view be so)\<lparr>av_storage := (av_storage (so_view be so))(key := v)\<rparr>"
  by (auto simp: so_view_def slot_of_def fun_eq_iff split: option.split)

lemma so_view_set_code:
  "so_view be (so\<lparr>so_code := c, so_data := (so_data so)\<lparr>acct_CodeHash := h\<rparr>\<rparr>) =
     (so_view be so)\<lparr>av_codeHash := h,
        av_code := (case c of Some c \<Rightarrow> Some c
                    | None \<Rightarrow> if h = emptyCodeHash be then None else be_ContractCode be (so_addrHash so) h)\<rparr>"
proof -
  have "trie_of be (so\<lparr>so_code := c, so_data := (so_data so)\<lparr>acct_CodeHash := h\<rparr>\<rparr>) = trie_of be so"
    by (cases "so_trie so") (simp_all add: trie_of_def)
  then have "slot_of be (so\<lparr>so_code := c, so_data := (so_data so)\<lparr>acct_CodeHash := h\<rparr>\<rparr>) = slot_of be so"
    by (intro slot_of_eqI) simp_all
  then show ?thesis
    by (cases c) (simp_all add: so_view_def code_of_def)
qed

lemma fst_getStateObject: "fst (getStateObject be a s) = obj_at be s a"
  by (simp add: getStateObject_def obj_at_def Let_def split: option.split lookup.split)

lemma getTrie_eq: "fst (getTrie be so) = trie_of be so"
  by (simp add: getTrie_def trie_of_def split: option.split)

lemma so_setError_simps [simp]:
  "so_view be (so_setError e so) = so_view be so" "so_address (so_setError e so) = so_address so"
  "so_addrHash (so_setError e so) = so_addrHash so" "so_deleted (so_setError e so) = so_deleted so"
  "so_cachedStorage (so_setError e so) = so_cachedStorage so" "so_onDirty (so_setError e so) = so_onDirty so"
  "so_data (so_setError e so) = so_data so" "so_suicided (so_setError e so) = so_suicided so"
  "so_touched (so_setError e so) = so_touched so" "so_dirtyStorage (so_setError e so) = so_dirtyStorage so"
  "trie_of be (so_setError e so) = trie_of be so" "so_code (so_setError e so) = so_code so"
  by (simp_all add: so_setError_def)

text \<open>Filling a cache keeps everything but the caches.\<close>

definition same_core :: "stateObject \<Rightarrow> stateObject \<Rightarrow> bool" where
  "same_core so so' \<longleftrightarrow>
     so_address so' = so_address so \<and> so_addrHash so' = so_addrHash so \<and> so_data so' = so_data so \<and>
     so_dirtyStorage so' = so_dirtyStorage so \<and> so_suicided so' = so_suicided so \<and> so_touched so' = so_touched so \<and>
     so_deleted so' = so_deleted so \<and> so_onDirty so' = so_onDirty so"

lemma getTrie_core: "same_core so (snd (getTrie be so)) \<and> so_view be (snd (getTrie be so)) = so_view be so \<and>
    so_cachedStorage (snd (getTrie be so)) = so_cachedStorage so \<and> trie_of be (snd (getTrie be so)) = trie_of be so"
proof -
  have *: "so_view be (so\<lparr>so_trie := Some t\<rparr>) = so_view be so \<and> trie_of be (so\<lparr>so_trie := Some t\<rparr>) = trie_of be so"
    if "t = trie_of be so" for t
  proof -
    have "trie_of be (so\<lparr>so_trie := Some t\<rparr>) = trie_of be so"
      using that by (simp add: trie_of_def)
    then show ?thesis
      using slot_of_eqI [of "so\<lparr>so_trie := Some t\<rparr>" so be] by (simp add: so_view_def)
  qed
  show ?thesis
  proof (cases "so_trie so")
    case None
    show ?thesis
    proof (cases "openTrie be (so_addrHash so) (acct_Root (so_data so))")
      case None
      then have "trie_of be so = (\<lambda>_. Absent)"
        using \<open>so_trie so = None\<close> by (simp add: trie_of_def)
      then show ?thesis
        using * [of "\<lambda>_. Absent"] None \<open>so_trie so = None\<close> by (simp add: getTrie_def same_core_def)
    next
      case (Some t)
      then have "trie_of be so = t"
        using None by (simp add: trie_of_def)
      then show ?thesis
        using * [of t] None Some by (simp add: getTrie_def same_core_def)
    qed
  qed (simp add: getTrie_def same_core_def)
qed

lemma so_GetState_value: "fst (so_GetState be so key) = slot_of be so key"
proof -
  obtain t so' where t: "getTrie be so = (t, so')"
    by fastforce
  then have "t = trie_of be so"
    using getTrie_eq [of be so] by simp
  then show ?thesis
    by (auto simp: so_GetState_def slot_of_def slot_in_def t Let_def split: option.split lookup.split prod.split)
qed

lemma so_view_cache:
  "slot_in (trie_of be so) key = value \<Longrightarrow> so_cachedStorage so key = None \<Longrightarrow>
     so_view be (so\<lparr>so_cachedStorage := (so_cachedStorage so)(key \<mapsto> value)\<rparr>) = so_view be so"
  by (auto simp: so_view_set_cached so_view_def slot_of_def fun_eq_iff split: option.split)

lemma so_GetState_core:
  "same_core so (snd (so_GetState be so key)) \<and> so_view be (snd (so_GetState be so key)) = so_view be so"
proof (cases "so_cachedStorage so key")
  case None
  obtain t so' where t: "getTrie be so = (t, so')"
    by fastforce
  then have t': "t = trie_of be so" and core: "same_core so so'" "so_view be so' = so_view be so"
      "so_cachedStorage so' = so_cachedStorage so" "trie_of be so' = trie_of be so"
    using getTrie_eq [of be so] getTrie_core [of so be] by auto
  show ?thesis
  proof (cases "t key")
    case (Found enc)
    let ?so = "if fst (decodeSlot enc) = None then so' else so_setError (fst (decodeSlot enc)) so'"
    have so: "same_core so ?so" "so_view be ?so = so_view be so" "so_cachedStorage ?so = so_cachedStorage so"
        "trie_of be ?so = trie_of be so"
      using core by (auto simp: same_core_def)
    have "slot_in (trie_of be ?so) key = snd (decodeSlot enc)"
      using Found t' so(4) by (simp add: slot_in_def)
    then have "so_view be (?so\<lparr>so_cachedStorage := (so_cachedStorage ?so)(key \<mapsto> snd (decodeSlot enc))\<rparr>) = so_view be so"
      using so_view_cache [of be ?so key] so(2,3) None by simp
    moreover have "snd (so_GetState be so key) =
        (if snd (decodeSlot enc) \<noteq> 0
         then ?so\<lparr>so_cachedStorage := (so_cachedStorage ?so)(key \<mapsto> snd (decodeSlot enc))\<rparr> else ?so)"
      using None Found t by (simp add: so_GetState_def Let_def split: prod.split)
    ultimately show ?thesis
      using so(1,2) by (simp add: same_core_def)
  qed (use None t core in \<open>simp_all add: so_GetState_def same_core_def\<close>)
qed (simp add: so_GetState_def same_core_def)

lemma so_Code_value: "fst (so_Code be so) = code_of be so"
  by (simp add: so_Code_def code_of_def split: option.split)

lemma so_Code_core: "same_core so (snd (so_Code be so)) \<and> so_view be (snd (so_Code be so)) = so_view be so"
proof -
  have "so_view be (so\<lparr>so_code := Some c\<rparr>) = so_view be so" if "code_of be so = Some c" for c
    using that slot_of_eqI [of "so\<lparr>so_code := Some c\<rparr>" so be] by (simp add: so_view_def code_of_def)
  then show ?thesis
    by (auto simp: so_Code_def same_core_def code_of_def split: option.split)
qed

section \<open>Well-formed states\<close>

definition obj_ok :: "Backend \<Rightarrow> address \<Rightarrow> stateObject \<Rightarrow> bool" where
  "obj_ok be a so \<longleftrightarrow>
     so_address so = a \<and> so_addrHash so = be_keccak be (Address_Bytes a) \<and>
     distinct (map fst (so_dirtyStorage so)) \<and> map_of (so_dirtyStorage so) \<subseteq>\<^sub>m so_cachedStorage so"

text \<open>An object that \<open>Finalise\<close> deleted is no longer in the trie.\<close>

definition objs_ok :: "Backend \<Rightarrow> StateDB \<Rightarrow> bool" where
  "objs_ok be s \<longleftrightarrow>
     (\<forall>a so. sd_stateObjects s a = Some so \<longrightarrow> obj_ok be a so \<and> (so_deleted so \<longrightarrow> (\<forall>d. sd_trie s a \<noteq> Found d))) \<and>
     set (sd_stateObjectsDirty s) \<subseteq> dom (sd_stateObjects s) \<and> distinct (sd_stateObjectsDirty s) \<and>
     (\<forall>h. sd_logs s h \<noteq> Some [])"

primrec entry_ok :: "Backend \<Rightarrow> journalEntry \<Rightarrow> bool" where
  "entry_ok be (createObjectChange a) = True"
| "entry_ok be (resetObjectChange p) = (obj_ok be (so_address p) p \<and> \<not> so_deleted p)"
| "entry_ok be (suicideChange a b i) = True"
| "entry_ok be (balanceChange a i) = True"
| "entry_ok be (nonceChange a n) = True"
| "entry_ok be (storageChange a k v) = True"
| "entry_ok be (codeChange a c h) = True"
| "entry_ok be (refundChange g) = True"
| "entry_ok be (addLogChange h) = True"
| "entry_ok be (addPreimageChange h) = True"
| "entry_ok be (touchChange a b d) = True"

text \<open>States with the same observations.\<close>

definition sim :: "Backend \<Rightarrow> StateDB \<Rightarrow> StateDB \<Rightarrow> bool" where
  "sim be s t \<longleftrightarrow>
     sd_trie s = sd_trie t \<and> view be s = view be t \<and> sd_refund s = sd_refund t \<and> sd_logs s = sd_logs t \<and>
     sd_logSize s = sd_logSize t \<and> sd_preimages s = sd_preimages t \<and> sd_thash s = sd_thash t \<and>
     sd_bhash s = sd_bhash t \<and> sd_txIndex s = sd_txIndex t"

lemma sim_refl [simp, intro]: "sim be s s"
  and sim_sym: "sim be s t \<Longrightarrow> sim be t s"
  and sim_trans [trans]: "sim be s t \<Longrightarrow> sim be t u \<Longrightarrow> sim be s u"
  by (simp_all add: sim_def)

text \<open>What only concerns the journal.\<close>

definition same_log :: "StateDB \<Rightarrow> StateDB \<Rightarrow> bool" where
  "same_log s s' \<longleftrightarrow>
     sd_journal s' = sd_journal s \<and> sd_validRevisions s' = sd_validRevisions s \<and>
     sd_nextRevisionId s' = sd_nextRevisionId s"

lemma same_log_refl [simp, intro]: "same_log s s"
  and same_log_trans: "same_log s t \<Longrightarrow> same_log t u \<Longrightarrow> same_log s u"
  by (simp_all add: same_log_def)

lemma obj_at_Some_ok:
  assumes "objs_ok be s" and "obj_at be s a = Some so"
  shows "obj_ok be a so \<and> \<not> so_deleted so"
  using assms
  by (auto simp: obj_at_def objs_ok_def obj_ok_def newObject_def split: option.splits lookup.splits if_splits)

lemma newObject_simps [simp]:
  "obj_ok be a (newObject be a d b)" "\<not> so_deleted (newObject be a d b)" "so_address (newObject be a d b) = a"
  by (simp_all add: obj_ok_def newObject_def)

lemma obj_at_cong:
  "sd_trie s' = sd_trie s \<Longrightarrow> sd_stateObjects s' = sd_stateObjects s \<Longrightarrow> obj_at be s' = obj_at be s"
  by (rule ext) (simp add: obj_at_def split: option.split)

lemma obj_at_upd:
  assumes "sd_trie s' = sd_trie s" and "sd_stateObjects s' = (sd_stateObjects s)(a \<mapsto> so)" and "\<not> so_deleted so"
  shows "obj_at be s' = (obj_at be s)(a \<mapsto> so)"
  using assms by (intro ext) (simp add: obj_at_def split: option.split)

lemma objs_ok_cong:
  assumes "objs_ok be s" and "sd_trie s' = sd_trie s" and "sd_stateObjects s' = sd_stateObjects s"
    and "sd_stateObjectsDirty s' = sd_stateObjectsDirty s" and "sd_logs s' = sd_logs s"
  shows "objs_ok be s'"
  using assms by (simp add: objs_ok_def)

lemma view_cong:
  "sd_trie s' = sd_trie s \<Longrightarrow> sd_stateObjects s' = sd_stateObjects s \<Longrightarrow> view be s' = view be s"
  using obj_at_cong [of s' s be] by (intro ext) (simp add: view_def)

lemma sd_setError_simps [simp]:
  "sd_trie (sd_setError e s) = sd_trie s" "sd_stateObjects (sd_setError e s) = sd_stateObjects s"
  "sd_stateObjectsDirty (sd_setError e s) = sd_stateObjectsDirty s" "sim be (sd_setError e s) s"
  "same_log s (sd_setError e s)" "sd_logs (sd_setError e s) = sd_logs s"
  by (auto simp: sd_setError_def sim_def same_log_def intro!: view_cong)

lemma setStateObject_ok:
  assumes "objs_ok be s" and "obj_ok be a so" and "\<not> so_deleted so"
  shows "objs_ok be (setStateObject so s)" and "view be (setStateObject so s) = (view be s)(a \<mapsto> so_view be so)"
    and "obj_at be (setStateObject so s) = (obj_at be s)(a \<mapsto> so)" and "same_log s (setStateObject so s)"
    and "sd_trie (setStateObject so s) = sd_trie s" and "sim be (setStateObject so s) s \<longleftrightarrow> view be s a = Some (so_view be so)"
proof -
  have a: "so_address so = a"
    using assms(2) by (simp add: obj_ok_def)
  show obj: "obj_at be (setStateObject so s) = (obj_at be s)(a \<mapsto> so)"
    using assms(3) a by (intro obj_at_upd) (simp_all add: setStateObject_def)
  then show view: "view be (setStateObject so s) = (view be s)(a \<mapsto> so_view be so)"
    by (auto simp: view_def)
  show "objs_ok be (setStateObject so s)"
    using assms a by (auto simp: objs_ok_def setStateObject_def)
  show "same_log s (setStateObject so s)" and "sd_trie (setStateObject so s) = sd_trie s"
    by (simp_all add: same_log_def setStateObject_def)
  show "sim be (setStateObject so s) s \<longleftrightarrow> view be s a = Some (so_view be so)"
    using view by (auto simp: sim_def setStateObject_def fun_eq_iff)
qed

lemma fireDirty_ok:
  assumes "objs_ok be s" and "obj_ok be a so" and "\<not> so_deleted so"
  shows "objs_ok be (fireDirty so s)" and "view be (fireDirty so s) = (view be s)(a \<mapsto> so_view be so)"
    and "obj_at be (fireDirty so s) = (obj_at be s)(a \<mapsto> so\<lparr>so_onDirty := False\<rparr>)" and "same_log s (fireDirty so s)"
    and "sd_trie (fireDirty so s) = sd_trie s" and "sim be (fireDirty so s) s \<longleftrightarrow> view be s a = Some (so_view be so)"
proof -
  have a: "so_address so = a"
    using assms(2) by (simp add: obj_ok_def)
  show obj: "obj_at be (fireDirty so s) = (obj_at be s)(a \<mapsto> so\<lparr>so_onDirty := False\<rparr>)"
    using assms(3) a by (intro obj_at_upd) (simp_all add: fireDirty_def setStateObject_def MarkStateObjectDirty_def)
  then show view: "view be (fireDirty so s) = (view be s)(a \<mapsto> so_view be so)"
    by (auto simp: view_def)
  show "objs_ok be (fireDirty so s)"
    using assms a
    by (auto simp: objs_ok_def fireDirty_def setStateObject_def MarkStateObjectDirty_def obj_ok_def)
  show "same_log s (fireDirty so s)" and "sd_trie (fireDirty so s) = sd_trie s"
    by (simp_all add: same_log_def fireDirty_def setStateObject_def MarkStateObjectDirty_def)
  show "sim be (fireDirty so s) s \<longleftrightarrow> view be s a = Some (so_view be so)"
    using view by (auto simp: sim_def fireDirty_def setStateObject_def MarkStateObjectDirty_def fun_eq_iff)
qed

lemma getStateObject_ok:
  assumes ok: "objs_ok be s" and get: "getStateObject be a s = (r, s')"
  shows "r = obj_at be s a" and "objs_ok be s'" and "sim be s' s" and "same_log s s'"
    and "obj_at be s' = obj_at be s" and "r = Some so \<Longrightarrow> sd_stateObjects s' a = Some so \<and> obj_ok be a so \<and> \<not> so_deleted so"
proof -
  show r: "r = obj_at be s a"
    using get fst_getStateObject [of be a s] by simp
  have *: "objs_ok be s' \<and> sim be s' s \<and> same_log s s' \<and> obj_at be s' = obj_at be s"
  proof (cases "sd_stateObjects s a")
    case None
    show ?thesis
    proof (cases "sd_trie s a")
      case (Found d)
      then have "s' = setStateObject (newObject be a d True) s" and "obj_at be s a = Some (newObject be a d True)"
        using None get by (simp_all add: getStateObject_def Let_def obj_at_def)
      then show ?thesis
        using setStateObject_ok [OF ok newObject_simps(1,2)] by (auto simp: view_def)
    qed (use None get ok in \<open>auto simp: getStateObject_def intro: objs_ok_cong obj_at_cong\<close>)
  qed (use get ok in \<open>simp add: getStateObject_def\<close>)
  then show "objs_ok be s'" "sim be s' s" "same_log s s'" "obj_at be s' = obj_at be s"
    by simp_all
  assume "r = Some so"
  moreover have "sd_stateObjects s' a = Some so"
    using get \<open>r = Some so\<close>
    by (auto simp: getStateObject_def Let_def setStateObject_def newObject_def split: option.splits lookup.splits if_splits)
  ultimately show "sd_stateObjects s' a = Some so \<and> obj_ok be a so \<and> \<not> so_deleted so"
    using obj_at_Some_ok [OF ok, of a so] r by simp
qed

end
