(* ===== verification/State_Undo.thy ===== *)
theory State_Undo
  imports State_View
begin

text \<open>
  The journal on the level of observations. \<open>undo_view\<close> and its companions say what undoing an
  entry does to the observations, \<open>journal_undo_spec\<close> that the code does just that, without a
  panic where \<open>undoable\<close> holds. \<open>undoes be s s'\<close> is the contract of an operation: it only
  appended entries, and undoing these leads back to the observations of \<open>s\<close>.
\<close>

section \<open>Undoing an entry, on the observations\<close>

primrec undo_view :: "Backend \<Rightarrow> (address \<Rightarrow> Account lookup) \<Rightarrow> journalEntry \<Rightarrow>
    (address \<Rightarrow> acct_view option) \<Rightarrow> (address \<Rightarrow> acct_view option)" where
  "undo_view be tr (createObjectChange a) V =
     V(a := (case tr a of Found d \<Rightarrow> Some (so_view be (newObject be a d True)) | _ \<Rightarrow> None))"
| "undo_view be tr (resetObjectChange p) V = V(so_address p \<mapsto> so_view be p)"
| "undo_view be tr (suicideChange a b i) V = V(a := map_option (\<lambda>v. v\<lparr>av_suicided := b, av_balance := i\<rparr>) (V a))"
| "undo_view be tr (balanceChange a i) V = V(a := map_option (\<lambda>v. v\<lparr>av_balance := i\<rparr>) (V a))"
| "undo_view be tr (nonceChange a n) V = V(a := map_option (\<lambda>v. v\<lparr>av_nonce := n\<rparr>) (V a))"
| "undo_view be tr (storageChange a k x) V =
     V(a := map_option (\<lambda>v. v\<lparr>av_storage := (av_storage v)(k := x)\<rparr>) (V a))"
| "undo_view be tr (codeChange a c h) V =
     V(a := map_option (\<lambda>v. v\<lparr>av_codeHash := h,
              av_code := (case c of Some c \<Rightarrow> Some c
                | None \<Rightarrow> if h = emptyCodeHash be then None
                          else be_ContractCode be (be_keccak be (Address_Bytes a)) h)\<rparr>) (V a))"
| "undo_view be tr (refundChange g) V = V"
| "undo_view be tr (addLogChange h) V = V"
| "undo_view be tr (addPreimageChange h) V = V"
| "undo_view be tr (touchChange a b d) V = V"

primrec undo_refund :: "journalEntry \<Rightarrow> u64 \<Rightarrow> u64" where
  "undo_refund (createObjectChange a) g = g"
| "undo_refund (resetObjectChange p) g = g"
| "undo_refund (suicideChange a b i) g = g"
| "undo_refund (balanceChange a i) g = g"
| "undo_refund (nonceChange a n) g = g"
| "undo_refund (storageChange a k x) g = g"
| "undo_refund (codeChange a c h) g = g"
| "undo_refund (refundChange prev) g = prev"
| "undo_refund (addLogChange h) g = g"
| "undo_refund (addPreimageChange h) g = g"
| "undo_refund (touchChange a b d) g = g"

definition undo_logs :: "journalEntry \<Rightarrow> (hash \<Rightarrow> Log list option) \<times> u64 \<Rightarrow> (hash \<Rightarrow> Log list option) \<times> u64" where
  "undo_logs e = (\<lambda>(L, n).
     case e of addLogChange h \<Rightarrow>
         (L(h := case L h of None \<Rightarrow> None | Some ls \<Rightarrow> if length ls = 1 then None else Some (butlast ls)), n - 1)
     | _ \<Rightarrow> (L, n))"

definition undo_preimages :: "journalEntry \<Rightarrow> (hash \<Rightarrow> bytes option) \<Rightarrow> (hash \<Rightarrow> bytes option)" where
  "undo_preimages e P = (case e of addPreimageChange h \<Rightarrow> P(h := None) | _ \<Rightarrow> P)"

text \<open>When an entry can be undone without a panic.\<close>

primrec undoable :: "journalEntry \<Rightarrow> (address \<Rightarrow> acct_view option) \<Rightarrow> (hash \<Rightarrow> Log list option) \<Rightarrow> bool" where
  "undoable (createObjectChange a) V L = True"
| "undoable (resetObjectChange p) V L = True"
| "undoable (suicideChange a b i) V L = True"
| "undoable (balanceChange a i) V L = (V a \<noteq> None)"
| "undoable (nonceChange a n) V L = (V a \<noteq> None)"
| "undoable (storageChange a k x) V L = (V a \<noteq> None)"
| "undoable (codeChange a c h) V L = (V a \<noteq> None)"
| "undoable (refundChange g) V L = True"
| "undoable (addLogChange h) V L = (L h \<noteq> None)"
| "undoable (addPreimageChange h) V L = True"
| "undoable (touchChange a b d) V L = (b \<or> a = 3 \<or> V a \<noteq> None)"

text \<open>\<open>undone be e s s'\<close>: the observations of \<open>s'\<close> are those of \<open>s\<close> with the entry undone.\<close>

definition undone :: "Backend \<Rightarrow> journalEntry \<Rightarrow> StateDB \<Rightarrow> StateDB \<Rightarrow> bool" where
  "undone be e s s' \<longleftrightarrow>
     objs_ok be s' \<and> same_log s s' \<and> sd_trie s' = sd_trie s \<and> view be s' = undo_view be (sd_trie s) e (view be s) \<and>
     sd_refund s' = undo_refund e (sd_refund s) \<and> (sd_logs s', sd_logSize s') = undo_logs e (sd_logs s, sd_logSize s) \<and>
     sd_preimages s' = undo_preimages e (sd_preimages s) \<and> sd_thash s' = sd_thash s \<and> sd_bhash s' = sd_bhash s \<and>
     sd_txIndex s' = sd_txIndex s"

text \<open>What the setters keep besides the account they write.\<close>

definition same_rest :: "StateDB \<Rightarrow> StateDB \<Rightarrow> bool" where
  "same_rest s s' \<longleftrightarrow>
     sd_trie s' = sd_trie s \<and> sd_refund s' = sd_refund s \<and> sd_logs s' = sd_logs s \<and> sd_logSize s' = sd_logSize s \<and>
     sd_preimages s' = sd_preimages s \<and> sd_thash s' = sd_thash s \<and> sd_bhash s' = sd_bhash s \<and> sd_txIndex s' = sd_txIndex s"

lemma sim_iff: "sim be s' s \<longleftrightarrow> same_rest s s' \<and> view be s' = view be s"
  by (auto simp: sim_def same_rest_def)

lemma same_rest_refl [simp]: "same_rest s s"
  and same_rest_trans: "same_rest s t \<Longrightarrow> same_rest t u \<Longrightarrow> same_rest s u"
  by (simp_all add: same_rest_def)

lemma same_rest_steps [simp]:
  "same_rest s (setStateObject so s)" "same_rest s (fireDirty so s)" "same_rest s (deleteDirty a s)"
  "same_rest s (deleteObject a s)" "same_rest s (journal_append e s)" "same_rest s (MarkStateObjectDirty a s)"
  by (simp_all add: same_rest_def setStateObject_def fireDirty_def deleteDirty_def deleteObject_def journal_append_def
      MarkStateObjectDirty_def)

lemma undone_plain:
  assumes "objs_ok be s'" and "same_log s s'" and "same_rest s s'" and "view be s' = undo_view be (sd_trie s) e (view be s)"
    and "undo_refund e (sd_refund s) = sd_refund s" and "\<forall>h. e \<noteq> addLogChange h" and "\<forall>h. e \<noteq> addPreimageChange h"
  shows "undone be e s s'"
  using assms by (auto simp: undone_def same_rest_def undo_logs_def undo_preimages_def split: journalEntry.split)

text \<open>A setter on the object an access finds.\<close>

lemma withObject_fire:
  assumes ok: "objs_ok be s" and a: "view be s a = Some v"
    and f: "\<And>so t. f so t = fireDirty (g so) t" and g: "\<And>so. obj_ok be a so \<Longrightarrow> \<not> so_deleted so \<Longrightarrow>
      obj_ok be a (g so) \<and> \<not> so_deleted (g so) \<and> so_view be (g so) = G (so_view be so)"
  shows "\<exists>s'. withObject be a f s = Ret s' \<and> objs_ok be s' \<and> same_log s s' \<and> same_rest s s' \<and>
           view be s' = (view be s)(a \<mapsto> G v)"
proof -
  obtain r s1 where get: "getStateObject be a s = (r, s1)"
    by fastforce
  obtain so where so: "obj_at be s a = Some so" and v: "v = so_view be so"
    using a by (auto simp: view_def)
  note * = getStateObject_ok [OF ok get]
  have r: "r = Some so"
    using *(1) so by simp
  have gs: "obj_ok be a (g so)" "\<not> so_deleted (g so)" "so_view be (g so) = G v"
    using g [of so] *(6) [OF r] v by auto
  note ** = fireDirty_ok [OF *(2) gs(1,2)]
  have "view be s1 = view be s" and "same_rest s s1"
    using *(3) by (auto simp: sim_iff)
  then have "objs_ok be (fireDirty (g so) s1) \<and> same_log s (fireDirty (g so) s1) \<and> same_rest s (fireDirty (g so) s1) \<and>
      view be (fireDirty (g so) s1) = (view be s)(a \<mapsto> G v)"
    using ** *(4) gs(3) same_log_trans same_rest_trans [OF _ same_rest_steps(2)] by metis
  then show ?thesis
    using get r f by (simp add: withObject_def)
qed

lemma obj_ok_update [simp]:
  "obj_ok be a (so\<lparr>so_data := d\<rparr>) = obj_ok be a so"
  "obj_ok be a (so\<lparr>so_suicided := b\<rparr>) = obj_ok be a so"
  "obj_ok be a (so\<lparr>so_touched := b\<rparr>) = obj_ok be a so"
  "obj_ok be a (so\<lparr>so_onDirty := b\<rparr>) = obj_ok be a so"
  "obj_ok be a (so\<lparr>so_code := c\<rparr>) = obj_ok be a so"
  "obj_ok be a (so\<lparr>so_dirtyCode := b\<rparr>) = obj_ok be a so"
  by (simp_all add: obj_ok_def)

lemma obj_ok_set_slot:
  "obj_ok be a so \<Longrightarrow>
     obj_ok be a (so\<lparr>so_cachedStorage := (so_cachedStorage so)(k \<mapsto> x), so_dirtyStorage := AList.update k x (so_dirtyStorage so)\<rparr>)"
  by (auto simp: obj_ok_def AList.update_conv' AList.distinct_update)

lemma obj_ok_view_code:
  assumes "obj_ok be a so"
  shows "so_view be (so\<lparr>so_code := c, so_data := (so_data so)\<lparr>acct_CodeHash := h\<rparr>\<rparr>) =
     (so_view be so)\<lparr>av_codeHash := h,
        av_code := (case c of Some c \<Rightarrow> Some c
                    | None \<Rightarrow> if h = emptyCodeHash be then None else be_ContractCode be (be_keccak be (Address_Bytes a)) h)\<rparr>"
  using assms so_view_set_code [where so = so and c = c and h = h] by (cases c) (simp_all add: obj_ok_def)

lemma so_view_set_slot:
  "so_view be (so\<lparr>so_cachedStorage := (so_cachedStorage so)(k \<mapsto> x), so_dirtyStorage := d\<rparr>) =
     (so_view be so)\<lparr>av_storage := (av_storage (so_view be so))(k := x)\<rparr>"
  using so_view_set_cached [of be so k x] by simp

lemma so_view_suicide:
  "so_view be (so\<lparr>so_suicided := b, so_data := (so_data so)\<lparr>acct_Balance := i\<rparr>\<rparr>) =
     (so_view be so)\<lparr>av_suicided := b, av_balance := i\<rparr>"
  using so_view_update(8) [where so = "so\<lparr>so_suicided := b\<rparr>" and i = i] by simp

text \<open>A setter's undo step is the abstract one.\<close>

lemma withObject_undone:
  assumes ok: "objs_ok be s" and a: "view be s a \<noteq> None"
    and f: "\<And>so t. f so t = fireDirty (g so) t" and g: "\<And>so. obj_ok be a so \<Longrightarrow> \<not> so_deleted so \<Longrightarrow>
      obj_ok be a (g so) \<and> \<not> so_deleted (g so) \<and> so_view be (g so) = G (so_view be so)"
    and e: "undo_view be (sd_trie s) e (view be s) = (view be s)(a := map_option G (view be s a))"
    and "undo_refund e (sd_refund s) = sd_refund s" and "\<forall>h. e \<noteq> addLogChange h" and "\<forall>h. e \<noteq> addPreimageChange h"
  shows "\<exists>s'. withObject be a f s = Ret s' \<and> undone be e s s'"
proof -
  obtain v where v: "view be s a = Some v"
    using a by auto
  show ?thesis
    using withObject_fire [OF ok v, where f = f and g = g and G = G, OF f g] assms(6-) e v undone_plain [of be _ s e]
    by fastforce
qed

lemma undo_touch:
  assumes ok: "objs_ok be s" and "view be s a \<noteq> None" and "\<not> prev" and "a \<noteq> 3"
  shows "\<exists>s'. journal_undo be (touchChange a prev d) s = Ret s' \<and> undone be (touchChange a prev d) s s'"
proof -
  obtain r s1 where get: "getStateObject be a s = (r, s1)"
    by fastforce
  note * = getStateObject_ok [OF ok get]
  obtain so where so: "obj_at be s a = Some so" "r = Some so"
    using assms(2) *(1) by (auto simp: view_def)
  let ?so = "so\<lparr>so_touched := prev\<rparr>"
  have gs: "obj_ok be a ?so" "\<not> so_deleted ?so"
    using *(6) [OF so(2)] by auto
  let ?t = "setStateObject ?so s1"
  note ** = setStateObject_ok [OF *(2) gs]
  have view: "view be ?t = view be s"
    using **(2) *(3) so(1) by (auto simp: sim_iff view_def fun_eq_iff)
  have t: "objs_ok be ?t" "same_log s ?t" "same_rest s ?t"
    using ** * same_log_trans same_rest_trans [OF _ same_rest_steps(1)] by (auto simp: sim_iff)
  have d: "objs_ok be (deleteDirty a ?t) \<and> same_log s (deleteDirty a ?t) \<and> same_rest s (deleteDirty a ?t) \<and>
      view be (deleteDirty a ?t) = view be s"
    using t view view_cong [of "deleteDirty a ?t" ?t be]
    by (auto simp: objs_ok_def deleteDirty_def same_log_def same_rest_def removeAll_filter_not_eq)
  then show ?thesis
    using get so(2) assms(3,4) t view
    by (auto simp: withObject_def Let_def intro!: undone_plain)
qed

lemma undo_create:
  assumes "objs_ok be s"
  shows "undone be (createObjectChange a) s (deleteDirty a (deleteObject a s))"
proof (rule undone_plain)
  show "objs_ok be (deleteDirty a (deleteObject a s))"
    using assms by (auto simp: objs_ok_def deleteDirty_def deleteObject_def removeAll_filter_not_eq)
  show "same_log s (deleteDirty a (deleteObject a s))"
    by (simp add: same_log_def deleteDirty_def deleteObject_def)
  show "same_rest s (deleteDirty a (deleteObject a s))"
    by (rule same_rest_trans [of _ "deleteObject a s"]) simp_all
  show "view be (deleteDirty a (deleteObject a s)) = undo_view be (sd_trie s) (createObjectChange a) (view be s)"
    by (rule ext) (auto simp: view_def obj_at_def deleteDirty_def deleteObject_def split: option.split lookup.split)
qed simp_all

lemma undo_suicide:
  assumes ok: "objs_ok be s"
  shows "\<exists>s'. journal_undo be (suicideChange a b i) s = Ret s' \<and> undone be (suicideChange a b i) s s'"
proof (cases "view be s a")
  case None
  obtain r s1 where get: "getStateObject be a s = (r, s1)"
    by fastforce
  note * = getStateObject_ok [OF ok get]
  have "r = None"
    using None *(1) by (auto simp: view_def)
  moreover have "undone be (suicideChange a b i) s s1"
    using * None by (auto simp: sim_iff intro!: undone_plain)
  ultimately show ?thesis
    using get by simp
next
  case (Some v)
  have "\<exists>s'. withObject be a (\<lambda>so. so_setBalance i (so\<lparr>so_suicided := b\<rparr>)) s = Ret s' \<and> undone be (suicideChange a b i) s s'"
    by (rule withObject_undone [OF ok, where g = "\<lambda>so. so\<lparr>so_suicided := b, so_data := (so_data so)\<lparr>acct_Balance := i\<rparr>\<rparr>"
          and G = "\<lambda>v. v\<lparr>av_suicided := b, av_balance := i\<rparr>"])
      (use Some in \<open>auto simp: so_setBalance_def so_view_suicide\<close>)
  then show ?thesis
    using Some getStateObject_ok(1) [OF ok]
    by (auto simp: withObject_def view_def split: prod.splits option.splits)
qed

theorem journal_undo_spec:
  assumes ok: "objs_ok be s" and e: "entry_ok be e" and u: "undoable e (view be s) (sd_logs s)"
  shows "\<exists>s'. journal_undo be e s = Ret s' \<and> undone be e s s'"
proof (cases e)
  case (resetObjectChange p)
  then show ?thesis
    using e setStateObject_ok [OF ok, of "so_address p" p] by (auto intro!: undone_plain)
next
  case (balanceChange a i)
  then show ?thesis
    using u withObject_undone [OF ok, of a "so_setBalance i" "\<lambda>so. so\<lparr>so_data := (so_data so)\<lparr>acct_Balance := i\<rparr>\<rparr>"
        "\<lambda>v. v\<lparr>av_balance := i\<rparr>" e]
    by (auto simp: so_setBalance_def)
next
  case (nonceChange a i)
  then show ?thesis
    using u withObject_undone [OF ok, of a "so_setNonce i" "\<lambda>so. so\<lparr>so_data := (so_data so)\<lparr>acct_Nonce := i\<rparr>\<rparr>"
        "\<lambda>v. v\<lparr>av_nonce := i\<rparr>" e]
    by (auto simp: so_setNonce_def)
next
  case (storageChange a k x)
  then show ?thesis
    using u withObject_undone [OF ok, of a "so_setState k x"
        "\<lambda>so. so\<lparr>so_cachedStorage := (so_cachedStorage so)(k \<mapsto> x), so_dirtyStorage := AList.update k x (so_dirtyStorage so)\<rparr>"
        "\<lambda>v. v\<lparr>av_storage := (av_storage v)(k := x)\<rparr>" e]
    by (auto simp: so_setState_def so_view_set_cached obj_ok_set_slot)
next
  case (codeChange a c h)
  then show ?thesis
    using u withObject_undone [OF ok, of a "so_setCode h c"
        "\<lambda>so. so\<lparr>so_code := c, so_data := (so_data so)\<lparr>acct_CodeHash := h\<rparr>, so_dirtyCode := True\<rparr>"
        "\<lambda>v. v\<lparr>av_codeHash := h,
              av_code := (case c of Some c \<Rightarrow> Some c
                | None \<Rightarrow> if h = emptyCodeHash be then None
                          else be_ContractCode be (be_keccak be (Address_Bytes a)) h)\<rparr>" e]
    by (auto simp: so_setCode_def obj_ok_view_code)
next
  case (touchChange a b d)
  then show ?thesis
    using u ok undo_touch [OF ok, of a b d] by (auto intro!: undone_plain)
next
  case (addLogChange h)
  have "butlast ls = [] \<Longrightarrow> ls \<noteq> [] \<Longrightarrow> length ls = 1" for ls :: "Log list"
    by (cases ls rule: rev_cases) auto
  then show ?thesis
    using addLogChange u ok view_cong [of "s\<lparr>sd_logs := _, sd_logSize := _\<rparr>" s be]
    by (auto simp: undone_def undo_logs_def undo_preimages_def same_log_def objs_ok_def fun_eq_iff split: if_splits)
next
  case (refundChange g)
  then show ?thesis
    using ok view_cong [of "s\<lparr>sd_refund := g\<rparr>" s be]
    by (auto simp: undone_def undo_logs_def undo_preimages_def same_log_def objs_ok_def)
next
  case (addPreimageChange h)
  then show ?thesis
    using ok view_cong [of "s\<lparr>sd_preimages := (sd_preimages s)(h := None)\<rparr>" s be]
    by (auto simp: undone_def undo_logs_def undo_preimages_def same_log_def objs_ok_def)
qed (use undo_create [OF ok] undo_suicide [OF ok] in auto)

text \<open>Undoing depends on the observations only.\<close>

lemma undo_cong:
  assumes "objs_ok be s" "objs_ok be t" "sim be s t" "entry_ok be e" "undoable e (view be s) (sd_logs s)"
  shows "\<exists>s' t'. journal_undo be e s = Ret s' \<and> journal_undo be e t = Ret t' \<and> objs_ok be s' \<and> objs_ok be t' \<and> sim be s' t'"
proof -
  obtain s' t' where "journal_undo be e s = Ret s'" "undone be e s s'" "journal_undo be e t = Ret t'" "undone be e t t'"
    using assms journal_undo_spec [of be s e] journal_undo_spec [of be t e] by (auto simp: sim_def)
  moreover from this have "sim be s' t'"
    using assms(3) by (cases "undo_logs e (sd_logs t, sd_logSize t)") (auto simp: undone_def sim_def)
  ultimately show ?thesis
    by (auto simp: undone_def)
qed

text \<open>\<open>rewinds be js s s'\<close>: undoing the entries \<open>js\<close>, the last first, leads from \<open>s'\<close> back to \<open>s\<close>.\<close>

primrec rewinds :: "Backend \<Rightarrow> journalEntry list \<Rightarrow> StateDB \<Rightarrow> StateDB \<Rightarrow> bool" where
  "rewinds be [] s s' \<longleftrightarrow> sim be s' s"
| "rewinds be (e # es) s s' \<longleftrightarrow>
     entry_ok be e \<and> undoable e (view be s') (sd_logs s') \<and>
     (\<exists>t. journal_undo be e s' = Ret t \<and> objs_ok be t \<and> rewinds be es s t)"

lemma rewinds_cong:
  assumes "rewinds be es s s'" and "objs_ok be s'" and "objs_ok be t'" and "sim be t' s'"
  shows "rewinds be es s t'"
  using assms
proof (induction es arbitrary: s' t')
  case (Cons e es)
  have "undoable e (view be t') (sd_logs t')"
    using Cons.prems by (simp add: sim_def)
  then show ?case
    using Cons undo_cong [of be t' s' e] by fastforce
qed (auto intro: sim_trans)

lemma rewinds_trans:
  assumes "rewinds be es2 s1 s2" and "rewinds be es1 s0 s1" and "objs_ok be s1" and "objs_ok be s2"
  shows "rewinds be (es2 @ es1) s0 s2"
  using assms by (induction es2 arbitrary: s2) (auto intro: rewinds_cong)

lemma rewinds_undo_all:
  assumes "rewinds be es s s'" and "objs_ok be s'"
  shows "\<exists>t. undo_all be es s' = Ret t \<and> objs_ok be t \<and> sim be t s \<and> same_log s' t"
  using assms
proof (induction es arbitrary: s')
  case (Cons e es)
  then obtain t where t: "journal_undo be e s' = Ret t" "objs_ok be t" "rewinds be es s t"
    by auto
  have "same_log s' t"
    using journal_undo_spec [of be s' e] Cons.prems t(1) by (auto simp: undone_def)
  then show ?case
    using Cons.IH [OF t(3,2)] t(1) by (auto intro: same_log_trans)
qed auto

text \<open>The effect of an operation: it appends entries through which it can be rewound.\<close>

definition undoes :: "Backend \<Rightarrow> StateDB \<Rightarrow> StateDB \<Rightarrow> bool" where
  "undoes be s s' \<longleftrightarrow>
     objs_ok be s' \<and> sd_validRevisions s' = sd_validRevisions s \<and> sd_nextRevisionId s' = sd_nextRevisionId s \<and>
     (\<exists>js. sd_journal s' = sd_journal s @ js \<and> rewinds be (rev js) s s')"

lemma undoes_refl: "objs_ok be s \<Longrightarrow> undoes be s s"
  by (simp add: undoes_def)

lemma undoes_sim: "objs_ok be s' \<Longrightarrow> sim be s' s \<Longrightarrow> same_log s s' \<Longrightarrow> undoes be s s'"
  by (auto simp: undoes_def same_log_def intro!: exI [of _ "[]"])

lemma undoes_trans [trans]:
  assumes "undoes be s0 s1" and "undoes be s1 s2"
  shows "undoes be s0 s2"
proof -
  obtain js1 js2 where j: "sd_journal s1 = sd_journal s0 @ js1" "rewinds be (rev js1) s0 s1"
      "sd_journal s2 = sd_journal s1 @ js2" "rewinds be (rev js2) s1 s2"
    using assms by (auto simp: undoes_def)
  then have "rewinds be (rev (js1 @ js2)) s0 s2"
    using rewinds_trans [of be "rev js2" s1 s2 "rev js1" s0] assms by (simp add: undoes_def)
  then show ?thesis
    using assms j by (auto simp: undoes_def)
qed

text \<open>One entry appended before a change that its undo step takes back.\<close>

lemma undoes_step:
  assumes "objs_ok be s'" and "sd_journal s' = sd_journal s @ [e]" and "sd_validRevisions s' = sd_validRevisions s"
    and "sd_nextRevisionId s' = sd_nextRevisionId s" and "entry_ok be e" and "undoable e (view be s') (sd_logs s')"
    and "\<And>t. undone be e s' t \<Longrightarrow> sim be t s"
  shows "undoes be s s'"
  using assms journal_undo_spec [of be s' e] by (fastforce simp: undoes_def undone_def)

end
