(* ===== verification/State_Ops.thy ===== *)
theory State_Ops
  imports State_Undo
begin

text \<open>
  Every operation of the state database: what it does to the observations, and that the entries
  it appends to the journal undo it. The queries return what is observed and only fill caches.
\<close>

section \<open>The operations\<close>

definition fresh_view :: "Backend \<Rightarrow> address \<Rightarrow> acct_view" where
  "fresh_view be a = so_view be (newObject be a (emptyAccount be) True)"

definition view_or_fresh :: "Backend \<Rightarrow> StateDB \<Rightarrow> address \<Rightarrow> acct_view" where
  "view_or_fresh be s a = (case view be s a of Some v \<Rightarrow> v | None \<Rightarrow> fresh_view be a)"

lemma journal_append_simps [simp]:
  "sd_trie (journal_append e s) = sd_trie s" "sd_stateObjects (journal_append e s) = sd_stateObjects s"
  "sd_stateObjectsDirty (journal_append e s) = sd_stateObjectsDirty s" "sd_logs (journal_append e s) = sd_logs s"
  "sd_journal (journal_append e s) = sd_journal s @ [e]" "sd_validRevisions (journal_append e s) = sd_validRevisions s"
  "sd_nextRevisionId (journal_append e s) = sd_nextRevisionId s"
  "sd_thash (journal_append e s) = sd_thash s" "sd_refund (journal_append e s) = sd_refund s"
  "sd_bhash (journal_append e s) = sd_bhash s" "sd_txIndex (journal_append e s) = sd_txIndex s"
  "sd_logSize (journal_append e s) = sd_logSize s" "sd_preimages (journal_append e s) = sd_preimages s"
  by (simp_all add: journal_append_def)

lemma journal_append_ok [simp]:
  "objs_ok be (journal_append e s) = objs_ok be s" "view be (journal_append e s) = view be s"
  by (auto intro: view_cong objs_ok_cong elim!: objs_ok_cong)

text \<open>An entry is appended, and the changed object written.\<close>

lemma undoes_view:
  assumes "objs_ok be s'" "sd_journal s' = sd_journal s @ [e]" "sd_validRevisions s' = sd_validRevisions s"
    "sd_nextRevisionId s' = sd_nextRevisionId s" and rest: "same_rest s s'" and view: "view be s' = (view be s)(a \<mapsto> w)"
    and e: "entry_ok be e" "undo_view be (sd_trie s) e ((view be s)(a \<mapsto> w)) = view be s"
    "undoable e ((view be s)(a \<mapsto> w)) (sd_logs s)" "\<And>g. undo_refund e g = g"
    "\<forall>h. e \<noteq> addLogChange h" "\<forall>h. e \<noteq> addPreimageChange h"
  shows "undoes be s s'"
proof (rule undoes_step [OF assms(1-4) e(1)])
  fix t
  assume "undone be e s' t"
  then show "sim be t s"
    using e rest view by (cases e) (auto simp: undone_def same_rest_def sim_def undo_logs_def undo_preimages_def)
qed (use e rest view in \<open>auto simp: same_rest_def\<close>)

lemma undoes_fire:
  assumes ok: "objs_ok be s" and a: "obj_ok be a so" "\<not> so_deleted so"
    and e: "entry_ok be e" "undo_view be (sd_trie s) e ((view be s)(a \<mapsto> so_view be so)) = view be s"
    "undoable e ((view be s)(a \<mapsto> so_view be so)) (sd_logs s)" "\<And>g. undo_refund e g = g"
    "\<forall>h. e \<noteq> addLogChange h" "\<forall>h. e \<noteq> addPreimageChange h"
  shows "undoes be s (fireDirty so (journal_append e s))"
    and "view be (fireDirty so (journal_append e s)) = (view be s)(a \<mapsto> so_view be so)"
proof -
  let ?s = "fireDirty so (journal_append e s)"
  have *: "objs_ok be (journal_append e s)"
    using ok by simp
  note f = fireDirty_ok [OF * a]
  show view: "view be ?s = (view be s)(a \<mapsto> so_view be so)"
    using f(2) by simp
  have rest: "same_rest s ?s"
    by (rule same_rest_trans [of _ "journal_append e s"]) simp_all
  show "undoes be s ?s"
    by (rule undoes_view [OF f(1) _ _ _ rest view e]) (use f(4) in \<open>auto simp: same_log_def\<close>)
qed

lemma obj_ok_core:
  assumes "obj_ok be a so" and "same_core so so'" and "so_cachedStorage so \<subseteq>\<^sub>m so_cachedStorage so'"
  shows "obj_ok be a so'"
  using assms by (auto simp: obj_ok_def same_core_def intro: map_le_trans)

lemma so_GetState_cached: "so_cachedStorage so \<subseteq>\<^sub>m so_cachedStorage (snd (so_GetState be so key))"
proof (cases "so_cachedStorage so key")
  case None
  have "so_cachedStorage (snd (getTrie be so)) = so_cachedStorage so"
    using getTrie_core by blast
  then show ?thesis
    using None
    by (auto simp: so_GetState_def Let_def map_le_def dom_def split: prod.split lookup.split)
qed (simp add: so_GetState_def)

lemma so_GetState_ok:
  assumes "obj_ok be a so" and "so_GetState be so key = (v, so')"
  shows "v = av_storage (so_view be so) key \<and> obj_ok be a so' \<and> so_view be so' = so_view be so \<and>
     so_deleted so' = so_deleted so \<and> so_address so' = a"
proof -
  have "same_core so so'" "so_view be so' = so_view be so" "so_cachedStorage so \<subseteq>\<^sub>m so_cachedStorage so'" "v = slot_of be so key"
    using so_GetState_core [of so be key] so_GetState_cached [of so be key] so_GetState_value [of be so key] assms(2) by auto
  then show ?thesis
    using obj_ok_core [OF assms(1)] by (auto simp: same_core_def so_view_def obj_ok_def)
qed

lemma so_Code_ok:
  assumes "obj_ok be a so" and "so_Code be so = (c, so')"
  shows "c = av_code (so_view be so) \<and> obj_ok be a so' \<and> so_view be so' = so_view be so \<and>
     so_deleted so' = so_deleted so \<and> so_address so' = a \<and> so_data so' = so_data so"
proof -
  have "same_core so so'" "so_view be so' = so_view be so" "c = code_of be so"
    using so_Code_core [of so be] so_Code_value [of be so] assms(2) by auto
  moreover have "so_cachedStorage so' = so_cachedStorage so"
    using assms(2) by (auto simp: so_Code_def split: option.splits if_splits)
  ultimately show ?thesis
    using obj_ok_core [OF assms(1)] assms(1) by (auto simp: same_core_def so_view_def obj_ok_def)
qed

lemma obj_at_viewD:
  assumes "objs_ok be s" and "obj_at be s a = Some so"
  shows "view be s a = Some (so_view be so)" "obj_ok be a so" "\<not> so_deleted so" "so_address so = a"
  using obj_at_Some_ok [OF assms] assms(2) by (auto simp: view_def obj_ok_def)

lemma so_view_idem [simp]:
  "(so_view be so)\<lparr>av_balance := acct_Balance (so_data so)\<rparr> = so_view be so"
  "(so_view be so)\<lparr>av_nonce := acct_Nonce (so_data so)\<rparr> = so_view be so"
  "(so_view be so)\<lparr>av_suicided := so_suicided so, av_balance := acct_Balance (so_data so)\<rparr> = so_view be so"
  "(so_view be so)\<lparr>av_codeHash := acct_CodeHash (so_data so), av_code := code_of be so\<rparr> = so_view be so"
  by (simp_all add: so_view_def)

lemma so_SetBalance_ok:
  assumes "objs_ok be s" and "obj_at be s a = Some so"
  shows "undoes be s (so_SetBalance x so s)"
    and "view be (so_SetBalance x so s) = (view be s)(a \<mapsto> (so_view be so)\<lparr>av_balance := x\<rparr>)"
  using obj_at_viewD [OF assms]
    undoes_fire [OF assms(1), of a "so\<lparr>so_data := (so_data so)\<lparr>acct_Balance := x\<rparr>\<rparr>" "balanceChange a (acct_Balance (so_data so))"]
  by (auto simp: so_SetBalance_def so_setBalance_def fun_upd_idem)

lemma so_SetNonce_ok:
  assumes "objs_ok be s" and "obj_at be s a = Some so"
  shows "undoes be s (so_SetNonce x so s)"
    and "view be (so_SetNonce x so s) = (view be s)(a \<mapsto> (so_view be so)\<lparr>av_nonce := x\<rparr>)"
  using obj_at_viewD [OF assms]
    undoes_fire [OF assms(1), of a "so\<lparr>so_data := (so_data so)\<lparr>acct_Nonce := x\<rparr>\<rparr>" "nonceChange a (acct_Nonce (so_data so))"]
  by (auto simp: so_SetNonce_def so_setNonce_def fun_upd_idem)

lemma so_SetState_ok:
  assumes "objs_ok be s" and "obj_at be s a = Some so"
  shows "undoes be s (so_SetState be k x so s)"
    and "view be (so_SetState be k x so s) =
      (view be s)(a \<mapsto> (so_view be so)\<lparr>av_storage := (av_storage (so_view be so))(k := x)\<rparr>)"
proof -
  obtain v so' where get: "so_GetState be so k = (v, so')"
    by fastforce
  note * = obj_at_viewD [OF assms] and so' = so_GetState_ok [OF obj_at_viewD(2) [OF assms] get]
  let ?so = "so'\<lparr>so_cachedStorage := (so_cachedStorage so')(k \<mapsto> x), so_dirtyStorage := AList.update k x (so_dirtyStorage so')\<rparr>"
  have view: "so_view be ?so = (so_view be so)\<lparr>av_storage := (av_storage (so_view be so))(k := x)\<rparr>"
    using so' by (simp add: so_view_set_cached)
  have "obj_ok be a ?so" "\<not> so_deleted ?so"
    using so' * by (auto simp: obj_ok_set_slot)
  note ** = undoes_fire [OF assms(1) this, of "storageChange a k v"]
  show "undoes be s (so_SetState be k x so s)"
    using **(1) * so' get view by (auto simp: so_SetState_def so_setState_def fun_upd_idem)
  show "view be (so_SetState be k x so s) =
      (view be s)(a \<mapsto> (so_view be so)\<lparr>av_storage := (av_storage (so_view be so))(k := x)\<rparr>)"
    using **(2) * so' get view by (auto simp: so_SetState_def so_setState_def fun_upd_idem)
qed

lemma so_SetCode_ok:
  assumes "objs_ok be s" and "obj_at be s a = Some so"
  shows "undoes be s (so_SetCode be h (Some c) so s)"
    and "view be (so_SetCode be h (Some c) so s) = (view be s)(a \<mapsto> (so_view be so)\<lparr>av_codeHash := h, av_code := Some c\<rparr>)"
proof -
  obtain c' so' where get: "so_Code be so = (c', so')"
    by fastforce
  note * = obj_at_viewD [OF assms] and so' = so_Code_ok [OF obj_at_viewD(2) [OF assms] get]
  let ?so = "so'\<lparr>so_code := Some c, so_data := (so_data so')\<lparr>acct_CodeHash := h\<rparr>, so_dirtyCode := True\<rparr>"
  have view: "so_view be ?so = (so_view be so)\<lparr>av_codeHash := h, av_code := Some c\<rparr>"
    using so' obj_ok_view_code [of be a so'] by simp
  have "obj_ok be a ?so" "\<not> so_deleted ?so"
    using so' * by auto
  note ** = undoes_fire [OF assms(1) this, of "codeChange a c' (acct_CodeHash (so_data so))"]
  have c': "c' = code_of be so"
    using so' by (simp add: so_view_def)
  have undo: "(case c' of Some c \<Rightarrow> Some c
      | None \<Rightarrow> if acct_CodeHash (so_data so) = emptyCodeHash be then None
                else be_ContractCode be (be_keccak be (Address_Bytes a)) (acct_CodeHash (so_data so))) = code_of be so"
    using *(2) unfolding c' by (auto simp: code_of_def obj_ok_def split: option.split)
  show "undoes be s (so_SetCode be h (Some c) so s)"
    using **(1) * so' get view undo by (auto simp: so_SetCode_def so_setCode_def fun_upd_idem)
  show "view be (so_SetCode be h (Some c) so s) = (view be s)(a \<mapsto> (so_view be so)\<lparr>av_codeHash := h, av_code := Some c\<rparr>)"
    using **(2) * so' get view undo by (auto simp: so_SetCode_def so_setCode_def fun_upd_idem)
qed

lemma so_touch_ok:
  assumes "objs_ok be s" and "obj_at be s a = Some so"
  shows "undoes be s (so_touch so s)" and "view be (so_touch so s) = view be s"
  using obj_at_viewD [OF assms]
    undoes_fire [OF assms(1), of a "so\<lparr>so_touched := True\<rparr>" "touchChange a (so_touched so) (\<not> so_onDirty so)"]
  by (auto simp: so_touch_def fun_upd_idem)

lemma so_AddBalance_ok:
  assumes "objs_ok be s" and "obj_at be s a = Some so"
  shows "undoes be s (so_AddBalance be x so s)"
    and "view be (so_AddBalance be x so s) = (view be s)(a \<mapsto> (so_view be so)\<lparr>av_balance := av_balance (so_view be so) + x\<rparr>)"
  using obj_at_viewD [OF assms] so_touch_ok [OF assms] so_SetBalance_ok [OF assms] undoes_refl [OF assms(1)]
  by (auto simp: so_AddBalance_def fun_upd_idem so_view_def)

lemma so_SubBalance_ok:
  assumes "objs_ok be s" and "obj_at be s a = Some so"
  shows "undoes be s (so_SubBalance x so s)"
    and "view be (so_SubBalance x so s) = (view be s)(a \<mapsto> (so_view be so)\<lparr>av_balance := av_balance (so_view be so) - x\<rparr>)"
  using obj_at_viewD [OF assms] so_SetBalance_ok [OF assms] undoes_refl [OF assms(1)]
  by (auto simp: so_SubBalance_def fun_upd_idem so_view_def)

lemma Suicide_ok:
  assumes ok: "objs_ok be s"
  shows "undoes be s (snd (Suicide be a s))" and "fst (Suicide be a s) \<longleftrightarrow> view be s a \<noteq> None"
    and "view be (snd (Suicide be a s)) =
      (view be s)(a := map_option (\<lambda>v. v\<lparr>av_suicided := True, av_balance := 0\<rparr>) (view be s a))"
proof -
  obtain r s1 where get: "getStateObject be a s = (r, s1)"
    by fastforce
  note * = getStateObject_ok [OF ok get]
  have s1: "undoes be s s1"
    using undoes_sim *(2-4) by blast
  have "undoes be s (snd (Suicide be a s)) \<and> (fst (Suicide be a s) \<longleftrightarrow> view be s a \<noteq> None) \<and>
    view be (snd (Suicide be a s)) = (view be s)(a := map_option (\<lambda>v. v\<lparr>av_suicided := True, av_balance := 0\<rparr>) (view be s a))"
  proof (cases r)
    case None
    then show ?thesis
      using s1 * get by (auto simp: Suicide_def view_def sim_iff)
  next
    case (Some so)
    have at: "obj_at be s1 a = Some so"
      using *(1,5) Some by simp
    note v = obj_at_viewD [OF *(2) at]
    have "view be s1 = view be s"
      using *(3) by (simp add: sim_iff)
    then show ?thesis
      using undoes_fire [OF *(2), of a "so\<lparr>so_suicided := True, so_data := (so_data so)\<lparr>acct_Balance := 0\<rparr>\<rparr>"
          "suicideChange a (so_suicided so) (acct_Balance (so_data so))"] v undoes_trans [OF s1] get Some
      by (auto simp: Suicide_def so_view_suicide fun_upd_idem)
  qed
  then show "undoes be s (snd (Suicide be a s))" "fst (Suicide be a s) \<longleftrightarrow> view be s a \<noteq> None"
      "view be (snd (Suicide be a s)) =
        (view be s)(a := map_option (\<lambda>v. v\<lparr>av_suicided := True, av_balance := 0\<rparr>) (view be s a))"
    by blast+
qed

text \<open>Creating an account.\<close>

lemma MarkStateObjectDirty_append:
  "journal_append e (MarkStateObjectDirty a s) = MarkStateObjectDirty a (journal_append e s)"
  by (cases s) (simp add: MarkStateObjectDirty_def journal_append_def)

lemma createObject_eq:
  "createObject be a s =
     (let (prev, s1) = getStateObject be a s;
          e = (case prev of None \<Rightarrow> createObjectChange a | Some p \<Rightarrow> resetObjectChange p)
      in (newObject be a (emptyAccount be) False, prev, fireDirty (newObject be a (emptyAccount be) True) (journal_append e s1)))"
  by (simp add: createObject_def fireDirty_def newObject_def Let_def MarkStateObjectDirty_append split: prod.split)

lemma createObject_ok:
  assumes ok: "objs_ok be s" and create: "createObject be a s = (n, prev, s')"
  shows "undoes be s s'" and "view be s' = (view be s)(a \<mapsto> fresh_view be a)" and "prev = obj_at be s a"
    and "obj_at be s' a = Some n" and "so_view be n = fresh_view be a"
    and "\<And>p. prev = Some p \<Longrightarrow> \<exists>s1. objs_ok be s1 \<and> sim be s1 s \<and> same_log s s1 \<and>
           s' = fireDirty (newObject be a (emptyAccount be) True) (journal_append (resetObjectChange p) s1)"
proof -
  obtain r s1 where get: "getStateObject be a s = (r, s1)"
    by fastforce
  note * = getStateObject_ok [OF ok get]
  let ?e = "case r of None \<Rightarrow> createObjectChange a | Some p \<Rightarrow> resetObjectChange p"
  let ?n = "newObject be a (emptyAccount be) True"
  have eq: "n = newObject be a (emptyAccount be) False" "prev = r" "s' = fireDirty ?n (journal_append ?e s1)"
    using create get by (auto simp: createObject_eq)
  show "prev = obj_at be s a"
    using eq *(1) by simp
  have view: "view be s1 = view be s" "sd_trie s1 = sd_trie s"
    using *(3) by (simp_all add: sim_def)
  have none: "view be s a = None \<and> (case sd_trie s a of Found d \<Rightarrow> Some (so_view be (newObject be a d True)) | _ \<Rightarrow> None) = None"
    if "obj_at be s a = None"
  proof -
    have "sd_trie s a \<noteq> Found d" for d
      using ok that by (cases "sd_stateObjects s a") (auto simp: obj_at_def objs_ok_def split: if_splits)
    then show ?thesis
      using that by (cases "sd_trie s a") (auto simp: view_def)
  qed
  have e: "entry_ok be ?e \<and> undo_view be (sd_trie s1) ?e ((view be s1)(a \<mapsto> so_view be ?n)) = view be s1 \<and>
    undoable ?e ((view be s1)(a \<mapsto> so_view be ?n)) (sd_logs s1) \<and> (\<forall>g. undo_refund ?e g = g) \<and>
    (\<forall>h. ?e \<noteq> addLogChange h) \<and> (\<forall>h. ?e \<noteq> addPreimageChange h)"
  proof (cases r)
    case None
    then show ?thesis
      using none *(1) view by (simp add: fun_upd_idem)
  next
    case (Some p)
    then show ?thesis
      using obj_at_viewD [OF ok, of a p] *(1) view by (simp add: fun_upd_idem)
  qed
  note f = undoes_fire [OF *(2) newObject_simps(1,2), of ?e]
  show "undoes be s s'"
    using undoes_trans [OF undoes_sim [OF *(2-4)] f(1)] e eq(3) by blast
  show "view be s' = (view be s)(a \<mapsto> fresh_view be a)"
    using f(2) e eq(3) view by (simp add: fresh_view_def)
  have "objs_ok be (journal_append ?e s1)"
    using *(2) by simp
  from fireDirty_ok(3) [OF this newObject_simps(1,2)] show "obj_at be s' a = Some n"
    using eq by (simp add: newObject_def)
  have n: "newObject be a (emptyAccount be) False = ?n\<lparr>so_onDirty := False\<rparr>"
    by (simp add: newObject_def)
  show "so_view be n = fresh_view be a"
    unfolding eq(1) n by (simp add: fresh_view_def)
  show "\<exists>s1. objs_ok be s1 \<and> sim be s1 s \<and> same_log s s1 \<and>
           s' = fireDirty (newObject be a (emptyAccount be) True) (journal_append (resetObjectChange p) s1)"
    if "prev = Some p" for p
    using that eq *(2-4) by auto
qed

lemma GetOrNewStateObject_ok:
  assumes ok: "objs_ok be s" and get: "GetOrNewStateObject be a s = (so, s')"
  shows "undoes be s s'" and "obj_at be s' a = Some so" and "so_view be so = view_or_fresh be s a"
    and "view be s' = (view be s)(a \<mapsto> view_or_fresh be s a)"
proof -
  obtain r s1 where g: "getStateObject be a s = (r, s1)"
    by fastforce
  note * = getStateObject_ok [OF ok g]
  have s1: "undoes be s s1"
    using undoes_sim *(2-4) by blast
  have view: "view be s1 = view be s"
    using *(3) by (simp add: sim_iff)
  have "undoes be s s' \<and> obj_at be s' a = Some so \<and> so_view be so = view_or_fresh be s a \<and>
    view be s' = (view be s)(a \<mapsto> view_or_fresh be s a)"
  proof (cases r)
    case None
    obtain n p s2 where c: "createObject be a s1 = (n, p, s2)"
      by (metis prod_cases3)
    have "view be s a = None"
      using None *(1) by (simp add: view_def)
    then show ?thesis
      using createObject_ok [OF *(2) c] undoes_trans [OF s1] g None c get view
      by (auto simp: GetOrNewStateObject_def view_or_fresh_def)
  next
    case (Some o')
    have "obj_at be s1 a = Some o'"
      using Some *(1,5) by simp
    note o' = obj_at_viewD [OF *(2) this]
    then show ?thesis
      using Some g get s1 view *(1,5) by (auto simp: GetOrNewStateObject_def view_or_fresh_def fun_upd_idem)
  qed
  then show "undoes be s s'" "obj_at be s' a = Some so" "so_view be so = view_or_fresh be s a"
    "view be s' = (view be s)(a \<mapsto> view_or_fresh be s a)"
    by blast+
qed

lemma CreateAccount_ok:
  assumes ok: "objs_ok be s"
  shows "undoes be s (CreateAccount be a s)"
    and "view be (CreateAccount be a s) =
      (view be s)(a \<mapsto> (fresh_view be a)\<lparr>av_balance := av_balance (view_or_fresh be s a)\<rparr>)"
proof -
  obtain n p s' where c: "createObject be a s = (n, p, s')"
    by (metis prod_cases3)
  note * = createObject_ok [OF ok c]
  have ok': "objs_ok be s'"
    using *(1) by (simp add: undoes_def)
  have "undoes be s (CreateAccount be a s) \<and> view be (CreateAccount be a s) =
      (view be s)(a \<mapsto> (fresh_view be a)\<lparr>av_balance := av_balance (view_or_fresh be s a)\<rparr>)"
  proof (cases p)
    case None
    then have "view be s a = None"
      using *(3) by (simp add: view_def)
    then show ?thesis
      using None * c by (auto simp: CreateAccount_def view_or_fresh_def)
  next
    case (Some q)
    let ?n = "n\<lparr>so_data := (so_data n)\<lparr>acct_Balance := acct_Balance (so_data q)\<rparr>\<rparr>"
    let ?s = "fireDirty ?n s'"
    have q: "obj_at be s a = Some q"
      using *(3) Some by simp
    note qv = obj_at_viewD [OF ok q] and nv = obj_at_viewD [OF ok' *(4)]
    obtain s1 where s1: "objs_ok be s1" "sim be s1 s" "same_log s s1"
        "s' = fireDirty (newObject be a (emptyAccount be) True) (journal_append (resetObjectChange q) s1)"
      using *(6) [OF Some] by blast
    have n: "obj_ok be a ?n" "\<not> so_deleted ?n" "so_view be ?n = (fresh_view be a)\<lparr>av_balance := acct_Balance (so_data q)\<rparr>"
      using nv *(5) by auto
    note f = fireDirty_ok [OF ok' n(1,2)]
    have view: "view be ?s = (view be s)(a \<mapsto> (fresh_view be a)\<lparr>av_balance := acct_Balance (so_data q)\<rparr>)"
      using f(2) *(2) n(3) by simp
    have rest: "same_rest s ?s"
      using s1(2) unfolding s1(4) sim_iff
      by (meson same_rest_steps same_rest_trans)
    have j: "sd_journal ?s = sd_journal s @ [resetObjectChange q]" "sd_validRevisions ?s = sd_validRevisions s"
        "sd_nextRevisionId ?s = sd_nextRevisionId s"
      using f(4) s1(3,4) fireDirty_ok(4) [of be "journal_append (resetObjectChange q) s1" a] s1(1)
      by (auto simp: same_log_def)
    have "undoes be s ?s"
      by (rule undoes_view [OF f(1) j rest view]) (use qv in \<open>auto simp: fun_upd_idem\<close>)
    then show ?thesis
      using view c Some qv by (auto simp: CreateAccount_def so_setBalance_def view_or_fresh_def so_view_def)
  qed
  then show "undoes be s (CreateAccount be a s)" "view be (CreateAccount be a s) =
      (view be s)(a \<mapsto> (fresh_view be a)\<lparr>av_balance := av_balance (view_or_fresh be s a)\<rparr>)"
    by blast+
qed

text \<open>The operations of the interface.\<close>

lemma GetOrNew_op:
  assumes ok: "objs_ok be s"
    and f: "\<And>so t. objs_ok be t \<Longrightarrow> obj_at be t a = Some so \<Longrightarrow>
      undoes be t (f so t) \<and> view be (f so t) = (view be t)(a \<mapsto> F (so_view be so))"
  shows "undoes be s (case GetOrNewStateObject be a s of (so, s) \<Rightarrow> f so s)"
    and "view be (case GetOrNewStateObject be a s of (so, s) \<Rightarrow> f so s) = (view be s)(a \<mapsto> F (view_or_fresh be s a))"
proof -
  obtain so s1 where g: "GetOrNewStateObject be a s = (so, s1)"
    by fastforce
  note * = GetOrNewStateObject_ok [OF ok g]
  have "objs_ok be s1"
    using *(1) by (simp add: undoes_def)
  then show "undoes be s (case GetOrNewStateObject be a s of (so, s) \<Rightarrow> f so s)"
    and "view be (case GetOrNewStateObject be a s of (so, s) \<Rightarrow> f so s) = (view be s)(a \<mapsto> F (view_or_fresh be s a))"
    using f [of s1 so] * g undoes_trans [OF *(1)] by auto
qed

lemma AddBalance_ok:
  assumes "objs_ok be s"
  shows "undoes be s (AddBalance be a x s)"
    and "view be (AddBalance be a x s) =
      (view be s)(a \<mapsto> (view_or_fresh be s a)\<lparr>av_balance := av_balance (view_or_fresh be s a) + x\<rparr>)"
  using GetOrNew_op [OF assms, of a "so_AddBalance be x" "\<lambda>v. v\<lparr>av_balance := av_balance v + x\<rparr>"] so_AddBalance_ok
  by (simp_all add: AddBalance_def)

lemma SubBalance_ok:
  assumes "objs_ok be s"
  shows "undoes be s (SubBalance be a x s)"
    and "view be (SubBalance be a x s) =
      (view be s)(a \<mapsto> (view_or_fresh be s a)\<lparr>av_balance := av_balance (view_or_fresh be s a) - x\<rparr>)"
  using GetOrNew_op [OF assms, of a "so_SubBalance x" "\<lambda>v. v\<lparr>av_balance := av_balance v - x\<rparr>"] so_SubBalance_ok
  by (simp_all add: SubBalance_def)

lemma SetBalance_ok:
  assumes "objs_ok be s"
  shows "undoes be s (SetBalance be a x s)"
    and "view be (SetBalance be a x s) = (view be s)(a \<mapsto> (view_or_fresh be s a)\<lparr>av_balance := x\<rparr>)"
  using GetOrNew_op [OF assms, of a "so_SetBalance x" "\<lambda>v. v\<lparr>av_balance := x\<rparr>"] so_SetBalance_ok
  by (simp_all add: SetBalance_def)

lemma SetNonce_ok:
  assumes "objs_ok be s"
  shows "undoes be s (SetNonce be a x s)"
    and "view be (SetNonce be a x s) = (view be s)(a \<mapsto> (view_or_fresh be s a)\<lparr>av_nonce := x\<rparr>)"
  using GetOrNew_op [OF assms, of a "so_SetNonce x" "\<lambda>v. v\<lparr>av_nonce := x\<rparr>"] so_SetNonce_ok
  by (simp_all add: SetNonce_def)

lemma SetCode_ok:
  assumes "objs_ok be s"
  shows "undoes be s (SetCode be a c s)"
    and "view be (SetCode be a c s) =
      (view be s)(a \<mapsto> (view_or_fresh be s a)\<lparr>av_codeHash := be_keccak be c, av_code := Some c\<rparr>)"
  using GetOrNew_op [OF assms, of a "so_SetCode be (be_keccak be c) (Some c)"
      "\<lambda>v. v\<lparr>av_codeHash := be_keccak be c, av_code := Some c\<rparr>"] so_SetCode_ok
  by (simp_all add: SetCode_def)

lemma SetState_ok:
  assumes "objs_ok be s"
  shows "undoes be s (SetState be a k x s)"
    and "view be (SetState be a k x s) =
      (view be s)(a \<mapsto> (view_or_fresh be s a)\<lparr>av_storage := (av_storage (view_or_fresh be s a))(k := x)\<rparr>)"
  using GetOrNew_op [OF assms, of a "so_SetState be k x" "\<lambda>v. v\<lparr>av_storage := (av_storage v)(k := x)\<rparr>"] so_SetState_ok
  by (simp_all add: SetState_def)

lemma AddRefund_ok:
  assumes "objs_ok be s"
  shows "undoes be s (AddRefund g s)" and "view be (AddRefund g s) = view be s"
proof -
  show v: "view be (AddRefund g s) = view be s"
    by (intro view_cong) (simp_all add: AddRefund_def Let_def)
  show "undoes be s (AddRefund g s)"
    by (rule undoes_step [of be _ s "refundChange (sd_refund s)"])
      (use assms v in \<open>auto simp: AddRefund_def Let_def objs_ok_def undone_def undo_logs_def undo_preimages_def sim_def\<close>)
qed

lemma AddPreimage_ok:
  assumes "objs_ok be s"
  shows "undoes be s (AddPreimage h d s)" and "view be (AddPreimage h d s) = view be s"
proof -
  show v: "view be (AddPreimage h d s) = view be s"
    by (intro view_cong) (simp_all add: AddPreimage_def Let_def)
  show "undoes be s (AddPreimage h d s)"
  proof (cases "sd_preimages s h")
    case None
    show ?thesis
      by (rule undoes_step [of be _ s "addPreimageChange h"])
        (use assms v None in \<open>auto simp: AddPreimage_def Let_def objs_ok_def undone_def undo_logs_def undo_preimages_def
            sim_def fun_upd_idem\<close>)
  qed (use undoes_refl [OF assms] in \<open>simp add: AddPreimage_def\<close>)
qed

lemma AddLog_ok:
  assumes "objs_ok be s"
  shows "undoes be s (AddLog l s)" and "view be (AddLog l s) = view be s"
proof -
  show v: "view be (AddLog l s) = view be s"
    by (intro view_cong) (simp_all add: AddLog_def Let_def)
  have none: "sd_logs s h \<noteq> Some []" for h
    using assms by (simp add: objs_ok_def)
  show "undoes be s (AddLog l s)"
    by (rule undoes_step [of be _ s "addLogChange (sd_thash s)"])
      (use assms v none [of "sd_thash s"] in \<open>auto simp: AddLog_def Let_def objs_ok_def undone_def undo_logs_def undo_preimages_def
          sim_def fun_upd_idem split: option.splits\<close>)
qed

text \<open>The queries return what is observed, and only fill caches.\<close>

lemma getStateObject_undoes:
  assumes "objs_ok be s"
  shows "undoes be s (snd (getStateObject be a s))" "view be (snd (getStateObject be a s)) = view be s"
  using getStateObject_ok [OF assms, of a] undoes_sim by (metis prod.collapse sim_def)+

definition query_ok :: "Backend \<Rightarrow> StateDB \<Rightarrow> 'r \<Rightarrow> 'r \<times> StateDB \<Rightarrow> bool" where
  "query_ok be s r q \<longleftrightarrow> fst q = r \<and> undoes be s (snd q) \<and> sim be (snd q) s"

lemma query_okI:
  assumes "objs_ok be s" "getStateObject be a s = (r, s1)"
    and "\<And>so t. r = Some so \<Longrightarrow> t = s1 \<Longrightarrow> objs_ok be t \<Longrightarrow> obj_at be t a = Some so \<Longrightarrow>
       fst q = F (Some (so_view be so)) \<and> undoes be t (snd q) \<and> sim be (snd q) t"
    and "r = None \<Longrightarrow> q = (F None, s1)"
  shows "query_ok be s (F (view be s a)) q"
proof -
  note * = getStateObject_ok [OF assms(1,2)]
  show ?thesis
  proof (cases r)
    case None
    then show ?thesis
      using assms(4) * undoes_sim by (auto simp: query_ok_def view_def)
  next
    case (Some so)
    have "obj_at be s a = Some so"
      using *(1) Some by simp
    then have at: "obj_at be s1 a = Some so" "view be s a = Some (so_view be so)"
      using *(5) by (simp_all add: view_def)
    then show ?thesis
      using assms(3) [OF Some refl *(2) at(1)] undoes_trans [OF undoes_sim [OF *(2-4)]] sim_trans [OF _ *(3)]
      by (auto simp: query_ok_def)
  qed
qed

lemma setStateObject_undoes:
  assumes "objs_ok be s" and "obj_at be s a = Some so" and "obj_ok be a so'" "\<not> so_deleted so'" "so_view be so' = so_view be so"
  shows "undoes be s (setStateObject so' s)" and "sim be (setStateObject so' s) s"
proof -
  note * = setStateObject_ok [OF assms(1,3,4)]
  have "view be s a = Some (so_view be so)"
    using assms(2) by (simp add: view_def)
  then show "sim be (setStateObject so' s) s"
    using *(6) assms(5) by simp
  then show "undoes be s (setStateObject so' s)"
    using * by (simp add: undoes_sim)
qed

lemma query_ok_Exist: "objs_ok be s \<Longrightarrow> query_ok be s (view be s a \<noteq> None) (state_Exist be a s)"
  by (cases "getStateObject be a s")
    (rule query_okI [where a = a and F = "\<lambda>v. v \<noteq> None"], auto simp: state_Exist_def undoes_refl)

lemma query_ok_GetBalance:
  "objs_ok be s \<Longrightarrow> query_ok be s (case view be s a of None \<Rightarrow> 0 | Some v \<Rightarrow> av_balance v) (GetBalance be a s)"
  by (cases "getStateObject be a s")
    (rule query_okI [where a = a and F = "\<lambda>v. case v of None \<Rightarrow> 0 | Some v \<Rightarrow> av_balance v"],
      auto simp: GetBalance_def undoes_refl so_view_def)

lemma query_ok_GetNonce:
  "objs_ok be s \<Longrightarrow> query_ok be s (case view be s a of None \<Rightarrow> 0 | Some v \<Rightarrow> av_nonce v) (GetNonce be a s)"
  by (cases "getStateObject be a s")
    (rule query_okI [where a = a and F = "\<lambda>v. case v of None \<Rightarrow> 0 | Some v \<Rightarrow> av_nonce v"],
      auto simp: GetNonce_def undoes_refl so_view_def)

lemma query_ok_GetCodeHash:
  "objs_ok be s \<Longrightarrow> query_ok be s (case view be s a of None \<Rightarrow> 0 | Some v \<Rightarrow> av_codeHash v) (GetCodeHash be a s)"
  by (cases "getStateObject be a s")
    (rule query_okI [where a = a and F = "\<lambda>v. case v of None \<Rightarrow> 0 | Some v \<Rightarrow> av_codeHash v"],
      auto simp: GetCodeHash_def undoes_refl so_view_def)

lemma query_ok_HasSuicided:
  "objs_ok be s \<Longrightarrow> query_ok be s (case view be s a of None \<Rightarrow> False | Some v \<Rightarrow> av_suicided v) (HasSuicided be a s)"
  by (cases "getStateObject be a s")
    (rule query_okI [where a = a and F = "\<lambda>v. case v of None \<Rightarrow> False | Some v \<Rightarrow> av_suicided v"],
      auto simp: HasSuicided_def undoes_refl so_view_def)

definition empty_view :: "Backend \<Rightarrow> acct_view \<Rightarrow> bool" where
  "empty_view be v \<longleftrightarrow> av_nonce v = 0 \<and> av_balance v = 0 \<and> av_codeHash v = emptyCodeHash be"

lemma query_ok_Empty:
  "objs_ok be s \<Longrightarrow> query_ok be s (case view be s a of None \<Rightarrow> True | Some v \<Rightarrow> empty_view be v) (state_Empty be a s)"
  by (cases "getStateObject be a s")
    (rule query_okI [where a = a and F = "\<lambda>v. case v of None \<Rightarrow> True | Some v \<Rightarrow> empty_view be v"],
      auto simp: state_Empty_def undoes_refl so_view_def empty_view_def so_empty_def)

lemma query_ok_GetState:
  assumes ok: "objs_ok be s"
  shows "query_ok be s (case view be s a of None \<Rightarrow> 0 | Some v \<Rightarrow> av_storage v k) (GetState be a k s)"
proof -
  obtain r s1 where g: "getStateObject be a s = (r, s1)"
    by fastforce
  show ?thesis
  proof (rule query_okI [OF ok g, where F = "\<lambda>v. case v of None \<Rightarrow> 0 | Some v \<Rightarrow> av_storage v k"])
    fix so t
    assume r: "r = Some so" and t: "t = s1" "objs_ok be t" "obj_at be t a = Some so"
    obtain v so' where q: "so_GetState be so k = (v, so')"
      by fastforce
    note * = obj_at_viewD [OF t(2,3)]
    show "fst (GetState be a k s) = (case Some (so_view be so) of None \<Rightarrow> 0 | Some v \<Rightarrow> av_storage v k) \<and>
        undoes be t (snd (GetState be a k s)) \<and> sim be (snd (GetState be a k s)) t"
      using so_GetState_ok [OF *(2) q] setStateObject_undoes [OF t(2,3), of so'] *(3) r t g q
      by (auto simp: GetState_def)
  qed (use g in \<open>simp add: GetState_def\<close>)
qed

lemma query_ok_GetCode:
  assumes ok: "objs_ok be s"
  shows "query_ok be s (case view be s a of None \<Rightarrow> None | Some v \<Rightarrow> av_code v) (GetCode be a s)"
proof -
  obtain r s1 where g: "getStateObject be a s = (r, s1)"
    by fastforce
  show ?thesis
  proof (rule query_okI [OF ok g, where F = "\<lambda>v. case v of None \<Rightarrow> None | Some v \<Rightarrow> av_code v"])
    fix so t
    assume r: "r = Some so" and t: "t = s1" "objs_ok be t" "obj_at be t a = Some so"
    obtain v so' where q: "so_Code be so = (v, so')"
      by fastforce
    note * = obj_at_viewD [OF t(2,3)]
    show "fst (GetCode be a s) = (case Some (so_view be so) of None \<Rightarrow> None | Some v \<Rightarrow> av_code v) \<and>
        undoes be t (snd (GetCode be a s)) \<and> sim be (snd (GetCode be a s)) t"
      using so_Code_ok [OF *(2) q] setStateObject_undoes [OF t(2,3), of so'] *(3) r t g q
      by (auto simp: GetCode_def)
  qed (use g in \<open>simp add: GetCode_def\<close>)
qed

lemma GetCodeSize_undoes:
  assumes ok: "objs_ok be s"
  shows "undoes be s (snd (GetCodeSize be a s))" and "sim be (snd (GetCodeSize be a s)) s"
proof -
  obtain r s1 where g: "getStateObject be a s = (r, s1)"
    by fastforce
  note * = getStateObject_ok [OF ok g]
  have e: "objs_ok be (sd_setError e s1)" for e
    by (rule objs_ok_cong [OF *(2)]) simp_all
  have "undoes be s1 (sd_setError e s1)" for e
    by (rule undoes_sim [OF e]) simp_all
  then have "undoes be s1 (snd (GetCodeSize be a s)) \<and> sim be (snd (GetCodeSize be a s)) s1"
    using g undoes_refl [OF *(2)] by (auto simp: GetCodeSize_def split: option.split)
  then show "undoes be s (snd (GetCodeSize be a s))" "sim be (snd (GetCodeSize be a s)) s"
    using undoes_trans [OF undoes_sim [OF *(2-4)]] sim_trans [OF _ *(3)] by auto
qed

end
