(* ===== verification/State_Revert.thy ===== *)
theory State_Revert
  imports State_Ops
begin

text \<open>
  Snapshots. \<open>sort_Search\<close> finds the revision, \<open>since be s s'\<close> is the contract of a run of
  operations that takes snapshots and reverts to its own ones, and reverting to a snapshot after
  any such run restores every observation of the state that was snapshot.
\<close>

section \<open>Binary search\<close>

definition up_to :: "nat \<Rightarrow> (nat \<Rightarrow> bool) \<Rightarrow> bool" where
  "up_to n f \<longleftrightarrow> (\<forall>a b. a \<le> b \<longrightarrow> b < n \<longrightarrow> f a \<longrightarrow> f b)"

lemma sort_Search_loop_spec:
  assumes "up_to n f" and "i \<le> j" and "j \<le> n" and "\<forall>k<i. \<not> f k" and "\<forall>k. j \<le> k \<longrightarrow> k < n \<longrightarrow> f k"
  shows "sort_Search_loop f i j \<le> n \<and> (\<forall>k < sort_Search_loop f i j. \<not> f k) \<and>
    (\<forall>k. sort_Search_loop f i j \<le> k \<longrightarrow> k < n \<longrightarrow> f k)"
  using assms
proof (induction f i j rule: sort_Search_loop.induct)
  case (1 f i j)
  let ?h = "(i + j) div 2"
  have eq: "sort_Search_loop f i j = (if i < j then if f ?h then sort_Search_loop f i ?h else sort_Search_loop f (?h + 1) j else i)"
    by (simp add: sort_Search_loop.simps [of f i j] Let_def)
  consider "\<not> i < j" | "i < j" "f ?h" | "i < j" "\<not> f ?h"
    by blast
  then show ?case
  proof cases
    case 1
    then show ?thesis
      using eq "1.prems" by auto
  next
    case 2
    have up: "\<forall>k. ?h \<le> k \<longrightarrow> k < n \<longrightarrow> f k"
      using 2(2) "1.prems"(1) unfolding up_to_def by blast
    have le: "i \<le> ?h" "?h \<le> n" "\<not> \<not> f ?h"
      using 2 "1.prems"(3) by auto
    have e: "sort_Search_loop f i j = sort_Search_loop f i ?h"
      using eq 2 by presburger
    show ?thesis
      unfolding e by (rule "1.IH"(2) [OF 2(1) refl le(3) "1.prems"(1) le(1,2) "1.prems"(4) up])
  next
    case 3
    have h: "?h < n" "?h + 1 \<le> j"
      using 3(1) "1.prems"(3) by auto
    have low: "\<forall>k < ?h + 1. \<not> f k"
    proof (intro allI impI)
      fix k
      assume "k < ?h + 1"
      then have "k \<le> ?h"
        by simp
      then show "\<not> f k"
        using 3(2) h(1) "1.prems"(1) unfolding up_to_def by blast
    qed
    have e: "sort_Search_loop f i j = sort_Search_loop f (?h + 1) j"
      using eq 3 by presburger
    show ?thesis
      unfolding e by (rule "1.IH"(1) [OF 3(1) refl 3(2) "1.prems"(1) h(2) "1.prems"(3) low "1.prems"(5)])
  qed
qed

lemma sort_Search_le: "sort_Search n f \<le> n"
proof -
  have "i \<le> j \<Longrightarrow> sort_Search_loop f i j \<le> j" for i j
  proof (induction f i j rule: sort_Search_loop.induct)
    case (1 f i j)
    let ?h = "(i + j) div 2"
    have h: "i \<le> ?h" "?h + 1 \<le> j" "?h \<le> j" if "i < j"
      using that by auto
    have "sort_Search_loop f i ?h \<le> j" if "i < j" "f ?h"
      using "1.IH"(2) [OF that(1) refl] that(2) h [OF that(1)] by (meson order_trans)
    moreover have "sort_Search_loop f (?h + 1) j \<le> j" if "i < j" "\<not> f ?h"
      using "1.IH"(1) [OF that(1) refl that(2)] h [OF that(1)] by blast
    ultimately show ?case
      using "1.prems" unfolding sort_Search_loop.simps [of f i j] Let_def by presburger
  qed
  then show ?thesis
    by (simp add: sort_Search_def)
qed

lemma sort_Search_unique:
  assumes "up_to n f" and "k < n" and "f k" and "\<forall>i<k. \<not> f i"
  shows "sort_Search n f = k"
proof -
  have "sort_Search n f \<le> n \<and> (\<forall>i < sort_Search n f. \<not> f i) \<and> (\<forall>i. sort_Search n f \<le> i \<longrightarrow> i < n \<longrightarrow> f i)"
    unfolding sort_Search_def using assms(1) by (intro sort_Search_loop_spec) auto
  then show ?thesis
    using assms(2-) by (cases "sort_Search n f" k rule: linorder_cases) auto
qed

section \<open>Runs\<close>

definition revs_ok :: "StateDB \<Rightarrow> bool" where
  "revs_ok s \<longleftrightarrow>
     sorted_wrt (<) (map fst (sd_validRevisions s)) \<and> sorted (map snd (sd_validRevisions s)) \<and>
     (\<forall>(i, k) \<in> set (sd_validRevisions s). i < sd_nextRevisionId s \<and> k \<le> length (sd_journal s))"

definition state_ok :: "Backend \<Rightarrow> StateDB \<Rightarrow> bool" where
  "state_ok be s \<longleftrightarrow> objs_ok be s \<and> revs_ok s"

definition since :: "Backend \<Rightarrow> StateDB \<Rightarrow> StateDB \<Rightarrow> bool" where
  "since be s s' \<longleftrightarrow>
     state_ok be s' \<and> sd_nextRevisionId s \<le> sd_nextRevisionId s' \<and>
     (\<exists>js rs. sd_journal s' = sd_journal s @ js \<and> rewinds be (rev js) s s' \<and> sd_validRevisions s' = sd_validRevisions s @ rs \<and>
        (\<forall>(i, k) \<in> set rs. sd_nextRevisionId s \<le> i \<and> length (sd_journal s) \<le> k))"

lemma since_refl: "state_ok be s \<Longrightarrow> since be s s"
  by (simp add: since_def)

lemma since_ok: "since be s s' \<Longrightarrow> state_ok be s'"
  by (simp add: since_def)

lemma since_trans [trans]:
  assumes "since be s0 s1" and "since be s1 s2"
  shows "since be s0 s2"
proof -
  obtain j1 r1 j2 r2 where *: "sd_journal s1 = sd_journal s0 @ j1" "rewinds be (rev j1) s0 s1"
      "sd_validRevisions s1 = sd_validRevisions s0 @ r1" "\<forall>(i, k) \<in> set r1. sd_nextRevisionId s0 \<le> i \<and> length (sd_journal s0) \<le> k"
      "sd_journal s2 = sd_journal s1 @ j2" "rewinds be (rev j2) s1 s2"
      "sd_validRevisions s2 = sd_validRevisions s1 @ r2" "\<forall>(i, k) \<in> set r2. sd_nextRevisionId s1 \<le> i \<and> length (sd_journal s1) \<le> k"
    using assms unfolding since_def by blast
  have "rewinds be (rev (j1 @ j2)) s0 s2"
    using rewinds_trans [OF *(6,2)] assms by (simp add: since_def state_ok_def)
  moreover have "\<forall>(i, k) \<in> set (r1 @ r2). sd_nextRevisionId s0 \<le> i \<and> length (sd_journal s0) \<le> k"
    using *(1,4,8) assms(1) by (fastforce simp: since_def)
  ultimately show ?thesis
    using assms *(1,3,5,7) unfolding since_def by (metis append.assoc order_trans)
qed

lemma undoes_since:
  assumes "undoes be s s'" and "state_ok be s"
  shows "since be s s'"
  using assms by (fastforce simp: undoes_def since_def state_ok_def revs_ok_def)

lemma since_Snapshot:
  assumes "state_ok be s"
  shows "since be s (snd (Snapshot s))"
proof -
  have "objs_ok be (snd (Snapshot s))" "sim be (snd (Snapshot s)) s"
    using assms by (auto simp: state_ok_def Snapshot_def sim_def intro: objs_ok_cong view_cong)
  then show ?thesis
    using assms by (auto simp: since_def state_ok_def revs_ok_def Snapshot_def sorted_wrt_append)
qed

lemma sorted_fst: "sorted_wrt (<) (map fst xs) \<Longrightarrow> a < b \<Longrightarrow> b < length xs \<Longrightarrow> fst (xs ! a) < (fst (xs ! b) :: nat)"
  using sorted_wrt_nth_less [of "(<)" "map fst xs" a b] by simp

text \<open>Reverting to the revision at a given place of the list.\<close>

lemma RevertToSnapshot_at:
  assumes ok: "revs_ok s" and revs: "sd_validRevisions s = rs @ (i, k) # rs'"
  shows "RevertToSnapshot be i s = go_bind (undo_all be (rev (drop k (sd_journal s))) s) (\<lambda>s.
           Ret (s\<lparr>sd_journal := take k (sd_journal s), sd_validRevisions := rs\<rparr>))"
proof -
  let ?revs = "rs @ (i, k) # rs'"
  have sorted: "fst (?revs ! a) < fst (?revs ! b)" if "a < b" "b < length ?revs" for a b
    using ok revs that sorted_fst [of ?revs a b] by (simp add: revs_ok_def)
  have "sort_Search (length ?revs) (\<lambda>n. i \<le> fst (?revs ! n)) = length rs"
  proof (rule sort_Search_unique)
    have "i \<le> fst (?revs ! b)" if "a \<le> b" "b < length ?revs" "i \<le> fst (?revs ! a)" for a b
      using sorted [of a b] that by (cases "a = b") auto
    then show "up_to (length ?revs) (\<lambda>n. i \<le> fst (?revs ! n))"
      unfolding up_to_def by blast
    have "fst (?revs ! n) < i" if "n < length rs" for n
      using sorted [OF that] by simp
    then show "\<forall>n < length rs. \<not> i \<le> fst (?revs ! n)"
      using not_le by blast
  qed auto
  then show ?thesis
    by (simp add: RevertToSnapshot_def revs Let_def)
qed

lemma RevertToSnapshot_unknown:
  assumes "i \<notin> fst ` set (sd_validRevisions s)"
  shows "RevertToSnapshot be i s = Panic"
proof -
  let ?n = "sort_Search (length (sd_validRevisions s)) (\<lambda>n. i \<le> fst (sd_validRevisions s ! n))"
  have "?n \<le> length (sd_validRevisions s)"
    by (rule sort_Search_le)
  then have "?n = length (sd_validRevisions s) \<or> fst (sd_validRevisions s ! ?n) \<noteq> i"
    using assms by (metis image_eqI le_neq_implies_less nth_mem)
  then show ?thesis
    by (auto simp: RevertToSnapshot_def Let_def)
qed

lemma rewinds_append:
  assumes "rewinds be (es1 @ es2) s s'" and "objs_ok be s'"
  shows "\<exists>t. undo_all be es1 s' = Ret t \<and> rewinds be es2 s t \<and> objs_ok be t \<and> same_log s' t"
  using assms
proof (induction es1 arbitrary: s')
  case (Cons e es1)
  then obtain t where t: "journal_undo be e s' = Ret t" "objs_ok be t" "rewinds be (es1 @ es2) s t"
    by auto
  have "same_log s' t"
    using journal_undo_spec [of be s' e] Cons.prems t(1) by (auto simp: undone_def)
  then show ?case
    using Cons.IH [OF t(3,2)] t(1) by (auto intro: same_log_trans)
qed auto

text \<open>A run may revert to the snapshots it took itself.\<close>

lemma since_revert:
  assumes "since be s s'" and "sd_nextRevisionId s \<le> i" and "i \<in> fst ` set (sd_validRevisions s')" and "revs_ok s"
  shows "\<exists>t. RevertToSnapshot be i s' = Ret t \<and> since be s t"
proof -
  obtain js rs where *: "sd_journal s' = sd_journal s @ js" "rewinds be (rev js) s s'"
      "sd_validRevisions s' = sd_validRevisions s @ rs" "\<forall>(i, k) \<in> set rs. sd_nextRevisionId s \<le> i \<and> length (sd_journal s) \<le> k"
    using assms(1) unfolding since_def by blast
  have ok: "objs_ok be s'" "revs_ok s'"
    using assms(1) by (simp_all add: since_def state_ok_def)
  have "i \<notin> fst ` set (sd_validRevisions s)"
    using assms(2,4) by (auto simp: revs_ok_def)
  then obtain k r1 r2 where rs: "rs = r1 @ (i, k) # r2"
    using assms(3) *(3) by (auto dest: split_list)
  let ?n = "k - length (sd_journal s)"
  have k: "length (sd_journal s) \<le> k" "k \<le> length (sd_journal s')"
    using *(3,4) rs ok(2) by (auto simp: revs_ok_def)
  have split: "rev js = rev (drop ?n js) @ rev (take ?n js)"
    by (simp flip: rev_append)
  have drop: "drop k (sd_journal s') = drop ?n js" and take: "take k (sd_journal s') = sd_journal s @ take ?n js"
    using *(1) k(1) by simp_all
  obtain t where t: "undo_all be (rev (drop ?n js)) s' = Ret t" "rewinds be (rev (take ?n js)) s t" "objs_ok be t" "same_log s' t"
    using rewinds_append [OF *(2) [unfolded split] ok(1)] by blast
  let ?t = "t\<lparr>sd_journal := sd_journal s @ take ?n js, sd_validRevisions := sd_validRevisions s @ r1\<rparr>"
  have revs: "sd_validRevisions s' = (sd_validRevisions s @ r1) @ (i, k) # r2"
    using *(3) rs by simp
  have sim: "sim be ?t t" and t': "objs_ok be ?t"
    using t(3) by (auto simp: sim_def intro: view_cong objs_ok_cong)
  have len: "length (sd_journal s @ take ?n js) = k"
    using k *(1) by simp
  have "revs_ok ?t"
    using ok(2) t(4) len unfolding revs_ok_def revs
    by (auto simp: same_log_def sorted_wrt_append sorted_append)
  then have "since be s ?t"
    using rewinds_cong [OF t(2,3) t' sim] t' *(4) rs assms(1) t(4)
    by (auto simp: since_def state_ok_def same_log_def)
  then show ?thesis
    using RevertToSnapshot_at [OF ok(2) revs, of be] drop t(1,4) take by (simp add: same_log_def)
qed

text \<open>Reverting to a snapshot after a run: the contract of \<open>Snapshot\<close> and \<open>RevertToSnapshot\<close>.\<close>

lemma revert_restores:
  assumes ok: "state_ok be s" and snap: "Snapshot s = (i, s1)" and run: "since be s1 s2"
  shows "\<exists>t. RevertToSnapshot be i s2 = Ret t \<and> sim be t s \<and> since be s t \<and> sd_journal t = sd_journal s \<and>
           sd_validRevisions t = sd_validRevisions s"
proof -
  obtain js rs where *: "sd_journal s2 = sd_journal s1 @ js" "rewinds be (rev js) s1 s2"
      "sd_validRevisions s2 = sd_validRevisions s1 @ rs"
    using run unfolding since_def by blast
  have s1: "sd_journal s1 = sd_journal s" "sd_validRevisions s1 = sd_validRevisions s @ [(i, length (sd_journal s))]"
      "sd_nextRevisionId s \<le> sd_nextRevisionId s1" "sim be s1 s"
    using snap by (auto simp: Snapshot_def sim_def intro: view_cong)
  have ok2: "objs_ok be s2" "revs_ok s2"
    using run by (simp_all add: since_def state_ok_def)
  obtain t where t: "undo_all be (rev js) s2 = Ret t" "objs_ok be t" "sim be t s1" "same_log s2 t"
    using rewinds_undo_all [OF *(2) ok2(1)] by blast
  let ?t = "t\<lparr>sd_journal := sd_journal s, sd_validRevisions := sd_validRevisions s\<rparr>"
  have "RevertToSnapshot be i s2 = Ret ?t"
    using RevertToSnapshot_at [OF ok2(2), of "sd_validRevisions s" i "length (sd_journal s)" rs be] * s1 t
    by (simp add: same_log_def)
  moreover have "sim be ?t t" "objs_ok be ?t"
    using t(2) by (auto simp: sim_def intro: view_cong objs_ok_cong)
  moreover have "sd_nextRevisionId s \<le> sd_nextRevisionId t"
    using t(4) s1(3) run by (auto simp: same_log_def since_def)
  moreover have "sim be ?t s"
    using sim_trans [OF sim_trans [OF \<open>sim be ?t t\<close> t(3)] s1(4)] .
  ultimately show ?thesis
    using ok by (fastforce simp: since_def state_ok_def revs_ok_def)
qed

section \<open>Runs of operations\<close>

datatype state_op =
    Op_CreateAccount address
  | Op_AddBalance address int
  | Op_SubBalance address int
  | Op_SetBalance address int
  | Op_SetNonce address u64
  | Op_SetCode address bytes
  | Op_SetState address hash hash
  | Op_Suicide address
  | Op_AddRefund u64
  | Op_AddLog Log
  | Op_AddPreimage hash bytes
  | Op_Exist address
  | Op_Empty address
  | Op_GetBalance address
  | Op_GetNonce address
  | Op_GetCode address
  | Op_GetCodeSize address
  | Op_GetCodeHash address
  | Op_GetState address hash
  | Op_HasSuicided address
  | Op_Snapshot

primrec state_step :: "Backend \<Rightarrow> state_op \<Rightarrow> StateDB \<Rightarrow> StateDB" where
  "state_step be (Op_CreateAccount a) s = CreateAccount be a s"
| "state_step be (Op_AddBalance a x) s = AddBalance be a x s"
| "state_step be (Op_SubBalance a x) s = SubBalance be a x s"
| "state_step be (Op_SetBalance a x) s = SetBalance be a x s"
| "state_step be (Op_SetNonce a n) s = SetNonce be a n s"
| "state_step be (Op_SetCode a c) s = SetCode be a c s"
| "state_step be (Op_SetState a k x) s = SetState be a k x s"
| "state_step be (Op_Suicide a) s = snd (Suicide be a s)"
| "state_step be (Op_AddRefund g) s = AddRefund g s"
| "state_step be (Op_AddLog l) s = AddLog l s"
| "state_step be (Op_AddPreimage h d) s = AddPreimage h d s"
| "state_step be (Op_Exist a) s = snd (state_Exist be a s)"
| "state_step be (Op_Empty a) s = snd (state_Empty be a s)"
| "state_step be (Op_GetBalance a) s = snd (GetBalance be a s)"
| "state_step be (Op_GetNonce a) s = snd (GetNonce be a s)"
| "state_step be (Op_GetCode a) s = snd (GetCode be a s)"
| "state_step be (Op_GetCodeSize a) s = snd (GetCodeSize be a s)"
| "state_step be (Op_GetCodeHash a) s = snd (GetCodeHash be a s)"
| "state_step be (Op_GetState a k) s = snd (GetState be a k s)"
| "state_step be (Op_HasSuicided a) s = snd (HasSuicided be a s)"
| "state_step be Op_Snapshot s = snd (Snapshot s)"

text \<open>
  \<open>runs be s s'\<close>: operations lead from \<open>s\<close> to \<open>s'\<close>; a revert in between goes to a revision
  issued after \<open>s\<close>.
\<close>

inductive runs :: "Backend \<Rightarrow> StateDB \<Rightarrow> StateDB \<Rightarrow> bool" for be s where
  runs_refl: "runs be s s"
| runs_step: "runs be s t \<Longrightarrow> runs be s (state_step be p t)"
| runs_revert: "runs be s t \<Longrightarrow> sd_nextRevisionId s \<le> i \<Longrightarrow> RevertToSnapshot be i t = Ret t' \<Longrightarrow> runs be s t'"

lemma query_undoes: "query_ok be s r q \<Longrightarrow> undoes be s (snd q)"
  by (simp add: query_ok_def)

lemmas undoes_ops = CreateAccount_ok(1) AddBalance_ok(1) SubBalance_ok(1) SetBalance_ok(1) SetNonce_ok(1) SetCode_ok(1)
  SetState_ok(1) Suicide_ok(1) AddRefund_ok(1) AddLog_ok(1) AddPreimage_ok(1) GetCodeSize_undoes(1)
  query_ok_Exist [THEN query_undoes] query_ok_Empty [THEN query_undoes] query_ok_GetBalance [THEN query_undoes]
  query_ok_GetNonce [THEN query_undoes] query_ok_GetCode [THEN query_undoes] query_ok_GetCodeHash [THEN query_undoes]
  query_ok_GetState [THEN query_undoes] query_ok_HasSuicided [THEN query_undoes]

lemma since_step:
  assumes "state_ok be s"
  shows "since be s (state_step be p s)"
proof -
  have "objs_ok be s"
    using assms by (simp add: state_ok_def)
  then show ?thesis
    using assms by (cases p) (simp_all add: undoes_since undoes_ops since_Snapshot)
qed

lemma runs_since:
  assumes "runs be s s'" and "state_ok be s"
  shows "since be s s'"
  using assms
proof (induction rule: runs.induct)
  case (runs_step t p)
  then show ?case
    using since_step since_ok since_trans by blast
next
  case (runs_revert t i t')
  then have "since be s t"
    by blast
  moreover have "i \<in> fst ` set (sd_validRevisions t)"
    using runs_revert.hyps(3) RevertToSnapshot_unknown [of i t be] by fastforce
  ultimately show ?case
    using since_revert [of be s t i] runs_revert by (auto simp: state_ok_def)
qed (rule since_refl)

section \<open>The contract of snapshots\<close>

text \<open>
  What a client of the state relies on: it may run operations after a snapshot, and on an
  error go back. \<open>attempt\<close> is the shape of the calls of the virtual machine.
\<close>

definition attempt :: "('s \<Rightarrow> 'i \<times> 's) \<Rightarrow> ('i \<Rightarrow> 's \<Rightarrow> 's go) \<Rightarrow> ('s \<Rightarrow> bool \<times> 's) \<Rightarrow> 's \<Rightarrow> (bool \<times> 's) go" where
  "attempt snap revert body s =
     (let (i, s1) = snap s; (failed, s2) = body s1
      in if failed then go_bind (revert i s2) (\<lambda>s. Ret (True, s)) else Ret (False, s2))"

locale snapshots =
  fixes ok :: "'s \<Rightarrow> bool" and run :: "'s \<Rightarrow> 's \<Rightarrow> bool" and same :: "'s \<Rightarrow> 's \<Rightarrow> bool"
    and snap :: "'s \<Rightarrow> 'i \<times> 's" and revert :: "'i \<Rightarrow> 's \<Rightarrow> 's go"
  assumes run_refl: "ok s \<Longrightarrow> run s s"
    and run_trans: "run s t \<Longrightarrow> run t u \<Longrightarrow> run s u"
    and run_ok: "run s t \<Longrightarrow> ok t"
    and snap_run: "ok s \<Longrightarrow> run s (snd (snap s))"
    and revert_same: "ok s \<Longrightarrow> snap s = (i, s1) \<Longrightarrow> run s1 s2 \<Longrightarrow> \<exists>t. revert i s2 = Ret t \<and> same t s \<and> run s t"
begin

lemma attempt_all_or_nothing:
  assumes ok: "ok s" and body: "\<And>t. ok t \<Longrightarrow> run t (snd (body t))"
  shows "\<exists>failed t. attempt snap revert body s = Ret (failed, t) \<and> run s t \<and>
    (failed \<longrightarrow> same t s) \<and> (\<not> failed \<longrightarrow> t = snd (body (snd (snap s))))"
proof -
  obtain i s1 failed s2 where *: "snap s = (i, s1)" "body s1 = (failed, s2)"
    by (metis prod.exhaust)
  have s1: "run s s1" "ok s1"
    using snap_run [OF ok] run_ok * by auto
  then have s2: "run s1 s2"
    using body [of s1] * by simp
  show ?thesis
  proof (cases failed)
    case True
    obtain t where "revert i s2 = Ret t" "same t s" "run s t"
      using revert_same [OF ok *(1) s2] by blast
    then show ?thesis
      using True * by (auto simp: attempt_def)
  next
    case False
    then show ?thesis
      using * run_trans [OF s1(1) s2] by (auto simp: attempt_def)
  qed
qed

end

interpretation statedb: snapshots "state_ok be" "since be" "sim be" Snapshot "RevertToSnapshot be" for be
proof unfold_locales
  fix s t u :: StateDB
  show "state_ok be s \<Longrightarrow> since be s s" "since be s t \<Longrightarrow> since be t u \<Longrightarrow> since be s u" "since be s t \<Longrightarrow> state_ok be t"
    "state_ok be s \<Longrightarrow> since be s (snd (Snapshot s))"
    by (fact since_refl since_trans since_ok since_Snapshot)+
next
  fix s s1 s2 i
  assume "state_ok be s" "Snapshot s = (i, s1)" "since be s1 s2"
  then show "\<exists>t. RevertToSnapshot be i s2 = Ret t \<and> sim be t s \<and> since be s t"
    using revert_restores by blast
qed

section \<open>Properties\<close>

definition sample_backend :: Backend where
  "sample_backend =
     \<lparr>be_keccak = (\<lambda>bs. word_of_int (SetBytes bs + 1)), be_OpenStorageTrie = (\<lambda>_ _. None), be_ContractCode = (\<lambda>_ _. None),
      be_ContractCodeSize = (\<lambda>_ _. None), be_storageHash = (\<lambda>_. 1), be_stateHash = (\<lambda>_. 1)\<rparr>"

lemma state_ok_New: "state_ok be (state_New tr)"
  by (simp add: state_ok_def objs_ok_def revs_ok_def state_New_def)

text \<open>
  C28: Take a snapshot of a well-formed state, then run any operations of the state database,
  further snapshots and reverts to these included. \<open>RevertToSnapshot\<close> to the first snapshot
  then succeeds (no panic) and gives a state that no query can tell from the one that was
  snapshot: balances, nonces, code, storage, suicides, logs, preimages and the refund counter
  are those of before; the journal and the stack of revisions are as before as well.
\<close>

theorem RevertToSnapshot_restores:
  assumes "state_ok be s" and "Snapshot s = (i, s1)" and "runs be s1 s2"
  shows "\<exists>t. RevertToSnapshot be i s2 = Ret t \<and> sim be t s \<and> sd_journal t = sd_journal s \<and>
           sd_validRevisions t = sd_validRevisions s"
proof -
  have "state_ok be s1"
    using since_ok [OF since_Snapshot [OF assms(1)]] assms(2) by simp
  then show ?thesis
    using revert_restores [OF assms(1,2) runs_since [OF assms(3)]] by blast
qed

theorem RevertToSnapshot_restores_witness:
  "\<exists>t. RevertToSnapshot sample_backend 0
         (SetState sample_backend 1 7 8 (AddBalance sample_backend 1 5 (snd (Snapshot (state_New (\<lambda>_. Absent)))))) = Ret t \<and>
       sim sample_backend t (state_New (\<lambda>_. Absent)) \<and> sd_journal t = [] \<and> sd_validRevisions t = []"
proof -
  let ?s1 = "snd (Snapshot (state_New (\<lambda>_. Absent)))"
  have "runs sample_backend ?s1 (SetState sample_backend 1 7 8 (AddBalance sample_backend 1 5 ?s1))"
    using runs_step [OF runs_step [OF runs_refl], of sample_backend ?s1 "Op_SetState 1 7 8" "Op_AddBalance 1 5"] by simp
  moreover have "Snapshot (state_New (\<lambda>_. Absent)) = (0, ?s1)"
    by (simp add: Snapshot_def state_New_def)
  ultimately show ?thesis
    using RevertToSnapshot_restores [OF state_ok_New [of sample_backend "\<lambda>_. Absent"]] by (simp add: state_New_def)
qed



text \<open>
  C30: Reads see the writes before them, and only these: after a write to an account the
  balance, nonce, code and storage of that account are the written ones, and those of all
  other accounts and storage slots are unchanged.
\<close>

theorem read_after_write:
  assumes "objs_ok be s"
  shows "fst (GetBalance be b (AddBalance be a x s)) = fst (GetBalance be b s) + (if b = a then x else 0) \<and>
    fst (GetNonce be b (SetNonce be a n s)) = (if b = a then n else fst (GetNonce be b s)) \<and>
    fst (GetCode be b (SetCode be a c s)) = (if b = a then Some c else fst (GetCode be b s)) \<and>
    fst (GetState be b k (SetState be a l v s)) = (if b = a \<and> k = l then v else fst (GetState be b k s))"
proof (intro conjI)
  have fresh: "av_balance (fresh_view be a) = 0" "av_storage (fresh_view be a) k = 0"
    by (simp_all add: fresh_view_def so_view_def newObject_def emptyAccount_def slot_of_def trie_of_def openTrie_def slot_in_def)
  have ok: "objs_ok be (AddBalance be a x s)" "objs_ok be (SetNonce be a n s)" "objs_ok be (SetCode be a c s)"
      "objs_ok be (SetState be a l v s)"
    using AddBalance_ok [OF assms] SetNonce_ok [OF assms] SetCode_ok [OF assms] SetState_ok [OF assms]
    by (simp_all add: undoes_def)
  note q = query_ok_GetBalance query_ok_GetNonce query_ok_GetCode query_ok_GetState
  have bal: "fst (GetBalance be b t) = (case view be t b of None \<Rightarrow> 0 | Some v \<Rightarrow> av_balance v)" if "objs_ok be t" for t
    using query_ok_GetBalance [OF that] by (simp add: query_ok_def)
  show "fst (GetBalance be b (AddBalance be a x s)) = fst (GetBalance be b s) + (if b = a then x else 0)"
    using fresh by (auto simp: bal assms ok AddBalance_ok [OF assms] view_or_fresh_def split: option.split)
  show "fst (GetNonce be b (SetNonce be a n s)) = (if b = a then n else fst (GetNonce be b s))"
    using q(2) [OF ok(2)] q(2) [OF assms] by (auto simp: query_ok_def SetNonce_ok [OF assms] split: option.split)
  show "fst (GetCode be b (SetCode be a c s)) = (if b = a then Some c else fst (GetCode be b s))"
    using q(3) [OF ok(3)] q(3) [OF assms] by (auto simp: query_ok_def SetCode_ok [OF assms] split: option.split)
  show "fst (GetState be b k (SetState be a l v s)) = (if b = a \<and> k = l then v else fst (GetState be b k s))"
    using q(4) [OF ok(4), where a = b and k = k] q(4) [OF assms, where a = b and k = k] fresh(2)
    by (auto simp: query_ok_def SetState_ok [OF assms] view_or_fresh_def split: option.split)
qed

theorem read_after_write_witness:
  "fst (GetBalance sample_backend 1 (AddBalance sample_backend 1 5 (state_New (\<lambda>_. Absent)))) = 5"
proof -
  have "objs_ok sample_backend (state_New (\<lambda>_. Absent))"
    by (simp add: objs_ok_def state_New_def)
  from read_after_write [OF this, of 1 1 5] show ?thesis
    by (simp add: GetBalance_def getStateObject_def state_New_def)
qed

end
