(* ===== verification/State_Commit.thy ===== *)
theory State_Commit
  imports State_Revert "HOL-Library.Multiset"
begin

text \<open>
  Writing the state out: \<open>Finalise\<close>, \<open>IntermediateRoot\<close>, \<open>DeleteSuicides\<close>, \<open>Commit\<close> and
  \<open>Copy\<close> of \<open>core/state/statedb.go\<close>, and the nonces of \<open>core/state/managed_state.go\<close>.

  Go iterates over a map in an arbitrary order. \<open>Finalise\<close> goes through the list of dirty
  addresses, and the theorem on its order says that any other order gives the same state;
  \<open>Commit\<close> goes through the list of the addresses with an object that it is given.
\<close>

section \<open>Finalise and Commit\<close>

definition updateStateObject :: "stateObject \<Rightarrow> StateDB \<Rightarrow> StateDB go" where
  "updateStateObject so s =
     (if acct_Balance (so_data so) < 0 then Panic
      else let (err, t) = TryUpdate (sd_trie s) (so_address so) (so_data so) in Ret (sd_setError err (s\<lparr>sd_trie := t\<rparr>)))"

definition deleteStateObject :: "stateObject \<Rightarrow> StateDB \<Rightarrow> StateDB" where
  "deleteStateObject so s =
     (let s = setStateObject (so\<lparr>so_deleted := True\<rparr>) s;
          (err, t) = TryDelete (sd_trie s) (so_address so)
      in sd_setError err (s\<lparr>sd_trie := t\<rparr>))"

definition finaliseObject :: "Backend \<Rightarrow> bool \<Rightarrow> address \<Rightarrow> StateDB \<Rightarrow> StateDB go" where
  "finaliseObject be deleteEmptyObjects addr s =
     (case sd_stateObjects s addr of None \<Rightarrow> Panic
      | Some so \<Rightarrow>
        if so_suicided so \<or> (deleteEmptyObjects \<and> so_empty be so) then Ret (deleteStateObject so s)
        else let so = so_updateRoot be so in updateStateObject so (setStateObject so s))"

primrec go_each :: "('a \<Rightarrow> 's \<Rightarrow> 's go) \<Rightarrow> 'a list \<Rightarrow> 's \<Rightarrow> 's go" where
  "go_each f [] s = Ret s"
| "go_each f (x # xs) s = go_bind (f x s) (go_each f xs)"

definition Finalise :: "Backend \<Rightarrow> bool \<Rightarrow> StateDB \<Rightarrow> StateDB go" where
  "Finalise be deleteEmptyObjects s =
     go_bind (go_each (finaliseObject be deleteEmptyObjects) (sd_stateObjectsDirty s) s) (\<lambda>s. Ret (clearJournalAndRefund s))"

definition IntermediateRoot :: "Backend \<Rightarrow> bool \<Rightarrow> StateDB \<Rightarrow> (hash \<times> StateDB) go" where
  "IntermediateRoot be deleteEmptyObjects s =
     go_bind (Finalise be deleteEmptyObjects s) (\<lambda>s. Ret (be_stateHash be (sd_trie s), s))"

definition deleteSuicide :: "address \<Rightarrow> StateDB \<Rightarrow> StateDB go" where
  "deleteSuicide addr s =
     (case sd_stateObjects s addr of None \<Rightarrow> Panic
      | Some so \<Rightarrow> Ret (deleteDirty addr (if so_suicided so then setStateObject (so\<lparr>so_deleted := True\<rparr>) s else s)))"

definition DeleteSuicides :: "StateDB \<Rightarrow> StateDB go" where
  "DeleteSuicides s = (let s = clearJournalAndRefund s in go_each deleteSuicide (sd_stateObjectsDirty s) s)"

text \<open>
  The state of \<open>Commit\<close>: the contract codes it handed to the trie database so far, and the
  state. An error of \<open>CommitTrie\<close> ends the loop; the deferred \<open>clearJournalAndRefund\<close> runs in
  either case.
\<close>

type_synonym commit_result = "db_error option \<times> (hash \<times> bytes) list \<times> StateDB"

definition commitObject :: "Backend \<Rightarrow> bool \<Rightarrow> address \<Rightarrow> commit_result \<Rightarrow> commit_result go" where
  "commitObject be deleteEmptyObjects addr = (\<lambda>(err, codes, s).
     if err \<noteq> None then Ret (err, codes, s)
     else case sd_stateObjects s addr of None \<Rightarrow> Panic
      | Some so \<Rightarrow>
        (let isDirty = addr \<in> set (sd_stateObjectsDirty s) in
         if so_suicided so \<or> (isDirty \<and> deleteEmptyObjects \<and> so_empty be so)
         then Ret (None, codes, deleteDirty addr (deleteStateObject so s))
         else if isDirty then
           (let (codes, so) = (case so_code so of
                  Some c \<Rightarrow> if so_dirtyCode so then (codes @ [(acct_CodeHash (so_data so), c)], so\<lparr>so_dirtyCode := False\<rparr>)
                            else (codes, so)
                | None \<Rightarrow> (codes, so));
                (e, so) = so_CommitTrie be so;
                s = setStateObject so s
            in case e of Some e \<Rightarrow> Ret (Some e, codes, s)
               | None \<Rightarrow> go_bind (updateStateObject so s) (\<lambda>s. Ret (None, codes, deleteDirty addr s)))
         else Ret (None, codes, deleteDirty addr s)))"

definition Commit :: "Backend \<Rightarrow> bool \<Rightarrow> address list \<Rightarrow> StateDB \<Rightarrow> ((db_error + hash) \<times> (hash \<times> bytes) list \<times> StateDB) go" where
  "Commit be deleteEmptyObjects order s =
     go_bind (go_each (commitObject be deleteEmptyObjects) order (None, [], s)) (\<lambda>(err, codes, s).
       Ret (case err of Some e \<Rightarrow> Inl e | None \<Rightarrow> Inr (be_stateHash be (sd_trie s)), codes, clearJournalAndRefund s))"

text \<open>\<open>Copy\<close> takes the dirty objects along; a dirty address without an object is a panic.\<close>

definition copyObject :: "Backend \<Rightarrow> StateDB \<Rightarrow> address \<Rightarrow> StateDB \<Rightarrow> StateDB go" where
  "copyObject be s addr c =
     (case sd_stateObjects s addr of None \<Rightarrow> Panic
      | Some so \<Rightarrow>
        Ret (MarkStateObjectDirty addr (c\<lparr>sd_stateObjects := (sd_stateObjects c)(addr \<mapsto> so_deepCopy be so True)\<rparr>)))"

definition state_Copy :: "Backend \<Rightarrow> StateDB \<Rightarrow> StateDB go" where
  "state_Copy be s =
     go_each (copyObject be s) (sd_stateObjectsDirty s)
       ((state_New (sd_trie s))\<lparr>sd_refund := sd_refund s, sd_logs := sd_logs s, sd_logSize := sd_logSize s,
          sd_preimages := sd_preimages s\<rparr>)"

section \<open>Managed nonces\<close>

record managed_account =
  ma_nstart :: u64
  ma_nonces :: "bool list"

record ManagedState =
  ms_StateDB :: StateDB
  ms_accounts :: "address \<Rightarrow> managed_account option"

definition newAccount :: "stateObject \<Rightarrow> managed_account" where
  "newAccount so = \<lparr>ma_nstart = acct_Nonce (so_data so), ma_nonces = []\<rparr>"

definition ManageState :: "Backend \<Rightarrow> StateDB \<Rightarrow> ManagedState go" where
  "ManageState be s =
     go_bind (state_Copy be s) (\<lambda>c. Ret \<lparr>ms_StateDB = c, ms_accounts = (\<lambda>_. None)\<rparr>)"

definition ms_SetState :: "StateDB \<Rightarrow> ManagedState \<Rightarrow> ManagedState" where
  "ms_SetState s ms = ms\<lparr>ms_StateDB := s\<rparr>"

definition hasAccount :: "address \<Rightarrow> ManagedState \<Rightarrow> bool" where
  "hasAccount addr ms \<longleftrightarrow> ms_accounts ms addr \<noteq> None"

definition ms_getAccount :: "Backend \<Rightarrow> address \<Rightarrow> ManagedState \<Rightarrow> managed_account \<times> ManagedState" where
  "ms_getAccount be addr ms =
     (case ms_accounts ms addr of
        None \<Rightarrow>
          (let (so, s) = GetOrNewStateObject be addr (ms_StateDB ms); acc = newAccount so
           in (acc, ms\<lparr>ms_StateDB := s, ms_accounts := (ms_accounts ms)(addr \<mapsto> acc)\<rparr>))
      | Some acc \<Rightarrow>
          (let (so, s) = getStateObject be addr (ms_StateDB ms);
               ms = ms\<lparr>ms_StateDB := s\<rparr>
           in case so of
                Some o' \<Rightarrow>
                  if of_nat (length (ma_nonces acc)) + ma_nstart acc < acct_Nonce (so_data o')
                  then (newAccount o', ms\<lparr>ms_accounts := (ms_accounts ms)(addr \<mapsto> newAccount o')\<rparr>)
                  else (acc, ms)
              | None \<Rightarrow> (acc, ms)))"

text \<open>The slice \<open>nonces[:n-nstart]\<close> is taken only when its bound is in range.\<close>

definition RemoveNonce :: "Backend \<Rightarrow> address \<Rightarrow> u64 \<Rightarrow> ManagedState \<Rightarrow> ManagedState" where
  "RemoveNonce be addr n ms =
     (if hasAccount addr ms then
        (let (acc, ms) = ms_getAccount be addr ms
         in if n - ma_nstart acc \<le> of_nat (length (ma_nonces acc))
            then ms\<lparr>ms_accounts := (ms_accounts ms)(addr \<mapsto> acc\<lparr>ma_nonces := take (unat (n - ma_nstart acc)) (ma_nonces acc)\<rparr>)\<rparr>
            else ms)
      else ms)"

primrec firstFree :: "bool list \<Rightarrow> nat option" where
  "firstFree [] = None"
| "firstFree (b # bs) = (if \<not> b then Some 0 else map_option Suc (firstFree bs))"

definition NewNonce :: "Backend \<Rightarrow> address \<Rightarrow> ManagedState \<Rightarrow> u64 \<times> ManagedState" where
  "NewNonce be addr ms =
     (let (acc, ms) = ms_getAccount be addr ms
      in case firstFree (ma_nonces acc) of
           Some i \<Rightarrow> (ma_nstart acc + of_nat i, ms)
         | None \<Rightarrow>
           (let nonces = ma_nonces acc @ [True]
            in (of_nat (length nonces - 1) + ma_nstart acc,
                ms\<lparr>ms_accounts := (ms_accounts ms)(addr \<mapsto> acc\<lparr>ma_nonces := nonces\<rparr>)\<rparr>)))"

definition ms_GetNonce :: "Backend \<Rightarrow> address \<Rightarrow> ManagedState \<Rightarrow> u64 \<times> ManagedState" where
  "ms_GetNonce be addr ms =
     (if hasAccount addr ms then
        (let (acc, ms) = ms_getAccount be addr ms in (of_nat (length (ma_nonces acc)) + ma_nstart acc, ms))
      else (let (n, s) = GetNonce be addr (ms_StateDB ms) in (n, ms\<lparr>ms_StateDB := s\<rparr>)))"

definition ms_SetNonce :: "Backend \<Rightarrow> address \<Rightarrow> u64 \<Rightarrow> ManagedState \<Rightarrow> ManagedState" where
  "ms_SetNonce be addr nonce ms =
     (let (so, s) = GetOrNewStateObject be addr (ms_StateDB ms);
          s = so_SetNonce nonce so s
      in ms\<lparr>ms_StateDB := s,
            ms_accounts := (ms_accounts ms)(addr \<mapsto> newAccount (so\<lparr>so_data := (so_data so)\<lparr>acct_Nonce := nonce\<rparr>\<rparr>))\<rparr>)"

section \<open>The effect of Finalise\<close>

definition gone :: "Backend \<Rightarrow> bool \<Rightarrow> stateObject \<Rightarrow> bool" where
  "gone be del so \<longleftrightarrow> so_suicided so \<or> (del \<and> so_empty be so)"

definition finalised :: "Backend \<Rightarrow> bool \<Rightarrow> stateObject \<Rightarrow> stateObject" where
  "finalised be del so = (if gone be del so then so\<lparr>so_deleted := True\<rparr> else so_updateRoot be so)"

definition written :: "Backend \<Rightarrow> bool \<Rightarrow> stateObject \<Rightarrow> Account lookup \<Rightarrow> Account lookup" where
  "written be del so old =
     (case old of Broken \<Rightarrow> Broken | _ \<Rightarrow> if gone be del so then Absent else Found (so_data (so_updateRoot be so)))"

definition overdrawn :: "Backend \<Rightarrow> bool \<Rightarrow> stateObject \<Rightarrow> bool" where
  "overdrawn be del so \<longleftrightarrow> \<not> gone be del so \<and> acct_Balance (so_data so) < 0"

text \<open>The state after the objects of a set of addresses were finalised.\<close>

definition finalise_set :: "Backend \<Rightarrow> bool \<Rightarrow> address set \<Rightarrow> StateDB \<Rightarrow> StateDB" where
  "finalise_set be del A s =
     s\<lparr>sd_trie := (\<lambda>a. if a \<in> A then (case sd_stateObjects s a of Some so \<Rightarrow> written be del so (sd_trie s a)
                      | None \<Rightarrow> sd_trie s a) else sd_trie s a),
       sd_stateObjects := (\<lambda>a. if a \<in> A then map_option (finalised be del) (sd_stateObjects s a) else sd_stateObjects s a),
       sd_dbErr := (if sd_dbErr s = None \<and> (\<exists>a\<in>A. sd_trie s a = Broken) then Some ErrMissingNode else sd_dbErr s)\<rparr>"

lemma so_code_getTrie: "so_code (snd (getTrie be so)) = so_code so"
  by (simp add: getTrie_def split: option.split)

lemma so_updateTrie_simps [simp]:
  "so_code (snd (so_updateTrie be so)) = so_code so"
  "so_address (snd (so_updateTrie be so)) = so_address so" "so_addrHash (snd (so_updateTrie be so)) = so_addrHash so"
  "so_data (snd (so_updateTrie be so)) = so_data so" "so_suicided (snd (so_updateTrie be so)) = so_suicided so"
  "so_deleted (snd (so_updateTrie be so)) = so_deleted so" "so_onDirty (snd (so_updateTrie be so)) = so_onDirty so"
  "so_cachedStorage (snd (so_updateTrie be so)) = so_cachedStorage so" "so_dirtyStorage (snd (so_updateTrie be so)) = []"
  using getTrie_core [of so be] so_code_getTrie [of be so]
  by (auto simp: so_updateTrie_def same_core_def Let_def split: prod.splits)

lemma so_updateRoot_simps [simp]:
  "so_code (so_updateRoot be so) = so_code so"
  "so_address (so_updateRoot be so) = so_address so" "so_addrHash (so_updateRoot be so) = so_addrHash so"
  "acct_Balance (so_data (so_updateRoot be so)) = acct_Balance (so_data so)"
  "acct_Nonce (so_data (so_updateRoot be so)) = acct_Nonce (so_data so)"
  "acct_CodeHash (so_data (so_updateRoot be so)) = acct_CodeHash (so_data so)"
  "so_suicided (so_updateRoot be so) = so_suicided so" "so_deleted (so_updateRoot be so) = so_deleted so"
  "so_cachedStorage (so_updateRoot be so) = so_cachedStorage so" "so_dirtyStorage (so_updateRoot be so) = []"
  using so_updateTrie_simps [of be so] by (auto simp: so_updateRoot_def split: prod.splits simp del: so_updateTrie_simps)

lemma finalise_single:
  assumes "sd_stateObjects s a = Some so"
  shows "finalise_set be del {a} s =
    s\<lparr>sd_trie := (sd_trie s)(a := written be del so (sd_trie s a)),
      sd_stateObjects := (sd_stateObjects s)(a \<mapsto> finalised be del so),
      sd_dbErr := (if sd_dbErr s = None \<and> sd_trie s a = Broken then Some ErrMissingNode else sd_dbErr s)\<rparr>"
  using assms by (intro StateDB.equality) (auto simp: finalise_set_def fun_eq_iff)

lemma finaliseObject_eq:
  assumes "sd_stateObjects s a = Some so" and "so_address so = a"
  shows "finaliseObject be del a s = (if overdrawn be del so then Panic else Ret (finalise_set be del {a} s))"
proof (cases "gone be del so")
  case True
  have "deleteStateObject so s = finalise_set be del {a} s"
    unfolding finalise_single [OF assms(1)] using True assms
    by (intro StateDB.equality; cases "sd_trie s a")
      (auto simp: deleteStateObject_def Let_def TryDelete_def sd_setError_def setStateObject_def written_def finalised_def)
  then show ?thesis
    using True assms by (simp add: finaliseObject_def gone_def overdrawn_def)
next
  case False
  let ?so = "so_updateRoot be so"
  have "updateStateObject ?so (setStateObject ?so s) = (if overdrawn be del so then Panic else Ret (finalise_set be del {a} s))"
    unfolding finalise_single [OF assms(1)] using False assms
    by (cases "sd_trie s a")
      (auto simp: updateStateObject_def TryUpdate_def sd_setError_def setStateObject_def written_def finalised_def overdrawn_def
        intro!: StateDB.equality)
  then show ?thesis
    using False assms by (auto simp: finaliseObject_def gone_def Let_def)
qed

text \<open>The loop of \<open>Finalise\<close> in closed form, for any order of the addresses.\<close>

lemma finalise_each:
  assumes "distinct as" and "\<forall>a\<in>set as. \<exists>so. sd_stateObjects s a = Some so \<and> so_address so = a"
  shows "go_each (finaliseObject be del) as s =
    (if \<exists>a\<in>set as. \<exists>so. sd_stateObjects s a = Some so \<and> overdrawn be del so then Panic
     else Ret (finalise_set be del (set as) s))"
  using assms
proof (induction as arbitrary: s)
  case Nil
  have "finalise_set be del {} s = s"
    by (intro StateDB.equality) (simp_all add: finalise_set_def)
  then show ?case
    by simp
next
  case (Cons a as)
  obtain so where so: "sd_stateObjects s a = Some so" "so_address so = a"
    using Cons.prems(2) by auto
  let ?s = "finalise_set be del {a} s"
  have same: "sd_stateObjects ?s b = sd_stateObjects s b" "sd_trie ?s b = sd_trie s b" if "b \<in> set as" for b
    using Cons.prems(1) that by (auto simp: finalise_set_def)
  have step: "finalise_set be del (set as) ?s = finalise_set be del (set (a # as)) s"
    using Cons.prems(1) so
    by (intro StateDB.equality) (auto simp: finalise_set_def fun_eq_iff split: option.split)
  have "go_each (finaliseObject be del) as ?s =
    (if \<exists>a\<in>set as. \<exists>so. sd_stateObjects s a = Some so \<and> overdrawn be del so then Panic
     else Ret (finalise_set be del (set as) ?s))"
    using Cons.IH [of ?s] Cons.prems same by simp
  then show ?case
    using finaliseObject_eq [OF so, of be del] so step by auto
qed

section \<open>Storage\<close>

lemma SetBytes_dropWhile_0: "SetBytes (dropWhile (\<lambda>b. b = 0) bs) = SetBytes bs"
  by (induction bs) (simp_all add: SetBytes_Cons)

lemma length_dropWhile_Hash: "length (dropWhile (\<lambda>b. b = 0) (Hash_Bytes v)) \<le> 32"
  using length_dropWhile_le [of "\<lambda>b. b = 0" "Hash_Bytes v"] by (simp add: Hash_Bytes_def)

lemma encodeSlot_eq: "encodeSlot v = rlp_string (dropWhile (\<lambda>b. b = 0) (Hash_Bytes v))"
proof -
  let ?b = "dropWhile (\<lambda>b. b = 0) (Hash_Bytes v)"
  have "length (rlp_string ?b) \<le> 33"
    using length_dropWhile_Hash [of v] by (auto simp: rlp_string_def puthead_def of_nat_less_56)
  then have "EncodeToBytes (VBytes ?b) = Ret (Inr (rlp_string ?b))"
    using EncodeToBytes_eq(1) [of "VBytes ?b"] by simp
  then show ?thesis
    by (simp add: encodeSlot_def)
qed

text \<open>What \<open>updateTrie\<close> writes for a non-zero value, \<open>GetState\<close> reads back.\<close>

lemma decode_encodeSlot: "decodeSlot (encodeSlot v) = (None, v)"
proof -
  let ?b = "dropWhile (\<lambda>b. b = 0) (Hash_Bytes v)"
  let ?k = "if length ?b = 1 \<and> hd ?b \<le> 0x7F then Kind_Byte else Kind_String"
  have canon: "canonical ?k ?b"
    by (simp add: canonical_def)
  have enc: "encodeSlot v = rlp_one ?k ?b"
    by (simp add: encodeSlot_eq rlp_one_string)
  have "length (encodeSlot v) \<le> 33"
    unfolding encodeSlot_eq using length_dropWhile_Hash [of v] by (auto simp: rlp_string_def puthead_def of_nat_less_56)
  then have "Split (encodeSlot v) = Ret (Inr (?k, ?b, []))"
    using Split_iff [of "encodeSlot v" ?k ?b "[]"] canon enc by simp
  moreover have "encodeSlot v \<noteq> []"
    using rlp_one_not_Nil [OF canon] enc by simp
  moreover have "BytesToHash ?b = v"
    using BytesToHash_Bytes [of v] by (simp add: BytesToHash_eq SetBytes_dropWhile_0)
  ultimately show ?thesis
    by (simp add: decodeSlot_def)
qed

lemma writeSlot_other: "fst kv \<noteq> k \<Longrightarrow> snd (writeSlot kv et) k = snd et k"
  by (cases "snd et (fst kv)") (auto simp: writeSlot_def TryUpdate_def TryDelete_def split: prod.split)

lemma writeSlot_same:
  "snd et (fst kv) \<noteq> Broken \<Longrightarrow>
     snd (writeSlot kv et) (fst kv) = (if snd kv = 0 then Absent else Found (encodeSlot (snd kv)))"
  by (cases "snd et (fst kv)") (auto simp: writeSlot_def TryUpdate_def TryDelete_def split: prod.split)

lemma fold_writeSlot_other: "k \<notin> fst ` set d \<Longrightarrow> snd (fold writeSlot d et) k = snd et k"
  by (induction d arbitrary: et) (auto simp: writeSlot_other)

lemma fold_writeSlot:
  assumes "distinct (map fst d)" and "map_of d k = Some v" and "snd et k \<noteq> Broken"
  shows "snd (fold writeSlot d et) k = (if v = 0 then Absent else Found (encodeSlot v))"
  using assms
proof (induction d arbitrary: et)
  case (Cons kv d)
  show ?case
  proof (cases "fst kv = k")
    case True
    then have "k \<notin> fst ` set d" and "snd kv = v"
      using Cons.prems by (auto split: if_splits)
    then show ?thesis
      using fold_writeSlot_other [of k d "writeSlot kv et"] True Cons.prems(3) writeSlot_same [of et kv] by simp
  next
    case False
    then show ?thesis
      using Cons by (auto simp: writeSlot_other split: if_splits)
  qed
qed simp

lemma so_updateTrie_trie:
  assumes "so_updateTrie be so = (t, so')"
  shows "t = snd (fold writeSlot (so_dirtyStorage so) (so_dbErr (snd (getTrie be so)), trie_of be so))" and "so_trie so' = Some t"
proof -
  obtain t0 so0 where g: "getTrie be so = (t0, so0)"
    by fastforce
  then have "t0 = trie_of be so" "so_dirtyStorage so0 = so_dirtyStorage so"
    using getTrie_eq [of be so] getTrie_core [of so be] by (auto simp: same_core_def)
  then show "t = snd (fold writeSlot (so_dirtyStorage so) (so_dbErr (snd (getTrie be so)), trie_of be so))" "so_trie so' = Some t"
    using assms g by (auto simp: so_updateTrie_def split: prod.splits)
qed

text \<open>Writing the dirty slots to the trie does not change what is observed, but for the root.\<close>

lemma so_view_updateRoot:
  assumes "obj_ok be a so"
  shows "so_view be (so_updateRoot be so) = (so_view be so)\<lparr>av_root := acct_Root (so_data (so_updateRoot be so))\<rparr>"
proof -
  obtain t so' where u: "so_updateTrie be so = (t, so')"
    by fastforce
  note t = so_updateTrie_trie [OF u]
  have root: "so_updateRoot be so = so'\<lparr>so_data := (so_data so')\<lparr>acct_Root := be_storageHash be t\<rparr>\<rparr>"
    using u by (simp add: so_updateRoot_def)
  have "slot_of be (so_updateRoot be so) k = slot_of be so k" for k
  proof (cases "so_cachedStorage so k")
    case None
    then have "k \<notin> fst ` set (so_dirtyStorage so)"
      using assms by (fastforce simp: obj_ok_def map_le_def dom_map_of_conv_image_fst)
    then have "t k = trie_of be so k"
      using fold_writeSlot_other t(1) by fastforce
    then show ?thesis
      using None t(2) by (simp add: slot_of_def slot_in_def) (simp add: root trie_of_def)
  qed (simp add: slot_of_def)
  then have "slot_of be (so_updateRoot be so) = slot_of be so"
    by (rule ext)
  moreover have "code_of be (so_updateRoot be so) = code_of be so"
    by (cases "so_code so") (simp_all add: code_of_def)
  ultimately show ?thesis
    by (simp add: so_view_def)
qed

section \<open>Properties\<close>

lemma objs_ok_dirty: "objs_ok be s \<Longrightarrow> a \<in> set (sd_stateObjectsDirty s) \<Longrightarrow> \<exists>so. sd_stateObjects s a = Some so \<and> so_address so = a"
  unfolding objs_ok_def obj_ok_def by blast

lemma Finalise_eq:
  assumes "objs_ok be s"
  shows "Finalise be del s =
    (if \<exists>a\<in>set (sd_stateObjectsDirty s). \<exists>so. sd_stateObjects s a = Some so \<and> overdrawn be del so then Panic
     else Ret (clearJournalAndRefund (finalise_set be del (set (sd_stateObjectsDirty s)) s)))"
  using assms finalise_each [of "sd_stateObjectsDirty s" s be del] objs_ok_dirty [OF assms]
  by (simp add: Finalise_def objs_ok_def)

text \<open>
  C31: \<open>Finalise\<close> of a well-formed state. It panics exactly if a dirty account that stays has a
  negative balance. Otherwise the state trie holds, for every dirty account, the account with
  its new storage root, or nothing if the account committed suicide or is empty and empty
  accounts are deleted; all other accounts of the trie are untouched. The deleted accounts can
  no longer be observed, of the other accounts every observation but the storage root is as
  before, and the journal, the revisions and the refund counter are reset.
\<close>

theorem Finalise_writes_dirty_accounts:
  assumes ok: "objs_ok be s"
  shows "(Finalise be del s = Panic \<longleftrightarrow>
      (\<exists>a so. a \<in> set (sd_stateObjectsDirty s) \<and> sd_stateObjects s a = Some so \<and> \<not> gone be del so \<and> acct_Balance (so_data so) < 0)) \<and>
    Finalise be del s \<noteq> NoFuel \<and>
    (\<forall>s'. Finalise be del s = Ret s' \<longrightarrow>
      (\<forall>a. sd_trie s' a =
         (case sd_stateObjects s a of
            Some so \<Rightarrow> if a \<in> set (sd_stateObjectsDirty s) \<and> sd_trie s a \<noteq> Broken
                       then if gone be del so then Absent else Found (so_data (so_updateRoot be so))
                       else sd_trie s a
          | None \<Rightarrow> sd_trie s a)) \<and>
      (\<forall>a v. view be s a = Some v \<longrightarrow>
         (if \<exists>so. a \<in> set (sd_stateObjectsDirty s) \<and> sd_stateObjects s a = Some so \<and> gone be del so then view be s' a = None
          else \<exists>root. view be s' a = Some (v\<lparr>av_root := root\<rparr>))) \<and>
      sd_journal s' = [] \<and> sd_validRevisions s' = [] \<and> sd_refund s' = 0)"
proof (intro conjI allI impI)
  show "Finalise be del s = Panic \<longleftrightarrow>
      (\<exists>a so. a \<in> set (sd_stateObjectsDirty s) \<and> sd_stateObjects s a = Some so \<and> \<not> gone be del so \<and> acct_Balance (so_data so) < 0)"
    unfolding Finalise_eq [OF ok] overdrawn_def by auto
  show "Finalise be del s \<noteq> NoFuel"
    unfolding Finalise_eq [OF ok] by simp
  fix s'
  let ?D = "set (sd_stateObjectsDirty s)"
  assume "Finalise be del s = Ret s'"
  then have s': "s' = clearJournalAndRefund (finalise_set be del ?D s)"
    unfolding Finalise_eq [OF ok] by (simp split: if_splits)
  show "sd_journal s' = []" "sd_validRevisions s' = []" "sd_refund s' = 0"
    by (simp_all add: s' clearJournalAndRefund_def)
  have trie: "sd_trie s' = sd_trie (finalise_set be del ?D s)"
    and objs: "sd_stateObjects s' = sd_stateObjects (finalise_set be del ?D s)"
    by (simp_all add: s' clearJournalAndRefund_def)
  show "sd_trie s' a =
         (case sd_stateObjects s a of
            Some so \<Rightarrow> if a \<in> ?D \<and> sd_trie s a \<noteq> Broken
                       then if gone be del so then Absent else Found (so_data (so_updateRoot be so))
                       else sd_trie s a
          | None \<Rightarrow> sd_trie s a)" for a
    unfolding trie by (cases "sd_trie s a") (auto simp: finalise_set_def written_def split: option.split)
  fix a v
  assume v: "view be s a = Some v"
  then obtain so where so: "obj_at be s a = Some so" "v = so_view be so"
    by (auto simp: view_def)
  have none: "a \<notin> ?D" if "sd_stateObjects s a = None"
    using objs_ok_dirty [OF ok, of a] that by auto
  show "if \<exists>so. a \<in> ?D \<and> sd_stateObjects s a = Some so \<and> gone be del so then view be s' a = None
          else \<exists>root. view be s' a = Some (v\<lparr>av_root := root\<rparr>)"
  proof (cases "a \<in> ?D")
    case False
    then have "obj_at be s' a = obj_at be s a"
      unfolding obj_at_def trie objs by (simp add: finalise_set_def split: option.split)
    then have "view be s' a = Some (v\<lparr>av_root := av_root v\<rparr>)"
      using v by (simp add: view_def)
    then have "\<exists>root. view be s' a = Some (v\<lparr>av_root := root\<rparr>)"
      by blast
    then show ?thesis
      using False by simp
  next
    case True
    then have at: "sd_stateObjects s a = Some so" "\<not> so_deleted so"
      using so none by (auto simp: obj_at_def split: option.splits if_splits)
    have "obj_ok be a so"
      using obj_at_viewD(2) [OF ok so(1)] .
    then show ?thesis
      using True at so so_view_updateRoot [of be a so] unfolding view_def obj_at_def objs
      by (auto simp: finalise_set_def finalised_def)
  qed
qed

definition sample_account :: Account where
  "sample_account = \<lparr>acct_Nonce = 0, acct_Balance = 0, acct_Root = 0, acct_CodeHash = emptyCodeHash sample_backend\<rparr>"

definition sample_state :: StateDB where
  "sample_state = state_New ((\<lambda>_. Absent)(7 := Found sample_account))"

theorem Finalise_writes_dirty_accounts_witness:
  "\<exists>s'. Finalise sample_backend True (AddBalance sample_backend 9 5 sample_state) = Ret s' \<and>
     (\<exists>d. sd_trie s' 9 = Found d) \<and> sd_journal s' = []"
proof -
  let ?s = "AddBalance sample_backend 9 5 sample_state"
  have ok: "objs_ok sample_backend ?s"
    using AddBalance_ok(1) [of sample_backend sample_state 9 5] state_ok_New
    by (simp add: undoes_def sample_state_def state_ok_def)
  have "sd_stateObjectsDirty ?s = [9] \<and> map_option (\<lambda>so. (gone sample_backend True so, acct_Balance (so_data so))) (sd_stateObjects ?s 9) = Some (False, 5)
      \<and> sd_trie ?s 9 = Absent"
    by code_simp
  then show ?thesis
    using Finalise_writes_dirty_accounts [OF ok, of True] by (cases "Finalise sample_backend True ?s") auto
qed



text \<open>
  C33: Storage survives the caches. After \<open>updateTrie\<close> a reader of the storage trie that has no
  cache decodes, for every slot that was written since, the value written (a slot set to zero is
  absent); the other slots of the trie are as before.
\<close>

theorem updateTrie_persists_storage:
  assumes "obj_ok be a so" and "so_updateTrie be so = (t, so')"
  shows "(\<forall>k v. map_of (so_dirtyStorage so) k = Some v \<longrightarrow> trie_of be so k \<noteq> Broken \<longrightarrow> slot_in t k = v) \<and>
    (\<forall>k. map_of (so_dirtyStorage so) k = None \<longrightarrow> t k = trie_of be so k) \<and> so_trie so' = Some t \<and> so_dirtyStorage so' = []"
proof (intro conjI allI impI)
  note t = so_updateTrie_trie [OF assms(2)]
  show "slot_in t k = v" if "map_of (so_dirtyStorage so) k = Some v" "trie_of be so k \<noteq> Broken" for k v
  proof -
    have "t k = (if v = 0 then Absent else Found (encodeSlot v))"
      unfolding t(1) by (rule fold_writeSlot [OF _ that(1)]) (use assms(1) that(2) in \<open>simp_all add: obj_ok_def\<close>)
    then show ?thesis
      by (simp add: slot_in_def decode_encodeSlot)
  qed
  show "t k = trie_of be so k" if "map_of (so_dirtyStorage so) k = None" for k
    using fold_writeSlot_other [of k "so_dirtyStorage so"] that t(1) by (simp add: map_of_eq_None_iff)
  show "so_trie so' = Some t" by (rule t(2))
  show "so_dirtyStorage so' = []"
    using so_updateTrie_simps [of be so] assms(2) by simp
qed

definition sample_object :: stateObject where
  "sample_object =
     (newObject sample_backend 7 sample_account True)\<lparr>so_cachedStorage := [1 \<mapsto> 42], so_dirtyStorage := [(1, 42)]\<rparr>"

theorem updateTrie_persists_storage_witness:
  "slot_in (fst (so_updateTrie sample_backend sample_object)) 1 = 42"
proof -
  have "obj_ok sample_backend 7 sample_object"
    by (auto simp: obj_ok_def sample_object_def newObject_def map_le_def)
  moreover have "map_of (so_dirtyStorage sample_object) 1 = Some 42" "trie_of sample_backend sample_object 1 \<noteq> Broken"
    by (simp_all add: sample_object_def trie_of_def openTrie_def newObject_def sample_account_def)
  ultimately show ?thesis
    using updateTrie_persists_storage [of sample_backend 7 sample_object "fst (so_updateTrie sample_backend sample_object)"
        "snd (so_updateTrie sample_backend sample_object)"] by simp
qed


text \<open>The nonces a managed account has handed out are all in use.\<close>

definition nonces_ok :: "ManagedState \<Rightarrow> bool" where
  "nonces_ok ms \<longleftrightarrow> (\<forall>a acc. ms_accounts ms a = Some acc \<longrightarrow> False \<notin> set (ma_nonces acc))"

lemma firstFree_all: "False \<notin> set bs \<Longrightarrow> firstFree bs = None"
  by (induction bs) auto

lemma ms_getAccount_ok:
  assumes "objs_ok be (ms_StateDB ms)" and "nonces_ok ms" and get: "ms_getAccount be a ms = (acc, ms')"
  shows "nonces_ok ms' \<and> ms_accounts ms' a = Some acc \<and> objs_ok be (ms_StateDB ms') \<and> False \<notin> set (ma_nonces acc) \<and>
    (\<forall>so. obj_at be (ms_StateDB ms') a = Some so \<longrightarrow> acct_Nonce (so_data so) \<le> of_nat (length (ma_nonces acc)) + ma_nstart acc)"
proof (cases "ms_accounts ms a")
  case None
  obtain so s1 where g: "GetOrNewStateObject be a (ms_StateDB ms) = (so, s1)"
    by fastforce
  show ?thesis
    using get None g assms(2) GetOrNewStateObject_ok [OF assms(1) g]
    by (auto simp: ms_getAccount_def newAccount_def nonces_ok_def undoes_def Let_def split: if_splits)
next
  case (Some acc0)
  obtain r s1 where g: "getStateObject be a (ms_StateDB ms) = (r, s1)"
    by fastforce
  show ?thesis
    using get Some g assms(2) getStateObject_ok(1) [OF assms(1) g, symmetric] getStateObject_ok(2,5) [OF assms(1) g]
    by (cases r) (auto simp: ms_getAccount_def newAccount_def nonces_ok_def Let_def split: if_splits)
qed

text \<open>An account that is not behind the state is found as it is.\<close>

lemma ms_GetNonce_known:
  assumes "objs_ok be (ms_StateDB ms)" and "ms_accounts ms a = Some acc"
    and "\<forall>so. obj_at be (ms_StateDB ms) a = Some so \<longrightarrow> acct_Nonce (so_data so) \<le> of_nat (length (ma_nonces acc)) + ma_nstart acc"
  shows "fst (ms_GetNonce be a ms) = of_nat (length (ma_nonces acc)) + ma_nstart acc"
proof -
  obtain r s1 where g: "getStateObject be a (ms_StateDB ms) = (r, s1)"
    by fastforce
  show ?thesis
    using getStateObject_ok(1) [OF assms(1) g, symmetric] g assms(2,3)
    by (auto simp: ms_GetNonce_def hasAccount_def ms_getAccount_def Let_def not_less split: option.split)
qed

text \<open>
  C35: The managed nonces. \<open>NewNonce\<close> hands out the nonce that \<open>GetNonce\<close> shows, for managed
  and unmanaged accounts, and afterwards \<open>GetNonce\<close> shows the next one; so successive calls
  hand out consecutive nonces. (At the largest nonce the counter wraps around.)
\<close>

theorem NewNonce_consecutive:
  assumes ok: "objs_ok be (ms_StateDB ms)" and nonces: "nonces_ok ms" and max: "fst (ms_GetNonce be a ms) \<noteq> - 1"
  shows "fst (NewNonce be a ms) = fst (ms_GetNonce be a ms) \<and>
    fst (ms_GetNonce be a (snd (NewNonce be a ms))) = fst (ms_GetNonce be a ms) + 1 \<and>
    objs_ok be (ms_StateDB (snd (NewNonce be a ms))) \<and> nonces_ok (snd (NewNonce be a ms))"
proof -
  obtain acc ms1 where get: "ms_getAccount be a ms = (acc, ms1)"
    by fastforce
  note * = ms_getAccount_ok [OF ok nonces get]
  let ?n = "of_nat (length (ma_nonces acc)) + ma_nstart acc"
  have n: "fst (ms_GetNonce be a ms) = ?n"
  proof (cases "ms_accounts ms a")
    case None
    obtain so s1 where g: "GetOrNewStateObject be a (ms_StateDB ms) = (so, s1)"
      by fastforce
    have "acct_Nonce (so_data so) = (case view be (ms_StateDB ms) a of None \<Rightarrow> 0 | Some v \<Rightarrow> av_nonce v)"
      using GetOrNewStateObject_ok(3) [OF ok g]
      by (auto simp: view_or_fresh_def fresh_view_def so_view_def newObject_def emptyAccount_def split: option.splits)
    then show ?thesis
      using None get g query_ok_GetNonce [OF ok, of a]
      by (auto simp: ms_GetNonce_def hasAccount_def ms_getAccount_def newAccount_def query_ok_def Let_def split: prod.split)
  qed (simp add: ms_GetNonce_def hasAccount_def get)
  let ?ms = "ms1\<lparr>ms_accounts := (ms_accounts ms1)(a \<mapsto> acc\<lparr>ma_nonces := ma_nonces acc @ [True]\<rparr>)\<rparr>"
  have new: "NewNonce be a ms = (?n, ?ms)"
    using get * firstFree_all by (simp add: NewNonce_def Let_def)
  have le: "?n \<le> ?n + 1"
    using max n unatSuc [of ?n] by (simp add: word_le_nat_alt eq_neg_iff_add_eq_0 add.commute)
  have "fst (ms_GetNonce be a ?ms) = ?n + 1"
    using ms_GetNonce_known [of be ?ms a] * le by (fastforce simp: algebra_simps)
  then show ?thesis
    using new n * by (auto simp: nonces_ok_def)
qed

theorem NewNonce_consecutive_witness:
  "fst (NewNonce sample_backend 7 \<lparr>ms_StateDB = sample_state, ms_accounts = (\<lambda>_. None)\<rparr>) =
   fst (ms_GetNonce sample_backend 7 \<lparr>ms_StateDB = sample_state, ms_accounts = (\<lambda>_. None)\<rparr>)"
proof -
  let ?ms = "\<lparr>ms_StateDB = sample_state, ms_accounts = (\<lambda>_. None)\<rparr>"
  have "objs_ok sample_backend (ms_StateDB ?ms)" "nonces_ok ?ms"
    using state_ok_New by (simp_all add: sample_state_def state_ok_def nonces_ok_def)
  moreover have "fst (ms_GetNonce sample_backend 7 ?ms) \<noteq> - 1"
    by code_simp
  ultimately show ?thesis
    using NewNonce_consecutive [of sample_backend ?ms 7] by blast
qed

end
