(* ===== verification/VM_Base.thy ===== *)
theory VM_Base
  imports Params_Config Math_Big State_Revert
begin

text \<open>
  Errors, memory (\<open>core/vm/memory.go\<close>) and the helpers of \<open>core/vm/common.go\<close>.

  A slice beyond the length of an array is a panic
  (Go allows it up to the capacity), so a model without panics stays within the length.
\<close>

datatype vm_error =
    ErrOutOfGas | ErrCodeStoreOutOfGas | ErrDepth | ErrInsufficientBalance | ErrContractAddressCollision
  | errWriteProtection | errReturnDataOutOfBounds | errExecutionReverted | errMaxCodeSizeExceeded | errGasUintOverflow
  | errInvalidOpcode byte | errStackUnderflow | errStackLimit | errInvalidJump byte int | errPrecompile

section \<open>Memory\<close>

record Memory =
  mem_store :: bytes
  mem_lastGasCost :: u64

definition NewMemory :: Memory where
  "NewMemory = \<lparr>mem_store = [], mem_lastGasCost = 0\<rparr>"

definition Memory_Set :: "u64 \<Rightarrow> u64 \<Rightarrow> bytes \<Rightarrow> Memory \<Rightarrow> Memory go" where
  "Memory_Set off sz value m =
     (if unat sz > length (mem_store m) then Panic
      else if sz > 0 then
        go_bind (go_slice (mem_store m) (unat off) (unat (off + sz))) (\<lambda>dst.
          Ret (m\<lparr>mem_store := go_copy (mem_store m) (unat off) (take (length dst) value)\<rparr>))
      else Ret m)"

definition Memory_Resize :: "u64 \<Rightarrow> Memory \<Rightarrow> Memory" where
  "Memory_Resize sz m =
     (if length (mem_store m) < unat sz
      then m\<lparr>mem_store := mem_store m @ replicate (unat sz - length (mem_store m)) 0\<rparr> else m)"

text \<open>The arguments are \<open>int64\<close>; a negative bound of a slice is a panic.\<close>

definition Memory_GetPtr :: "int \<Rightarrow> int \<Rightarrow> Memory \<Rightarrow> bytes go" where
  "Memory_GetPtr off sz m =
     (if sz = 0 then Ret []
      else if int (length (mem_store m)) > off then
        (if off < 0 \<or> sz < 0 then Panic else go_slice (mem_store m) (nat off) (nat (off + sz)))
      else Ret [])"

definition Memory_Get :: "int \<Rightarrow> int \<Rightarrow> Memory \<Rightarrow> bytes go" where
  "Memory_Get off sz m = Memory_GetPtr off sz m"

definition Memory_Len :: "Memory \<Rightarrow> nat" where
  "Memory_Len m = length (mem_store m)"

section \<open>Helpers of common.go\<close>

definition calcMemSize :: "int \<Rightarrow> int \<Rightarrow> int" where
  "calcMemSize off l = (if l = 0 then 0 else off + l)"

definition getData :: "bytes \<Rightarrow> u64 \<Rightarrow> u64 \<Rightarrow> bytes go" where
  "getData data start sz =
     (let len = of_nat (length data);
          start = (if start > len then len else start);
          e = start + sz;
          e = (if e > len then len else e)
      in go_bind (go_slice data (unat start) (unat e)) (\<lambda>d. Ret (RightPadBytes d (nat (sint sz)))))"

definition getDataBig :: "bytes \<Rightarrow> int \<Rightarrow> int \<Rightarrow> bytes go" where
  "getDataBig data start sz =
     (let dlen = int (length data);
          s = BigMin start dlen;
          e = BigMin (s + sz) dlen
      in go_bind (go_slice data (unat (Uint64 s)) (unat (Uint64 e))) (\<lambda>d.
           Ret (RightPadBytes d (nat (sint (Uint64 sz))))))"

definition bigUint64 :: "int \<Rightarrow> u64 \<times> bool" where
  "bigUint64 v = (Uint64 v, BitLen v > 64)"

definition toWordSize :: "u64 \<Rightarrow> u64" where
  "toWordSize sz = (if sz > MaxUint64 - 31 then MaxUint64 div 32 + 1 else (sz + 31) div 32)"

definition allZero :: "bytes \<Rightarrow> bool" where
  "allZero b = list_all (\<lambda>x. x = 0) b"

end
