(* ===== verification/VM_Analysis.thy ===== *)
theory VM_Analysis
  imports VM_Base
begin

text \<open>
  Which positions of a contract's code are instructions and which are operands of a PUSH
  (\<open>core/vm/analysis.go\<close>). The code marks the operand bytes in a bit vector, eight bits at a
  time; the specification \<open>code_positions\<close> walks through the instructions.
\<close>

section \<open>Jump destination analysis\<close>

type_synonym bitvec = bytes

definition bitvec_or :: "bitvec \<Rightarrow> nat \<Rightarrow> byte \<Rightarrow> bitvec go" where
  "bitvec_or bits i b = (if i < length bits then Ret (bits[i := bits ! i OR b]) else Panic)"

definition bitvec_set :: "nat \<Rightarrow> bitvec \<Rightarrow> bitvec go" where
  "bitvec_set pos bits = bitvec_or bits (pos div 8) (drop_bit (pos mod 8) 0x80)"

definition bitvec_set8 :: "nat \<Rightarrow> bitvec \<Rightarrow> bitvec go" where
  "bitvec_set8 pos bits =
     go_bind (bitvec_or bits (pos div 8) (drop_bit (pos mod 8) 0xFF)) (\<lambda>bits.
       bitvec_or bits (pos div 8 + 1) (NOT (drop_bit (pos mod 8) 0xFF)))"

definition codeSegment :: "bitvec \<Rightarrow> nat \<Rightarrow> bool go" where
  "codeSegment bits pos = go_bind (go_index bits (pos div 8)) (\<lambda>b. Ret (b AND drop_bit (pos mod 8) 0x80 = 0))"

text \<open>The two inner loops over the operand of a PUSH, and the loop over the code.\<close>

fun setOperand :: "nat \<Rightarrow> nat \<Rightarrow> bitvec \<Rightarrow> bitvec go" where
  "setOperand numbits pc bits =
     (if numbits \<ge> 8 then go_bind (bitvec_set8 pc bits) (setOperand (numbits - 8) (pc + 8))
      else if numbits > 0 then go_bind (bitvec_set pc bits) (setOperand (numbits - 1) (pc + 1))
      else Ret bits)"

declare setOperand.simps [simp del]

abbreviation (input) OP_PUSH1 :: byte where "OP_PUSH1 \<equiv> 0x60"
abbreviation (input) OP_PUSH32 :: byte where "OP_PUSH32 \<equiv> 0x7F"
abbreviation (input) OP_JUMPDEST :: byte where "OP_JUMPDEST \<equiv> 0x5B"

definition is_push :: "byte \<Rightarrow> bool" where
  "is_push b \<longleftrightarrow> OP_PUSH1 \<le> b \<and> b \<le> OP_PUSH32"

definition push_size :: "byte \<Rightarrow> nat" where
  "push_size b = unat (b - OP_PUSH1 + 1)"

function codeBitmap_loop :: "bytes \<Rightarrow> nat \<Rightarrow> bitvec \<Rightarrow> bitvec go" where
  "codeBitmap_loop code pc bits =
     (if pc < length code then
        let b = code ! pc in
        if is_push b
        then go_bind (setOperand (push_size b) (pc + 1) bits) (codeBitmap_loop code (pc + 1 + push_size b))
        else codeBitmap_loop code (pc + 1) bits
      else Ret bits)"
  by auto
termination
  by (relation "measure (\<lambda>(code, pc, bits). length code - pc)") auto

declare codeBitmap_loop.simps [simp del]

definition codeBitmap :: "bytes \<Rightarrow> bitvec go" where
  "codeBitmap code = codeBitmap_loop code 0 (replicate (length code div 8 + 1 + 4) 0)"

type_synonym destinations = "hash \<Rightarrow> bitvec option"

definition destinations_has :: "hash \<Rightarrow> bytes \<Rightarrow> int \<Rightarrow> destinations \<Rightarrow> (bool \<times> destinations) go" where
  "destinations_has codehash code dest d =
     (let udest = Uint64 dest in
      if BitLen dest \<ge> 63 \<or> udest \<ge> of_nat (length code) then Ret (False, d)
      else go_bind (case d codehash of Some m \<Rightarrow> Ret (m, d)
                    | None \<Rightarrow> go_bind (codeBitmap code) (\<lambda>m. Ret (m, d(codehash \<mapsto> m)))) (\<lambda>(m, d).
             go_bind (go_index code (unat udest)) (\<lambda>op.
               if op = OP_JUMPDEST then go_bind (codeSegment m (unat udest)) (\<lambda>c. Ret (c, d)) else Ret (False, d))))"

text \<open>
  The specification of the analysis: which positions of the code are not operands of a PUSH. The
  opcodes from 0x60 to 0x7F, PUSH1 to PUSH32, have operands of one to 32 bytes.
\<close>

definition operand_length :: "byte \<Rightarrow> nat" where
  "operand_length b = (if unat b \<in> {96 .. 127} then unat b - 95 else 0)"

function code_positions :: "bytes \<Rightarrow> bool list" where
  "code_positions [] = []"
| "code_positions (b # bs) =
     True # replicate (min (operand_length b) (length bs)) False @ code_positions (drop (operand_length b) bs)"
  by pat_completeness auto
termination
  by (relation "measure length") auto

lemma push_size_operand: "is_push b \<Longrightarrow> push_size b = operand_length b"
  and no_push_operand: "\<not> is_push b \<Longrightarrow> operand_length b = 0"
proof -
  have op: "is_push b \<longleftrightarrow> unat b \<in> {96 .. 127}"
    by (simp add: is_push_def word_le_nat_alt)
  then have "unat (b - 0x60 + 1) = unat b - 95" if "is_push b"
    using that by (simp add: unat_word_ariths unat_sub word_le_nat_alt)
  then show "is_push b \<Longrightarrow> push_size b = operand_length b"
    using op by (simp add: push_size_def operand_length_def)
  show "\<not> is_push b \<Longrightarrow> operand_length b = 0"
    using op by (simp add: operand_length_def)
qed

lemma code_positions_Cons:
  "code_positions (b # bs) =
     True # (if is_push b then replicate (min (push_size b) (length bs)) False @ code_positions (drop (push_size b) bs)
             else code_positions bs)"
  by (simp add: push_size_operand no_push_operand)

lemma length_code_positions [simp]: "length (code_positions code) = length code"
  by (induction code rule: code_positions.induct) auto

definition marked :: "bitvec \<Rightarrow> nat \<Rightarrow> bool" where
  "marked bits q \<longleftrightarrow> bit (bits ! (q div 8)) (7 - q mod 8)"

lemma bit_0x80: "bit (drop_bit m (0x80 :: byte)) n \<longleftrightarrow> n + m = 7"
proof -
  have "(0x80 :: byte) = push_bit 7 1"
    by simp
  then show ?thesis
    unfolding bit_drop_bit_eq comp_def by (simp only: bit_push_bit_iff bit_1_iff) auto
qed

lemma bit_0xFF: "bit (drop_bit m (0xFF :: byte)) n \<longleftrightarrow> n + m < 8"
proof -
  have "(0xFF :: byte) = mask 8"
    by (simp add: mask_eq_exp_minus_1)
  then show ?thesis
    unfolding bit_drop_bit_eq comp_def by (simp only: bit_mask_iff) auto
qed

lemma nat_split_8:
  obtains d a where "q = 8 * d + a" "q div 8 = d" "q mod 8 = a" "a < (8 :: nat)"
  using mod_less_divisor [of 8 q] mult_div_mod_eq [of 8 q] that by simp

lemma nat_bit_index:
  assumes "q div 8 = p div 8"
  shows "7 - q mod 8 + p mod 8 = (7 :: nat) \<longleftrightarrow> q = p"
proof -
  obtain d a e b where "q = 8 * d + a" "q div 8 = d" "q mod 8 = a" "a < 8" "p = 8 * e + b" "p div 8 = e" "p mod 8 = b" "b < 8"
    by (metis nat_split_8)
  then show ?thesis
    using assms by (intro iffI) linarith+
qed

lemma nat_set8_index:
  shows "7 - q mod 8 + p mod 8 < 8 \<longleftrightarrow> p mod 8 \<le> q mod (8 :: nat)"
    and "q div 8 = p div 8 \<Longrightarrow> p \<le> q \<and> q < p + 8 \<longleftrightarrow> p mod 8 \<le> q mod 8"
    and "q div 8 = p div 8 + 1 \<Longrightarrow> p \<le> q \<and> q < p + 8 \<longleftrightarrow> \<not> p mod 8 \<le> q mod 8"
    and "q div 8 \<noteq> p div 8 \<Longrightarrow> q div 8 \<noteq> p div 8 + 1 \<Longrightarrow> \<not> (p \<le> q \<and> q < p + 8)"
proof -
  obtain d a e b where *: "q = 8 * d + a" "q div 8 = d" "q mod 8 = a" "a < 8" "p = 8 * e + b" "p div 8 = e" "p mod 8 = b" "b < 8"
    by (metis nat_split_8)
  show "7 - q mod 8 + p mod 8 < 8 \<longleftrightarrow> p mod 8 \<le> q mod (8 :: nat)"
    using * by (intro iffI) linarith+
  show "q div 8 = p div 8 \<Longrightarrow> p \<le> q \<and> q < p + 8 \<longleftrightarrow> p mod 8 \<le> q mod 8"
    using * by (intro iffI conjI; (elim conjE)?) linarith+
  show "q div 8 = p div 8 + 1 \<Longrightarrow> p \<le> q \<and> q < p + 8 \<longleftrightarrow> \<not> p mod 8 \<le> q mod 8"
    using * by (intro iffI conjI notI; (elim conjE)?) linarith+
  show "q div 8 \<noteq> p div 8 \<Longrightarrow> q div 8 \<noteq> p div 8 + 1 \<Longrightarrow> \<not> (p \<le> q \<and> q < p + 8)"
    using * by (intro notI; elim conjE) linarith
qed

lemma bitvec_set_spec:
  assumes "p div 8 < length bits"
  shows "\<exists>bits'. bitvec_set p bits = Ret bits' \<and> length bits' = length bits \<and> (\<forall>q. marked bits' q \<longleftrightarrow> q = p \<or> marked bits q)"
proof -
  have "marked (bits[p div 8 := bits ! (p div 8) OR drop_bit (p mod 8) 0x80]) q \<longleftrightarrow> q = p \<or> marked bits q" for q
  proof (cases "q div 8 = p div 8")
    case True
    then show ?thesis
      using assms nat_bit_index [OF True] by (auto simp: marked_def bit_or_iff bit_0x80)
  qed (auto simp: marked_def nth_list_update)
  then show ?thesis
    using assms by (simp add: bitvec_set_def bitvec_or_def)
qed

lemma bitvec_set8_spec:
  assumes "p div 8 + 1 < length bits"
  shows "\<exists>bits'. bitvec_set8 p bits = Ret bits' \<and> length bits' = length bits \<and>
    (\<forall>q. marked bits' q \<longleftrightarrow> p \<le> q \<and> q < p + 8 \<or> marked bits q)"
proof -
  let ?b1 = "bits[p div 8 := bits ! (p div 8) OR drop_bit (p mod 8) 0xFF]"
  let ?b2 = "?b1[p div 8 + 1 := ?b1 ! (p div 8 + 1) OR NOT (drop_bit (p mod 8) 0xFF)]"
  have "marked ?b2 q \<longleftrightarrow> p \<le> q \<and> q < p + 8 \<or> marked bits q" for q
  proof -
    consider "q div 8 = p div 8" | "q div 8 = p div 8 + 1" | "q div 8 \<noteq> p div 8" "q div 8 \<noteq> p div 8 + 1"
      by blast
    then show ?thesis
    proof cases
      case 1
      have "p \<le> q \<and> q < p + 8 \<longleftrightarrow> p mod 8 \<le> q mod 8"
        using 1 by (rule nat_set8_index(2))
      then show ?thesis
        using 1 assms nat_set8_index(1) [of q p] by (auto simp: marked_def bit_or_iff bit_0xFF nth_list_update)
    next
      case 2
      have "p \<le> q \<and> q < p + 8 \<longleftrightarrow> \<not> p mod 8 \<le> q mod 8"
        using 2 by (rule nat_set8_index(3))
      moreover have "bit (NOT (drop_bit (p mod 8) (0xFF :: byte))) (7 - q mod 8) \<longleftrightarrow> \<not> p mod 8 \<le> q mod 8"
        using nat_set8_index(1) [of q p] less_le_trans [of "7 - q mod 8" 8 8] by (auto simp: bit_not_iff bit_0xFF)
      ultimately show ?thesis
        using 2 assms by (auto simp: marked_def bit_or_iff nth_list_update)
    next
      case 3
      have "\<not> (p \<le> q \<and> q < p + 8)"
        using 3 by (rule nat_set8_index(4))
      then show ?thesis
        using 3 by (auto simp: marked_def nth_list_update)
    qed
  qed
  then show ?thesis
    using assms by (auto simp: bitvec_set8_def bitvec_or_def)
qed

lemma setOperand_spec:
  assumes "(pc + n) div 8 < length bits"
  shows "\<exists>bits'. setOperand n pc bits = Ret bits' \<and> length bits' = length bits \<and>
    (\<forall>q. marked bits' q \<longleftrightarrow> pc \<le> q \<and> q < pc + n \<or> marked bits q)"
  using assms
proof (induction n pc bits rule: setOperand.induct)
  case (1 n pc bits)
  consider "n \<ge> 8" | "n < 8" "n > 0" | "n = 0"
    by linarith
  then show ?case
  proof cases
    case 1
    have "pc div 8 + 1 < length bits"
      using 1 "1.prems" by linarith
    then obtain b1 where b1: "bitvec_set8 pc bits = Ret b1" "length b1 = length bits"
        "\<forall>q. marked b1 q \<longleftrightarrow> pc \<le> q \<and> q < pc + 8 \<or> marked bits q"
      using bitvec_set8_spec by blast
    have "(pc + 8 + (n - 8)) div 8 < length b1"
      using 1 "1.prems" b1(2) by simp
    then show ?thesis
      using "1.IH"(1) [OF 1 b1(1)] b1 1 by (fastforce simp: setOperand.simps [of n])
  next
    case 2
    have "pc div 8 < length bits"
      using "1.prems" by (meson div_le_mono le_add1 le_less_trans)
    then obtain b1 where b1: "bitvec_set pc bits = Ret b1" "length b1 = length bits"
        "\<forall>q. marked b1 q \<longleftrightarrow> q = pc \<or> marked bits q"
      using bitvec_set_spec by blast
    have "(pc + 1 + (n - 1)) div 8 < length b1"
      using 2 "1.prems" b1(2) by simp
    then show ?thesis
      using "1.IH"(2) [OF _ 2(2) b1(1)] b1 2 by (fastforce simp: setOperand.simps [of n])
  qed (auto simp: setOperand.simps [of 0])
qed

lemma push_size_bounds: "is_push b \<Longrightarrow> 0 < push_size b \<and> push_size b \<le> 32"
  by (auto simp: push_size_operand operand_length_def is_push_def word_le_nat_alt)

lemma codeBitmap_loop_spec:
  assumes "length bits = length code div 8 + 5" and "pc \<le> length code + 32"
  shows "\<exists>bits'. codeBitmap_loop code pc bits = Ret bits' \<and> length bits' = length bits \<and>
    (\<forall>q < length code. marked bits' q \<longleftrightarrow> marked bits q \<or> pc \<le> q \<and> \<not> code_positions (drop pc code) ! (q - pc))"
  using assms
proof (induction code pc bits rule: codeBitmap_loop.induct)
  case (1 code pc bits)
  show ?case
  proof (cases "pc < length code")
    case True
    let ?b = "code ! pc"
    have drop: "drop pc code = ?b # drop (pc + 1) code"
      using True by (simp add: Cons_nth_drop_Suc)
    show ?thesis
    proof (cases "is_push ?b")
      case push: True
      let ?n = "push_size ?b"
      have n: "0 < ?n" "?n \<le> 32"
        using push_size_bounds [OF push] by auto
      have "(pc + 1 + ?n) div 8 < length bits"
        using True n "1.prems"(1) by linarith
      then obtain b1 where b1: "setOperand ?n (pc + 1) bits = Ret b1" "length b1 = length bits"
          "\<forall>q. marked b1 q \<longleftrightarrow> pc + 1 \<le> q \<and> q < pc + 1 + ?n \<or> marked bits q"
        using setOperand_spec by blast
      have "pc + 1 + ?n \<le> length code + 32"
        using True n by simp
      then obtain b2 where b2: "codeBitmap_loop code (pc + 1 + ?n) b1 = Ret b2" "length b2 = length b1"
          "\<forall>q < length code. marked b2 q \<longleftrightarrow>
             marked b1 q \<or> pc + 1 + ?n \<le> q \<and> \<not> code_positions (drop (pc + 1 + ?n) code) ! (q - (pc + 1 + ?n))"
        using "1.IH"(1) [OF True refl push b1(1)] b1(2) "1.prems"(1) by auto
      have pos: "code_positions (drop pc code) =
          True # replicate (min ?n (length code - (pc + 1))) False @ code_positions (drop (pc + 1 + ?n) code)"
        using drop push by (simp add: code_positions_Cons add.commute del: code_positions.simps)
      have eq: "\<not> code_positions (drop pc code) ! (q - pc) \<longleftrightarrow>
          (pc + 1 \<le> q \<and> q < pc + 1 + ?n \<or> pc + 1 + ?n \<le> q \<and> \<not> code_positions (drop (pc + 1 + ?n) code) ! (q - (pc + 1 + ?n)))"
        if "q < length code" "pc \<le> q" for q
        using that unfolding pos by (cases "q = pc") (auto simp: nth_Cons' nth_append not_less)
      have "marked b2 q \<longleftrightarrow> marked bits q \<or> pc \<le> q \<and> \<not> code_positions (drop pc code) ! (q - pc)" if "q < length code" for q
        using eq [OF that] b1(3) b2(3) that by (cases "pc \<le> q") auto
      then show ?thesis
        using b1(1,2) b2(1,2) push True by (simp add: codeBitmap_loop.simps [of code pc bits] Let_def)
    next
      case False
      obtain b2 where b2: "codeBitmap_loop code (pc + 1) bits = Ret b2" "length b2 = length bits"
          "\<forall>q < length code. marked b2 q \<longleftrightarrow> marked bits q \<or> pc + 1 \<le> q \<and> \<not> code_positions (drop (pc + 1) code) ! (q - (pc + 1))"
        using "1.IH"(2) [OF True refl False] "1.prems" True by auto
      have pos: "code_positions (drop pc code) = True # code_positions (drop (pc + 1) code)"
        using drop False by (simp add: code_positions_Cons del: code_positions.simps)
      have eq: "\<not> code_positions (drop pc code) ! (q - pc) \<longleftrightarrow> pc + 1 \<le> q \<and> \<not> code_positions (drop (pc + 1) code) ! (q - (pc + 1))"
        if "pc \<le> q" for q
        using that unfolding pos by (cases "q = pc") (auto simp: nth_Cons')
      have "marked b2 q \<longleftrightarrow> marked bits q \<or> pc \<le> q \<and> \<not> code_positions (drop pc code) ! (q - pc)" if "q < length code" for q
        using eq [of q] b2(3) that by (cases "pc \<le> q") auto
      then show ?thesis
        using b2(1,2) False True by (simp add: codeBitmap_loop.simps [of code pc bits] Let_def)
    qed
  qed (auto simp: codeBitmap_loop.simps [of code pc bits])
qed

lemma codeSegment_marked:
  assumes "pos div 8 < length bits"
  shows "codeSegment bits pos = Ret (\<not> marked bits pos)"
proof -
  have "pos mod 8 \<le> 7"
    by simp
  then have top: "bit (drop_bit (pos mod 8) (0x80 :: byte)) n \<longleftrightarrow> n = 7 - pos mod 8" for n
    by (auto simp: bit_0x80)
  have "(b AND drop_bit (pos mod 8) 0x80 = 0) \<longleftrightarrow> \<not> bit b (7 - pos mod 8)" for b :: byte
  proof
    assume "b AND drop_bit (pos mod 8) 0x80 = 0"
    then have "\<not> bit (b AND drop_bit (pos mod 8) 0x80) (7 - pos mod 8)"
      by simp
    then show "\<not> bit b (7 - pos mod 8)"
      by (simp add: bit_and_iff top)
  next
    assume "\<not> bit b (7 - pos mod 8)"
    then show "b AND drop_bit (pos mod 8) 0x80 = 0"
      by (intro bit_word_eqI) (auto simp: bit_and_iff top)
  qed
  then show ?thesis
    using assms by (simp add: codeSegment_def go_index_def marked_def)
qed

lemma codeBitmap_spec:
  "\<exists>bits. codeBitmap code = Ret bits \<and> (\<forall>pos < length code. codeSegment bits pos = Ret (code_positions code ! pos))"
proof -
  let ?z = "replicate (length code div 8 + 1 + 4) 0 :: bitvec"
  have z: "\<not> marked ?z q" if "q < length code" for q
  proof -
    have "q div 8 < length code div 8 + 1 + 4"
      using that by (simp add: less_Suc_eq_le div_le_mono trans_le_add1)
    then show ?thesis
      by (simp add: marked_def)
  qed
  obtain bits where bits: "codeBitmap_loop code 0 ?z = Ret bits" "length bits = length ?z"
      "\<forall>q < length code. marked bits q \<longleftrightarrow> marked ?z q \<or> 0 \<le> q \<and> \<not> code_positions (drop 0 code) ! (q - 0)"
    using codeBitmap_loop_spec [of ?z code 0] by auto
  have "codeSegment bits pos = Ret (code_positions code ! pos)" if "pos < length code" for pos
  proof -
    have "pos div 8 < length bits"
      using that bits(2) by (simp add: less_Suc_eq_le div_le_mono trans_le_add1)
    then show ?thesis
      using bits(3) that z by (simp add: codeSegment_marked)
  qed
  then show ?thesis
    using bits(1) by (auto simp: codeBitmap_def)
qed

section \<open>Properties\<close>

definition valid_jumpdest :: "bytes \<Rightarrow> int \<Rightarrow> bool" where
  "valid_jumpdest code dest \<longleftrightarrow>
     0 \<le> dest \<and> dest < int (length code) \<and> code ! nat dest = OP_JUMPDEST \<and> code_positions code ! nat dest"

lemma destinations_has_spec:
  assumes dest: "0 \<le> dest" and len: "length code < 2 ^ 62"
    and d: "\<And>m. d h = Some m \<Longrightarrow> codeBitmap code = Ret m"
  shows "\<exists>d'. destinations_has h code dest d = Ret (valid_jumpdest code dest, d') \<and>
    (\<forall>m. d' h = Some m \<longrightarrow> codeBitmap code = Ret m) \<and> (\<forall>h'. h' \<noteq> h \<longrightarrow> d' h' = d h')"
proof -
  obtain bits where bits: "codeBitmap code = Ret bits"
      "\<And>pos. pos < length code \<Longrightarrow> codeSegment bits pos = Ret (code_positions code ! pos)"
    using codeBitmap_spec by blast
  have small: "dest < 2 ^ 62" if "dest < int (length code)"
  proof -
    have "int (length code) < int (2 ^ 62)"
      using len by (simp only: of_nat_less_iff)
    then show ?thesis
      using that by simp
  qed
  have range: "BitLen dest \<ge> 63 \<or> Uint64 dest \<ge> of_nat (length code) \<longleftrightarrow> \<not> dest < int (length code)"
  proof (cases "dest < 2 ^ 62")
    case True
    have "\<not> BitLen dest \<ge> 63"
      using BitLen_gt_iff [of 62 dest] True dest by (simp add: not_le less_Suc_eq_le not_less)
    moreover have "unat (Uint64 dest) = nat dest" "unat (of_nat (length code) :: u64) = length code"
      using True dest len by (simp_all add: unat_Uint64 unat_of_nat)
    ultimately show ?thesis
      using dest by (auto simp: word_le_nat_alt)
  next
    case False
    then show ?thesis
      using BitLen_gt_iff [of 62 dest] dest small by auto
  qed
  show ?thesis
  proof (cases "dest < int (length code)")
    case True
    have u: "unat (Uint64 dest) = nat dest" "nat dest < length code"
      using True dest small [OF True] by (simp_all add: unat_Uint64)
    have get: "(case d h of Some m \<Rightarrow> Ret (m, d) | None \<Rightarrow> go_bind (codeBitmap code) (\<lambda>m. Ret (m, d(h \<mapsto> m)))) =
        Ret (bits, if d h = None then d(h \<mapsto> bits) else d)"
      using d bits(1) by (cases "d h") auto
    show ?thesis
      using True u bits d range dest get
      by (auto simp: destinations_has_def Let_def valid_jumpdest_def go_index_def)
  next
    case False
    then show ?thesis
      using d range by (auto simp: destinations_has_def Let_def valid_jumpdest_def)
  qed
qed

text \<open>
  C36: The jump destination analysis. Marking the operands of the PUSH instructions in the bit
  vector, eight positions at a time, never leaves its bounds, and the test of a destination
  (with a cache that holds at most analyses of this code for its hash) accepts exactly the
  positions of the code that hold a JUMPDEST which is an instruction, not one of the k operand bytes of
  a PUSHk, opcode 0x5F + k.
\<close>

theorem jumpdest_analysis_correct:
  assumes "0 \<le> dest" and "length code < 2 ^ 62" and "\<forall>m. d h = Some m \<longrightarrow> codeBitmap code = Ret m"
  shows "map_option fst (case destinations_has h code dest d of Ret r \<Rightarrow> Some r | _ \<Rightarrow> None) =
    Some (dest < int (length code) \<and> code ! nat dest = OP_JUMPDEST \<and> code_positions code ! nat dest)"
  using destinations_has_spec [OF assms(1,2), of d h] assms(1,3) by (auto simp: valid_jumpdest_def)

theorem jumpdest_analysis_correct_witness:
  "map_option fst (case destinations_has 0 [0x61, 0x5B, 0x5B, 0x5B] 3 (\<lambda>_. None) of Ret r \<Rightarrow> Some r | _ \<Rightarrow> None) = Some True"
proof -
  have "code_positions [0x61, 0x5B, 0x5B, 0x5B] = [True, False, False, True]"
    by code_simp
  then show ?thesis
    using jumpdest_analysis_correct [of 3 "[0x61, 0x5B, 0x5B, 0x5B]" "\<lambda>_. None" 0] by simp
qed

end
