(* ===== verification/VM_Machine.thy ===== *)
theory VM_Machine
  imports VM_Analysis
begin

text \<open>
  The state of the virtual machine: contract frames (\<open>core/vm/contract.go\<close>), the machine
  (\<open>core/vm/evm.go\<close>), its stack (\<open>core/vm/stack.go\<close>) and the type of its steps.

  A stack is the list of its items, the top first. The integer pool of the code only recycles
  \<open>big.Int\<close> objects; items are values here, and so are the byte slices handed around. The
  functions \<open>CanTransfer\<close> and \<open>Transfer\<close> of the context are those of \<open>core/evm.go\<close>; tracing
  (\<open>Config.Debug\<close>) has no effect on the execution and is left out. The database, Keccak and the
  curve operations behind the precompiled contracts are fields of the machine.

  \<open>'a vm\<close> is the type of a step of the machine: it may panic, fail with an error, or return a
  value, and changes the frame of the running contract.
\<close>

section \<open>Contracts and the machine\<close>

record Contract =
  ct_CallerAddress :: address
  ct_self :: address
  ct_Code :: bytes
  ct_CodeHash :: hash
  ct_CodeAddr :: "address option"
  ct_Input :: bytes
  ct_Gas :: u64
  ct_value :: int
  ct_DelegateCall :: bool

datatype ContractRef = AccountRef address | ContractOf Contract

primrec ref_Address :: "ContractRef \<Rightarrow> address" where
  "ref_Address (AccountRef a) = a"
| "ref_Address (ContractOf c) = ct_self c"

definition NewContract :: "ContractRef \<Rightarrow> address \<Rightarrow> int \<Rightarrow> u64 \<Rightarrow> Contract" where
  "NewContract caller object value gas =
     \<lparr>ct_CallerAddress = ref_Address caller, ct_self = object, ct_Code = [], ct_CodeHash = 0, ct_CodeAddr = None,
      ct_Input = [], ct_Gas = gas, ct_value = value, ct_DelegateCall = False\<rparr>"

text \<open>\<open>AsDelegate\<close> panics if the caller is not a contract.\<close>

definition AsDelegate :: "ContractRef \<Rightarrow> Contract \<Rightarrow> Contract go" where
  "AsDelegate caller c =
     (case caller of
        AccountRef a \<Rightarrow> Panic
      | ContractOf parent \<Rightarrow>
          Ret (c\<lparr>ct_DelegateCall := True, ct_CallerAddress := ct_CallerAddress parent, ct_value := ct_value parent\<rparr>))"

definition GetByte :: "Contract \<Rightarrow> u64 \<Rightarrow> byte" where
  "GetByte c n = (if n < of_nat (length (ct_Code c)) then ct_Code c ! unat n else 0)"

definition GetOp :: "Contract \<Rightarrow> u64 \<Rightarrow> byte" where
  "GetOp c n = GetByte c n"

definition UseGas :: "u64 \<Rightarrow> Contract \<Rightarrow> bool \<times> Contract" where
  "UseGas gas c = (if ct_Gas c < gas then (False, c) else (True, c\<lparr>ct_Gas := ct_Gas c - gas\<rparr>))"

definition SetCallCode :: "address \<Rightarrow> hash \<Rightarrow> bytes \<Rightarrow> Contract \<Rightarrow> Contract" where
  "SetCallCode addr h code c = c\<lparr>ct_Code := code, ct_CodeHash := h, ct_CodeAddr := Some addr\<rparr>"

record Context =
  ctx_GetHash :: "u64 \<Rightarrow> hash"
  ctx_Origin :: address
  ctx_GasPrice :: int
  ctx_Coinbase :: address
  ctx_GasLimit :: u64
  ctx_BlockNumber :: int
  ctx_Time :: int
  ctx_Difficulty :: int

record vm_Config =
  cfg_NoRecursion :: bool
  cfg_DisableGasMetering :: bool
  cfg_EnablePreimageRecording :: bool

record Crypto =
  cr_ValidateSignatureValues :: "byte \<Rightarrow> int \<Rightarrow> int \<Rightarrow> bool"
  cr_Ecrecover :: "bytes \<Rightarrow> bytes \<Rightarrow> bytes option"
  cr_sha256 :: "bytes \<Rightarrow> bytes"
  cr_ripemd160 :: "bytes \<Rightarrow> bytes"
  cr_G1_ok :: "bytes \<Rightarrow> bool"
  cr_G2_ok :: "bytes \<Rightarrow> bool"
  cr_G1_Add :: "bytes \<Rightarrow> bytes \<Rightarrow> bytes"
  cr_G1_ScalarMult :: "bytes \<Rightarrow> int \<Rightarrow> bytes"
  cr_PairingCheck :: "(bytes \<times> bytes) list \<Rightarrow> bool"

datatype InstructionSet = Frontier | Homestead | Byzantium | Constantinople | Spring

record EVM =
  ev_ctx :: Context
  ev_StateDB :: StateDB
  ev_depth :: nat
  ev_chainConfig :: ChainConfig
  ev_chainRules :: Rules
  ev_vmConfig :: vm_Config
  ev_abort :: bool
  ev_callGasTemp :: u64
  ev_readOnly :: bool
  ev_returnData :: bytes
  ev_gasTable :: GasTable
  ev_JumpTable :: InstructionSet
  ev_db :: Backend
  ev_crypto :: Crypto

definition ev_number :: "EVM \<Rightarrow> int option" where
  "ev_number evm = Some (ctx_BlockNumber (ev_ctx evm))"

text \<open>\<open>NewInterpreter\<close> selects the instruction set of the block.\<close>

definition NewInterpreter_set :: "ChainConfig \<Rightarrow> int option \<Rightarrow> InstructionSet" where
  "NewInterpreter_set c num =
     (if IsHF c 5 num then Spring
      else if IsConstantinople c num then Constantinople
      else if IsByzantium c num then Byzantium
      else if IsHomestead c num then Homestead
      else Frontier)"

definition NewEVM :: "Context \<Rightarrow> StateDB \<Rightarrow> ChainConfig \<Rightarrow> vm_Config \<Rightarrow> Backend \<Rightarrow> Crypto \<Rightarrow> EVM" where
  "NewEVM ctx statedb chainConfig vmConfig db cr =
     (let num = Some (ctx_BlockNumber ctx) in
      \<lparr>ev_ctx = ctx, ev_StateDB = statedb, ev_depth = 0, ev_chainConfig = chainConfig, ev_chainRules = Rules_of chainConfig num,
       ev_vmConfig = vmConfig, ev_abort = False, ev_callGasTemp = 0, ev_readOnly = False, ev_returnData = [],
       ev_gasTable = GasTable_of chainConfig num, ev_JumpTable = NewInterpreter_set chainConfig num,
       ev_db = db, ev_crypto = cr\<rparr>)"

definition vm_Cancel :: "EVM \<Rightarrow> EVM" where
  "vm_Cancel evm = evm\<lparr>ev_abort := True\<rparr>"

text \<open>\<open>CanTransfer\<close> and \<open>Transfer\<close> of \<open>core/evm.go\<close>, on the state of the machine.\<close>

definition on_state :: "(Backend \<Rightarrow> StateDB \<Rightarrow> 'a \<times> StateDB) \<Rightarrow> EVM \<Rightarrow> 'a \<times> EVM" where
  "on_state q evm = (let (r, s) = q (ev_db evm) (ev_StateDB evm) in (r, evm\<lparr>ev_StateDB := s\<rparr>))"

definition upd_state :: "(Backend \<Rightarrow> StateDB \<Rightarrow> StateDB) \<Rightarrow> EVM \<Rightarrow> EVM" where
  "upd_state g evm = evm\<lparr>ev_StateDB := g (ev_db evm) (ev_StateDB evm)\<rparr>"

definition CanTransfer :: "Backend \<Rightarrow> address \<Rightarrow> int \<Rightarrow> StateDB \<Rightarrow> bool \<times> StateDB" where
  "CanTransfer be addr amount s = (let (b, s) = GetBalance be addr s in (b \<ge> amount, s))"

definition Transfer :: "Backend \<Rightarrow> address \<Rightarrow> address \<Rightarrow> int \<Rightarrow> StateDB \<Rightarrow> StateDB" where
  "Transfer be sender recipient amount s = AddBalance be recipient amount (SubBalance be sender amount s)"

section \<open>Steps of the machine\<close>

record frame =
  fr_pc :: u64
  fr_evm :: EVM
  fr_contract :: Contract
  fr_mem :: Memory
  fr_stack :: "int list"

type_synonym 'a vm = "frame \<Rightarrow> ((vm_error + 'a) \<times> frame) go"

definition vm_ret :: "'a \<Rightarrow> 'a vm" where
  "vm_ret x f = Ret (Inr x, f)"

definition vm_err :: "vm_error \<Rightarrow> 'a vm" where
  "vm_err e f = Ret (Inl e, f)"

definition vm_bind :: "'a vm \<Rightarrow> ('a \<Rightarrow> 'b vm) \<Rightarrow> 'b vm" where
  "vm_bind m k f = go_bind (m f) (\<lambda>(r, f'). case r of Inl e \<Rightarrow> Ret (Inl e, f') | Inr x \<Rightarrow> k x f')"

definition vm_go :: "'a go \<Rightarrow> 'a vm" where
  "vm_go m f = go_bind m (\<lambda>x. Ret (Inr x, f))"

definition vm_sum :: "vm_error + 'a \<Rightarrow> 'a vm" where
  "vm_sum r f = Ret (r, f)"

definition vm_gets :: "(frame \<Rightarrow> 'a) \<Rightarrow> 'a vm" where
  "vm_gets g f = Ret (Inr (g f), f)"

definition vm_modify :: "(frame \<Rightarrow> frame) \<Rightarrow> unit vm" where
  "vm_modify g f = Ret (Inr (), g f)"

definition vm_query :: "(Backend \<Rightarrow> StateDB \<Rightarrow> 'a \<times> StateDB) \<Rightarrow> 'a vm" where
  "vm_query q f = (let (r, evm) = on_state q (fr_evm f) in Ret (Inr r, f\<lparr>fr_evm := evm\<rparr>))"

definition vm_update :: "(Backend \<Rightarrow> StateDB \<Rightarrow> StateDB) \<Rightarrow> unit vm" where
  "vm_update g f = Ret (Inr (), f\<lparr>fr_evm := upd_state g (fr_evm f)\<rparr>)"

text \<open>The stack; popping, peeking or looking back beyond its bottom is a panic.\<close>

definition pop :: "int vm" where
  "pop f = (case fr_stack f of [] \<Rightarrow> Panic | x # st \<Rightarrow> Ret (Inr x, f\<lparr>fr_stack := st\<rparr>))"

definition push :: "int \<Rightarrow> unit vm" where
  "push x f = Ret (Inr (), f\<lparr>fr_stack := x # fr_stack f\<rparr>)"

definition peek :: "int vm" where
  "peek f = (case fr_stack f of [] \<Rightarrow> Panic | x # st \<Rightarrow> Ret (Inr x, f))"

definition set_peek :: "int \<Rightarrow> unit vm" where
  "set_peek x f = (case fr_stack f of [] \<Rightarrow> Panic | y # st \<Rightarrow> Ret (Inr (), f\<lparr>fr_stack := x # st\<rparr>))"

definition stack_Back :: "nat \<Rightarrow> int vm" where
  "stack_Back n f = go_bind (go_index (fr_stack f) n) (\<lambda>x. Ret (Inr x, f))"

definition stack_dup :: "nat \<Rightarrow> unit vm" where
  "stack_dup n f = go_bind (go_index (fr_stack f) (n - 1)) (\<lambda>x. Ret (Inr (), f\<lparr>fr_stack := x # fr_stack f\<rparr>))"

definition stack_swap :: "nat \<Rightarrow> unit vm" where
  "stack_swap n f =
     (let st = fr_stack f in
      if n - 1 < length st then Ret (Inr (), f\<lparr>fr_stack := st[n - 1 := st ! 0, 0 := st ! (n - 1)]\<rparr>) else Panic)"

definition stack_require :: "nat \<Rightarrow> int list \<Rightarrow> vm_error option" where
  "stack_require n st = (if length st < n then Some errStackUnderflow else None)"

text \<open>Memory and gas of the frame.\<close>

definition vm_Get :: "int \<Rightarrow> int \<Rightarrow> bytes vm" where
  "vm_Get off sz f = go_bind (Memory_Get off sz (fr_mem f)) (\<lambda>d. Ret (Inr d, f))"

definition vm_GetPtr :: "int \<Rightarrow> int \<Rightarrow> bytes vm" where
  "vm_GetPtr off sz f = go_bind (Memory_GetPtr off sz (fr_mem f)) (\<lambda>d. Ret (Inr d, f))"

definition vm_Set :: "u64 \<Rightarrow> u64 \<Rightarrow> bytes \<Rightarrow> unit vm" where
  "vm_Set off sz value f = go_bind (Memory_Set off sz value (fr_mem f)) (\<lambda>m. Ret (Inr (), f\<lparr>fr_mem := m\<rparr>))"

definition vm_UseGas :: "u64 \<Rightarrow> bool vm" where
  "vm_UseGas gas f = (let (ok, c) = UseGas gas (fr_contract f) in Ret (Inr ok, f\<lparr>fr_contract := c\<rparr>))"

definition vm_AddGas :: "u64 \<Rightarrow> unit vm" where
  "vm_AddGas gas f = Ret (Inr (), f\<lparr>fr_contract := (fr_contract f)\<lparr>ct_Gas := ct_Gas (fr_contract f) + gas\<rparr>\<rparr>)"

end
