(* ===== verification/VM_Gas.thy ===== *)
theory VM_Gas
  imports VM_Machine
begin

text \<open>
  What an instruction costs and needs: the gas functions (\<open>core/vm/gas.go\<close>,
  \<open>core/vm/gas_table.go\<close>), the memory it touches (\<open>core/vm/memory_table.go\<close>) and the stack
  height it requires (\<open>core/vm/stack_table.go\<close>). A gas function gets the memory size it has to
  pay for; it may set the gas of a call (\<open>callGasTemp\<close>) and add to the refund counter.
\<close>

abbreviation (input) GasQuickStep :: u64 where "GasQuickStep \<equiv> 2"
abbreviation (input) GasFastestStep :: u64 where "GasFastestStep \<equiv> 3"
abbreviation (input) GasFastStep :: u64 where "GasFastStep \<equiv> 5"
abbreviation (input) GasMidStep :: u64 where "GasMidStep \<equiv> 8"
abbreviation (input) GasSlowStep :: u64 where "GasSlowStep \<equiv> 10"
abbreviation (input) GasExtStep :: u64 where "GasExtStep \<equiv> 20"

type_synonym gasFunc = "u64 \<Rightarrow> u64 vm"

section \<open>Stack validation and memory sizes\<close>

definition makeStackFunc :: "nat \<Rightarrow> nat \<Rightarrow> int list \<Rightarrow> vm_error option" where
  "makeStackFunc npop npush st =
     (case stack_require npop st of
        Some e \<Rightarrow> Some e
      | None \<Rightarrow> if int (length st) + int npush - int npop > int StackLimit then Some errStackLimit else None)"

definition makeDupStackFunc :: "nat \<Rightarrow> int list \<Rightarrow> vm_error option" where
  "makeDupStackFunc n = makeStackFunc n (n + 1)"

definition makeSwapStackFunc :: "nat \<Rightarrow> int list \<Rightarrow> vm_error option" where
  "makeSwapStackFunc n = makeStackFunc n n"

definition mem_at :: "nat \<Rightarrow> nat \<Rightarrow> int vm" where
  "mem_at i j = vm_bind (stack_Back i) (\<lambda>off. vm_bind (stack_Back j) (\<lambda>l. vm_ret (calcMemSize off l)))"

definition memorySha3 :: "int vm" where
  "memorySha3 = mem_at 0 1"

definition memoryCallDataCopy :: "int vm" where
  "memoryCallDataCopy = mem_at 0 2"

definition memoryReturnDataCopy :: "int vm" where
  "memoryReturnDataCopy = mem_at 0 2"

definition memoryCodeCopy :: "int vm" where
  "memoryCodeCopy = mem_at 0 2"

definition memoryExtCodeCopy :: "int vm" where
  "memoryExtCodeCopy = mem_at 1 3"

definition memoryMLoad :: "int vm" where
  "memoryMLoad = vm_bind (stack_Back 0) (\<lambda>off. vm_ret (calcMemSize off 32))"

definition memoryMStore8 :: "int vm" where
  "memoryMStore8 = vm_bind (stack_Back 0) (\<lambda>off. vm_ret (calcMemSize off 1))"

definition memoryMStore :: "int vm" where
  "memoryMStore = vm_bind (stack_Back 0) (\<lambda>off. vm_ret (calcMemSize off 32))"

definition memoryCreate :: "int vm" where
  "memoryCreate = mem_at 1 2"

definition memoryCall :: "int vm" where
  "memoryCall = vm_bind (mem_at 5 6) (\<lambda>x. vm_bind (mem_at 3 4) (\<lambda>y. vm_ret (BigMax x y)))"

definition memoryDelegateCall :: "int vm" where
  "memoryDelegateCall = vm_bind (mem_at 4 5) (\<lambda>x. vm_bind (mem_at 2 3) (\<lambda>y. vm_ret (BigMax x y)))"

definition memoryStaticCall :: "int vm" where
  "memoryStaticCall = vm_bind (mem_at 4 5) (\<lambda>x. vm_bind (mem_at 2 3) (\<lambda>y. vm_ret (BigMax x y)))"

definition memoryReturn :: "int vm" where
  "memoryReturn = mem_at 0 1"

definition memoryRevert :: "int vm" where
  "memoryRevert = mem_at 0 1"

definition memoryLog :: "int vm" where
  "memoryLog = vm_bind (stack_Back 1) (\<lambda>mSize. vm_bind (stack_Back 0) (\<lambda>mStart. vm_ret (calcMemSize mStart mSize)))"

section \<open>Gas\<close>

definition callGas :: "GasTable \<Rightarrow> u64 \<Rightarrow> u64 \<Rightarrow> int \<Rightarrow> vm_error + u64" where
  "callGas gt availableGas base callCost =
     (let availableGas = availableGas - base;
          gas = availableGas - availableGas div 64
      in if CreateBySuicide gt > 0 \<and> (BitLen callCost > 64 \<or> gas < Uint64 callCost) then Inr gas
         else if BitLen callCost > 64 then Inl errGasUintOverflow
         else Inr (Uint64 callCost))"

text \<open>The cost of the memory is quadratic in the number of its words; only the growth is paid for.\<close>

definition memoryGasCost :: gasFunc where
  "memoryGasCost newMemSize f =
     (if newMemSize = 0 then Ret (Inr 0, f)
      else if newMemSize > 0xffffffffe0 then Ret (Inl errGasUintOverflow, f)
      else
        let newMemSizeWords = toWordSize newMemSize;
            newMemSize = newMemSizeWords * 32
        in if newMemSize > of_nat (Memory_Len (fr_mem f)) then
             let square = newMemSizeWords * newMemSizeWords;
                 linCoef = newMemSizeWords * MemoryGas;
                 quadCoef = square div QuadCoeffDiv;
                 newTotalFee = linCoef + quadCoef;
                 fee = newTotalFee - mem_lastGasCost (fr_mem f)
             in Ret (Inr fee, f\<lparr>fr_mem := (fr_mem f)\<lparr>mem_lastGasCost := newTotalFee\<rparr>\<rparr>)
           else Ret (Inr 0, f))"

definition gasAdd :: "u64 \<Rightarrow> u64 \<Rightarrow> u64 vm" where
  "gasAdd x y = (let (r, overflow) = SafeAdd x y in if overflow then vm_err errGasUintOverflow else vm_ret r)"

definition gasMul :: "u64 \<Rightarrow> u64 \<Rightarrow> u64 vm" where
  "gasMul x y = (let (r, overflow) = SafeMul x y in if overflow then vm_err errGasUintOverflow else vm_ret r)"

definition gasUint64 :: "int \<Rightarrow> u64 vm" where
  "gasUint64 v = (let (r, overflow) = bigUint64 v in if overflow then vm_err errGasUintOverflow else vm_ret r)"

definition constGasFunc :: "u64 \<Rightarrow> gasFunc" where
  "constGasFunc gas ms = vm_ret gas"

definition gasTab :: "(GasTable \<Rightarrow> u64) \<Rightarrow> u64 vm" where
  "gasTab g = vm_gets (\<lambda>f. g (ev_gasTable (fr_evm f)))"

definition gasCallDataCopy :: gasFunc where
  "gasCallDataCopy ms =
     vm_bind (memoryGasCost ms) (\<lambda>gas. vm_bind (gasAdd gas GasFastestStep) (\<lambda>gas.
     vm_bind (stack_Back 2) (\<lambda>w. vm_bind (gasUint64 w) (\<lambda>words.
     vm_bind (gasMul (toWordSize words) CopyGas) (\<lambda>words. gasAdd gas words)))))"

definition gasReturnDataCopy :: gasFunc where
  "gasReturnDataCopy ms =
     vm_bind (memoryGasCost ms) (\<lambda>gas. vm_bind (gasAdd gas GasFastestStep) (\<lambda>gas.
     vm_bind (stack_Back 2) (\<lambda>w. vm_bind (gasUint64 w) (\<lambda>words.
     vm_bind (gasMul (toWordSize words) CopyGas) (\<lambda>words. gasAdd gas words)))))"

definition gasSStore :: gasFunc where
  "gasSStore ms =
     vm_bind (stack_Back 1) (\<lambda>y. vm_bind (stack_Back 0) (\<lambda>x.
     vm_bind (vm_gets (\<lambda>f. ct_self (fr_contract f))) (\<lambda>addr.
     vm_bind (vm_query (\<lambda>be. GetState be addr (BigToHash x))) (\<lambda>val.
       if EmptyHash val \<and> \<not> EmptyHash (BigToHash y) then vm_ret SstoreSetGas
       else if \<not> EmptyHash val \<and> EmptyHash (BigToHash y)
       then vm_bind (vm_update (\<lambda>be. AddRefund SstoreRefundGas)) (\<lambda>_. vm_ret SstoreClearGas)
       else vm_ret SstoreResetGas))))"

definition makeGasLog :: "u64 \<Rightarrow> gasFunc" where
  "makeGasLog n ms =
     vm_bind (stack_Back 1) (\<lambda>sz. vm_bind (gasUint64 sz) (\<lambda>requestedSize.
     vm_bind (memoryGasCost ms) (\<lambda>gas. vm_bind (gasAdd gas LogGas) (\<lambda>gas.
     vm_bind (gasAdd gas (n * LogTopicGas)) (\<lambda>gas.
     vm_bind (gasMul requestedSize LogDataGas) (\<lambda>memorySizeGas. gasAdd gas memorySizeGas))))))"

definition gasSha3 :: gasFunc where
  "gasSha3 ms =
     vm_bind (memoryGasCost ms) (\<lambda>gas. vm_bind (gasAdd gas Sha3Gas) (\<lambda>gas.
     vm_bind (stack_Back 1) (\<lambda>w. vm_bind (gasUint64 w) (\<lambda>wordGas.
     vm_bind (gasMul (toWordSize wordGas) Sha3WordGas) (\<lambda>wordGas. gasAdd gas wordGas)))))"

definition gasCodeCopy :: gasFunc where
  "gasCodeCopy ms =
     vm_bind (memoryGasCost ms) (\<lambda>gas. vm_bind (gasAdd gas GasFastestStep) (\<lambda>gas.
     vm_bind (stack_Back 2) (\<lambda>w. vm_bind (gasUint64 w) (\<lambda>wordGas.
     vm_bind (gasMul (toWordSize wordGas) CopyGas) (\<lambda>wordGas. gasAdd gas wordGas)))))"

definition gasExtCodeCopy :: gasFunc where
  "gasExtCodeCopy ms =
     vm_bind (memoryGasCost ms) (\<lambda>gas. vm_bind (gasTab ExtcodeCopy) (\<lambda>c. vm_bind (gasAdd gas c) (\<lambda>gas.
     vm_bind (stack_Back 3) (\<lambda>w. vm_bind (gasUint64 w) (\<lambda>wordGas.
     vm_bind (gasMul (toWordSize wordGas) CopyGas) (\<lambda>wordGas. gasAdd gas wordGas))))))"

definition gasMLoad :: gasFunc where
  "gasMLoad ms = vm_bind (memoryGasCost ms) (\<lambda>gas. gasAdd gas GasFastestStep)"

definition gasMStore8 :: gasFunc where
  "gasMStore8 ms = vm_bind (memoryGasCost ms) (\<lambda>gas. gasAdd gas GasFastestStep)"

definition gasMStore :: gasFunc where
  "gasMStore ms = vm_bind (memoryGasCost ms) (\<lambda>gas. gasAdd gas GasFastestStep)"

definition gasCreate :: gasFunc where
  "gasCreate ms = vm_bind (memoryGasCost ms) (\<lambda>gas. gasAdd gas CreateGas)"

definition gasBalance :: gasFunc where
  "gasBalance ms = gasTab GasTable.Balance"

definition gasExtCodeSize :: gasFunc where
  "gasExtCodeSize ms = gasTab ExtcodeSize"

definition gasSLoad :: gasFunc where
  "gasSLoad ms = gasTab SLoad"

definition gasExp :: gasFunc where
  "gasExp ms =
     vm_bind (stack_Back 1) (\<lambda>e. vm_bind (gasTab ExpByte) (\<lambda>b.
       gasAdd (of_nat ((BitLen e + 7) div 8) * b) GasSlowStep))"

text \<open>The tail the call instructions share: the gas handed to the callee, on top of the base cost.\<close>

definition addCallGas :: "u64 \<Rightarrow> u64 vm" where
  "addCallGas gas =
     vm_bind (stack_Back 0) (\<lambda>callCost.
     vm_bind (vm_gets (\<lambda>f. callGas (ev_gasTable (fr_evm f)) (ct_Gas (fr_contract f)) gas callCost)) (\<lambda>r.
     vm_bind (vm_modify (\<lambda>f. f\<lparr>fr_evm := (fr_evm f)\<lparr>ev_callGasTemp := (case r of Inl e \<Rightarrow> 0 | Inr g \<Rightarrow> g)\<rparr>\<rparr>)) (\<lambda>_.
     vm_bind (vm_sum r) (\<lambda>g. gasAdd gas g))))"

definition gasCall :: gasFunc where
  "gasCall ms =
     vm_bind (gasTab Calls) (\<lambda>gas.
     vm_bind (stack_Back 2) (\<lambda>value. vm_bind (stack_Back 1) (\<lambda>a.
     vm_bind (vm_gets (\<lambda>f. IsEIP158 (ev_chainConfig (fr_evm f)) (ev_number (fr_evm f)))) (\<lambda>eip158.
     let transfersValue = (value \<noteq> 0); addr = BigToAddress a in
     vm_bind (if eip158
              then if transfersValue then vm_bind (vm_query (\<lambda>be. state_Empty be addr)) (\<lambda>empty.
                       vm_ret (if empty then gas + CallNewAccountGas else gas))
                   else vm_ret gas
              else vm_bind (vm_query (\<lambda>be. state_Exist be addr)) (\<lambda>exist.
                       vm_ret (if exist then gas else gas + CallNewAccountGas))) (\<lambda>gas.
     let gas = (if transfersValue then gas + CallValueTransferGas else gas) in
     vm_bind (memoryGasCost ms) (\<lambda>memoryGas. vm_bind (gasAdd gas memoryGas) addCallGas))))))"

definition gasCallCode :: gasFunc where
  "gasCallCode ms =
     vm_bind (gasTab Calls) (\<lambda>gas. vm_bind (stack_Back 2) (\<lambda>value.
     let gas = (if value \<noteq> 0 then gas + CallValueTransferGas else gas) in
     vm_bind (memoryGasCost ms) (\<lambda>memoryGas. vm_bind (gasAdd gas memoryGas) addCallGas)))"

definition gasReturn :: gasFunc where
  "gasReturn ms = memoryGasCost ms"

definition gasRevert :: gasFunc where
  "gasRevert ms = memoryGasCost ms"

text \<open>The price of the instruction itself, and what a new account for the beneficiary adds.\<close>

definition suicideGas :: "u64 vm" where
  "suicideGas =
     vm_bind (vm_gets (\<lambda>f. (ev_chainConfig (fr_evm f), ev_number (fr_evm f), ct_self (fr_contract f)))) (\<lambda>(c, num, self).
     if IsEIP150 c num then
       vm_bind (gasTab GasTable.Suicide) (\<lambda>gas. vm_bind (stack_Back 0) (\<lambda>a.
       let addr = BigToAddress a in
       if IsEIP158 c num then
         vm_bind (vm_query (\<lambda>be. state_Empty be addr)) (\<lambda>empty.
           if empty then
             vm_bind (vm_query (\<lambda>be. GetBalance be self)) (\<lambda>bal.
             if bal \<noteq> 0 then vm_bind (gasTab CreateBySuicide) (\<lambda>x. vm_ret (gas + x)) else vm_ret gas)
           else vm_ret gas)
       else vm_bind (vm_query (\<lambda>be. state_Exist be addr)) (\<lambda>exist.
           if exist then vm_ret gas else vm_bind (gasTab CreateBySuicide) (\<lambda>x. vm_ret (gas + x)))))
     else vm_ret 0)"

definition gasSuicide :: gasFunc where
  "gasSuicide ms =
     vm_bind suicideGas (\<lambda>gas.
     vm_bind (vm_gets (\<lambda>f. ct_self (fr_contract f))) (\<lambda>self.
     vm_bind (vm_query (\<lambda>be. HasSuicided be self)) (\<lambda>suicided.
     vm_bind (if suicided then vm_ret () else vm_update (\<lambda>be. AddRefund SuicideRefundGas)) (\<lambda>_. vm_ret gas))))"

definition gasDelegateCall :: gasFunc where
  "gasDelegateCall ms =
     vm_bind (memoryGasCost ms) (\<lambda>gas. vm_bind (gasTab Calls) (\<lambda>c. vm_bind (gasAdd gas c) addCallGas))"

definition gasStaticCall :: gasFunc where
  "gasStaticCall ms =
     vm_bind (memoryGasCost ms) (\<lambda>gas. vm_bind (gasTab Calls) (\<lambda>c. vm_bind (gasAdd gas c) addCallGas))"

definition gasPush :: gasFunc where
  "gasPush ms = vm_ret GasFastestStep"

definition gasSwap :: gasFunc where
  "gasSwap ms = vm_ret GasFastestStep"

definition gasDup :: gasFunc where
  "gasDup ms = vm_ret GasFastestStep"

end
