(* ===== verification/VM_Instructions.thy ===== *)
theory VM_Instructions
  imports VM_Gas
begin

text \<open>
  The instructions (\<open>core/vm/instructions.go\<close>). An instruction is a step of the machine that
  returns the result data; the nested calls it may make are the functions of a \<open>calls\<close> record,
  which the interpreter supplies.
\<close>

type_synonym call_result = "((bytes \<times> u64 \<times> vm_error option) \<times> EVM) go"

record calls =
  cl_Call :: "ContractRef \<Rightarrow> address \<Rightarrow> bytes \<Rightarrow> u64 \<Rightarrow> int \<Rightarrow> EVM \<Rightarrow> call_result"
  cl_CallCode :: "ContractRef \<Rightarrow> address \<Rightarrow> bytes \<Rightarrow> u64 \<Rightarrow> int \<Rightarrow> EVM \<Rightarrow> call_result"
  cl_DelegateCall :: "ContractRef \<Rightarrow> address \<Rightarrow> bytes \<Rightarrow> u64 \<Rightarrow> EVM \<Rightarrow> call_result"
  cl_StaticCall :: "ContractRef \<Rightarrow> address \<Rightarrow> bytes \<Rightarrow> u64 \<Rightarrow> EVM \<Rightarrow> call_result"
  cl_Create :: "ContractRef \<Rightarrow> bytes \<Rightarrow> u64 \<Rightarrow> int \<Rightarrow> EVM \<Rightarrow> ((bytes \<times> address \<times> u64 \<times> vm_error option) \<times> EVM) go"

type_synonym executionFunc = "calls \<Rightarrow> bytes vm"

definition vm_done :: "bytes vm" where
  "vm_done = vm_ret []"

text \<open>Pop two operands, push a result.\<close>

definition binop :: "(int \<Rightarrow> int \<Rightarrow> int) \<Rightarrow> bytes vm" where
  "binop g = vm_bind pop (\<lambda>x. vm_bind pop (\<lambda>y. vm_bind (push (g x y)) (\<lambda>_. vm_done)))"

section \<open>Arithmetic, comparison and bitwise operations\<close>

definition opAdd :: executionFunc where
  "opAdd cl = binop (\<lambda>x y. U256 (x + y))"

definition opSub :: executionFunc where
  "opSub cl = binop (\<lambda>x y. U256 (x - y))"

definition opMul :: executionFunc where
  "opMul cl = binop (\<lambda>x y. U256 (x * y))"

definition opDiv :: executionFunc where
  "opDiv cl = binop (\<lambda>x y. if y \<noteq> 0 then U256 (big_Div x y) else 0)"

definition opSdiv :: executionFunc where
  "opSdiv cl = binop (\<lambda>x y.
     let x = S256 x; y = S256 y in
     if y = 0 then 0
     else let n = (if x * y < 0 then - 1 else 1); res = big_Div \<bar>x\<bar> \<bar>y\<bar> in U256 (res * n))"

definition opMod :: executionFunc where
  "opMod cl = binop (\<lambda>x y. if y = 0 then 0 else U256 (big_Mod x y))"

definition opSmod :: executionFunc where
  "opSmod cl = binop (\<lambda>x y.
     let x = S256 x; y = S256 y in
     if y = 0 then 0
     else let n = (if x < 0 then - 1 else 1); res = big_Mod \<bar>x\<bar> \<bar>y\<bar> in U256 (res * n))"

definition opExp :: executionFunc where
  "opExp cl = binop (\<lambda>base exponent. math_Exp base exponent)"

definition opSignExtend :: executionFunc where
  "opSignExtend cl = vm_bind pop (\<lambda>back.
     if back < 31 then
       let bit' = unat (Uint64 back * 8 + 7) in
       vm_bind pop (\<lambda>num.
         let mask' = push_bit bit' 1 - 1;
             num = (if bit num bit' then num OR NOT mask' else num AND mask')
         in vm_bind (push (U256 num)) (\<lambda>_. vm_done))
     else vm_done)"

definition opNot :: executionFunc where
  "opNot cl = vm_bind pop (\<lambda>x. vm_bind (push (U256 (NOT x))) (\<lambda>_. vm_done))"

definition opLt :: executionFunc where
  "opLt cl = binop (\<lambda>x y. if x < y then 1 else 0)"

definition opGt :: executionFunc where
  "opGt cl = binop (\<lambda>x y. if x > y then 1 else 0)"

definition opSlt :: executionFunc where
  "opSlt cl = binop (\<lambda>x y. let x = S256 x; y = S256 y in if x < S256 y then 1 else 0)"

definition opSgt :: executionFunc where
  "opSgt cl = binop (\<lambda>x y. let x = S256 x; y = S256 y in if x > y then 1 else 0)"

definition opEq :: executionFunc where
  "opEq cl = binop (\<lambda>x y. if x = y then 1 else 0)"

definition opIszero :: executionFunc where
  "opIszero cl = vm_bind pop (\<lambda>x. vm_bind (push (if x > 0 then 0 else 1)) (\<lambda>_. vm_done))"

definition opAnd :: executionFunc where
  "opAnd cl = binop (\<lambda>x y. x AND y)"

definition opOr :: executionFunc where
  "opOr cl = binop (\<lambda>x y. x OR y)"

definition opXor :: executionFunc where
  "opXor cl = binop (\<lambda>x y. x XOR y)"

definition opByte :: executionFunc where
  "opByte cl = vm_bind pop (\<lambda>th. vm_bind peek (\<lambda>val.
     vm_bind (set_peek (if th < 32 then uint (math_Byte val 32 (nat (Int64 th))) else 0)) (\<lambda>_. vm_done)))"

definition opAddmod :: executionFunc where
  "opAddmod cl = vm_bind pop (\<lambda>x. vm_bind pop (\<lambda>y. vm_bind pop (\<lambda>z.
     vm_bind (push (if z > 0 then U256 (big_Mod (x + y) z) else 0)) (\<lambda>_. vm_done))))"

definition opMulmod :: executionFunc where
  "opMulmod cl = vm_bind pop (\<lambda>x. vm_bind pop (\<lambda>y. vm_bind pop (\<lambda>z.
     vm_bind (push (if z > 0 then U256 (big_Mod (x * y) z) else 0)) (\<lambda>_. vm_done))))"

definition opSHL :: executionFunc where
  "opSHL cl = vm_bind pop (\<lambda>s. vm_bind peek (\<lambda>v.
     let shift = U256 s; value = U256 v in
     vm_bind (set_peek (if shift \<ge> 256 then 0 else U256 (push_bit (unat (Uint64 shift)) value))) (\<lambda>_. vm_done)))"

definition opSHR :: executionFunc where
  "opSHR cl = vm_bind pop (\<lambda>s. vm_bind peek (\<lambda>v.
     let shift = U256 s; value = U256 v in
     vm_bind (set_peek (if shift \<ge> 256 then 0 else U256 (drop_bit (unat (Uint64 shift)) value))) (\<lambda>_. vm_done)))"

definition opSAR :: executionFunc where
  "opSAR cl = vm_bind pop (\<lambda>s. vm_bind pop (\<lambda>v.
     let shift = U256 s; value = S256 v in
     vm_bind (push (if shift \<ge> 256 then U256 (if value > 0 then 0 else - 1)
                    else U256 (drop_bit (unat (Uint64 shift)) value))) (\<lambda>_. vm_done)))"

section \<open>Hashing and the environment\<close>

definition opSha3 :: executionFunc where
  "opSha3 cl = vm_bind pop (\<lambda>off. vm_bind pop (\<lambda>sz.
     vm_bind (vm_Get (Int64 off) (Int64 sz)) (\<lambda>data.
     vm_bind (vm_gets (\<lambda>f. be_keccak (ev_db (fr_evm f)) data)) (\<lambda>h.
     vm_bind (vm_gets (\<lambda>f. cfg_EnablePreimageRecording (ev_vmConfig (fr_evm f)))) (\<lambda>record.
     vm_bind (if record then vm_update (\<lambda>be. AddPreimage h data) else vm_ret ()) (\<lambda>_.
     vm_bind (push (SetBytes (Hash_Bytes h))) (\<lambda>_. vm_done)))))))"

definition push_of :: "(frame \<Rightarrow> int) \<Rightarrow> bytes vm" where
  "push_of g = vm_bind (vm_gets g) (\<lambda>x. vm_bind (push x) (\<lambda>_. vm_done))"

definition opAddress :: executionFunc where
  "opAddress cl = push_of (\<lambda>f. Address_Big (ct_self (fr_contract f)))"

definition opBalance :: executionFunc where
  "opBalance cl = vm_bind pop (\<lambda>a. vm_bind (vm_query (\<lambda>be. GetBalance be (BigToAddress a))) (\<lambda>b.
     vm_bind (push b) (\<lambda>_. vm_done)))"

definition opOrigin :: executionFunc where
  "opOrigin cl = push_of (\<lambda>f. Address_Big (ctx_Origin (ev_ctx (fr_evm f))))"

definition opCaller :: executionFunc where
  "opCaller cl = push_of (\<lambda>f. Address_Big (ct_CallerAddress (fr_contract f)))"

definition opCallValue :: executionFunc where
  "opCallValue cl = push_of (\<lambda>f. ct_value (fr_contract f))"

definition opCallDataLoad :: executionFunc where
  "opCallDataLoad cl = vm_bind pop (\<lambda>off. vm_bind (vm_gets (\<lambda>f. ct_Input (fr_contract f))) (\<lambda>input.
     vm_bind (vm_go (getDataBig input off 32)) (\<lambda>d. vm_bind (push (SetBytes d)) (\<lambda>_. vm_done))))"

definition opCallDataSize :: executionFunc where
  "opCallDataSize cl = push_of (\<lambda>f. int (length (ct_Input (fr_contract f))))"

definition opCallDataCopy :: executionFunc where
  "opCallDataCopy cl = vm_bind pop (\<lambda>memOffset. vm_bind pop (\<lambda>dataOffset. vm_bind pop (\<lambda>len.
     vm_bind (vm_gets (\<lambda>f. ct_Input (fr_contract f))) (\<lambda>input.
     vm_bind (vm_go (getDataBig input dataOffset len)) (\<lambda>d.
     vm_bind (vm_Set (Uint64 memOffset) (Uint64 len) d) (\<lambda>_. vm_done))))))"

definition opReturnDataSize :: executionFunc where
  "opReturnDataSize cl = push_of (\<lambda>f. int (length (ev_returnData (fr_evm f))))"

definition opReturnDataCopy :: executionFunc where
  "opReturnDataCopy cl = vm_bind pop (\<lambda>memOffset. vm_bind pop (\<lambda>dataOffset. vm_bind pop (\<lambda>len.
     vm_bind (vm_gets (\<lambda>f. ev_returnData (fr_evm f))) (\<lambda>data.
     let e = dataOffset + len in
     if BitLen e > 64 \<or> of_nat (length data) < Uint64 e then vm_err errReturnDataOutOfBounds
     else vm_bind (vm_go (go_slice data (unat (Uint64 dataOffset)) (unat (Uint64 e)))) (\<lambda>d.
          vm_bind (vm_Set (Uint64 memOffset) (Uint64 len) d) (\<lambda>_. vm_done))))))"

definition opExtCodeSize :: executionFunc where
  "opExtCodeSize cl = vm_bind pop (\<lambda>a. vm_bind (vm_query (\<lambda>be. GetCodeSize be (BigToAddress a))) (\<lambda>n.
     vm_bind (push (int n)) (\<lambda>_. vm_done)))"

definition opCodeSize :: executionFunc where
  "opCodeSize cl = push_of (\<lambda>f. int (length (ct_Code (fr_contract f))))"

definition opCodeCopy :: executionFunc where
  "opCodeCopy cl = vm_bind pop (\<lambda>memOffset. vm_bind pop (\<lambda>codeOffset. vm_bind pop (\<lambda>len.
     vm_bind (vm_gets (\<lambda>f. ct_Code (fr_contract f))) (\<lambda>code.
     vm_bind (vm_go (getDataBig code codeOffset len)) (\<lambda>d.
     vm_bind (vm_Set (Uint64 memOffset) (Uint64 len) d) (\<lambda>_. vm_done))))))"

definition opExtCodeCopy :: executionFunc where
  "opExtCodeCopy cl = vm_bind pop (\<lambda>a. vm_bind pop (\<lambda>memOffset. vm_bind pop (\<lambda>codeOffset. vm_bind pop (\<lambda>len.
     vm_bind (vm_query (\<lambda>be. GetCode be (BigToAddress a))) (\<lambda>code.
     vm_bind (vm_go (getDataBig (case code of None \<Rightarrow> [] | Some c \<Rightarrow> c) codeOffset len)) (\<lambda>d.
     vm_bind (vm_Set (Uint64 memOffset) (Uint64 len) d) (\<lambda>_. vm_done)))))))"

definition opGasprice :: executionFunc where
  "opGasprice cl = push_of (\<lambda>f. ctx_GasPrice (ev_ctx (fr_evm f)))"

definition opBlockhash :: executionFunc where
  "opBlockhash cl = vm_bind pop (\<lambda>num. vm_bind (vm_gets (\<lambda>f. ev_ctx (fr_evm f))) (\<lambda>ctx.
     let n = ctx_BlockNumber ctx - 257 in
     vm_bind (push (if num > n \<and> num < ctx_BlockNumber ctx then Hash_Big (ctx_GetHash ctx (Uint64 num)) else 0)) (\<lambda>_. vm_done)))"

definition opCoinbase :: executionFunc where
  "opCoinbase cl = push_of (\<lambda>f. Address_Big (ctx_Coinbase (ev_ctx (fr_evm f))))"

definition opTimestamp :: executionFunc where
  "opTimestamp cl = push_of (\<lambda>f. U256 (ctx_Time (ev_ctx (fr_evm f))))"

definition opNumber :: executionFunc where
  "opNumber cl = push_of (\<lambda>f. U256 (ctx_BlockNumber (ev_ctx (fr_evm f))))"

definition opDifficulty :: executionFunc where
  "opDifficulty cl = push_of (\<lambda>f. U256 (ctx_Difficulty (ev_ctx (fr_evm f))))"

definition opGasLimit :: executionFunc where
  "opGasLimit cl = push_of (\<lambda>f. U256 (uint (ctx_GasLimit (ev_ctx (fr_evm f)))))"

section \<open>Stack, memory, storage and flow\<close>

definition opPop :: executionFunc where
  "opPop cl = vm_bind pop (\<lambda>_. vm_done)"

definition opMload :: executionFunc where
  "opMload cl = vm_bind pop (\<lambda>off. vm_bind (vm_Get (Int64 off) 32) (\<lambda>d. vm_bind (push (SetBytes d)) (\<lambda>_. vm_done)))"

definition opMstore :: executionFunc where
  "opMstore cl = vm_bind pop (\<lambda>mStart. vm_bind pop (\<lambda>val.
     vm_bind (vm_Set (Uint64 mStart) 32 (PaddedBigBytes val 32)) (\<lambda>_. vm_done)))"

definition opMstore8 :: executionFunc where
  "opMstore8 cl = vm_bind pop (\<lambda>off. vm_bind pop (\<lambda>val.
     vm_bind (vm_gets (\<lambda>f. mem_store (fr_mem f))) (\<lambda>store.
     let i = Int64 off; b = word_of_int (Int64 val AND 0xFF) in
     if i < 0 \<or> i \<ge> int (length store) then vm_go Panic
     else vm_bind (vm_modify (\<lambda>f. f\<lparr>fr_mem := (fr_mem f)\<lparr>mem_store := store[nat i := b]\<rparr>\<rparr>)) (\<lambda>_. vm_done))))"

definition opSload :: executionFunc where
  "opSload cl = vm_bind pop (\<lambda>x. vm_bind (vm_gets (\<lambda>f. ct_self (fr_contract f))) (\<lambda>addr.
     vm_bind (vm_query (\<lambda>be. GetState be addr (BigToHash x))) (\<lambda>v. vm_bind (push (Hash_Big v)) (\<lambda>_. vm_done))))"

definition opSstore :: executionFunc where
  "opSstore cl = vm_bind pop (\<lambda>x. vm_bind pop (\<lambda>val.
     vm_bind (vm_gets (\<lambda>f. ct_self (fr_contract f))) (\<lambda>addr.
     vm_bind (vm_update (\<lambda>be. SetState be addr (BigToHash x) (BigToHash val))) (\<lambda>_. vm_done))))"

text \<open>
  The analysis of the code is looked up in a cache of the calling frames by the hash of the code;
  here it is made at each jump.
\<close>

definition jump_to :: "int \<Rightarrow> bytes vm" where
  "jump_to pos =
     vm_bind (vm_gets fr_contract) (\<lambda>c.
     vm_bind (vm_go (destinations_has (ct_CodeHash c) (ct_Code c) pos (\<lambda>_. None))) (\<lambda>(ok, _).
     if \<not> ok then vm_err (errInvalidJump (GetOp c (Uint64 pos)) pos)
     else vm_bind (vm_modify (\<lambda>f. f\<lparr>fr_pc := Uint64 pos\<rparr>)) (\<lambda>_. vm_done)))"

definition opJump :: executionFunc where
  "opJump cl = vm_bind pop jump_to"

definition opJumpi :: executionFunc where
  "opJumpi cl = vm_bind pop (\<lambda>pos. vm_bind pop (\<lambda>cond.
     if cond \<noteq> 0 then jump_to pos
     else vm_bind (vm_modify (\<lambda>f. f\<lparr>fr_pc := fr_pc f + 1\<rparr>)) (\<lambda>_. vm_done)))"

definition opJumpdest :: executionFunc where
  "opJumpdest cl = vm_done"

definition opPc :: executionFunc where
  "opPc cl = push_of (\<lambda>f. uint (fr_pc f))"

definition opMsize :: executionFunc where
  "opMsize cl = push_of (\<lambda>f. int (Memory_Len (fr_mem f)))"

definition opGas :: executionFunc where
  "opGas cl = push_of (\<lambda>f. uint (ct_Gas (fr_contract f)))"

section \<open>Calls\<close>

text \<open>Running a nested call of the machine.\<close>

definition vm_call :: "(EVM \<Rightarrow> ('r \<times> EVM) go) \<Rightarrow> 'r vm" where
  "vm_call g f = go_bind (g (fr_evm f)) (\<lambda>(r, evm). Ret (Inr r, f\<lparr>fr_evm := evm\<rparr>))"

definition opCreate :: executionFunc where
  "opCreate cl = vm_bind pop (\<lambda>value. vm_bind pop (\<lambda>off. vm_bind pop (\<lambda>sz.
     vm_bind (vm_Get (Int64 off) (Int64 sz)) (\<lambda>input.
     vm_bind (vm_gets (\<lambda>f. ct_Gas (fr_contract f))) (\<lambda>gas.
     vm_bind (vm_gets (\<lambda>f. (ev_chainConfig (fr_evm f), ev_number (fr_evm f)))) (\<lambda>(c, num).
     let gas = (if IsEIP150 c num then gas - gas div 64 else gas) in
     vm_bind (vm_UseGas gas) (\<lambda>_.
     vm_bind (vm_gets fr_contract) (\<lambda>contract.
     vm_bind (vm_call (cl_Create cl (ContractOf contract) input gas value)) (\<lambda>(res, addr, returnGas, suberr).
     vm_bind (push (if IsHomestead c num \<and> suberr = Some ErrCodeStoreOutOfGas then 0
                    else if suberr \<noteq> None \<and> suberr \<noteq> Some ErrCodeStoreOutOfGas then 0
                    else Address_Big addr)) (\<lambda>_.
     vm_bind (vm_AddGas returnGas) (\<lambda>_.
     if suberr = Some errExecutionReverted then vm_ret res else vm_done)))))))))))"

text \<open>The tail the four call instructions share.\<close>

definition finishCall :: "int \<Rightarrow> int \<Rightarrow> bytes \<Rightarrow> u64 \<Rightarrow> vm_error option \<Rightarrow> bytes vm" where
  "finishCall retOffset retSize ret returnGas err =
     vm_bind (push (if err \<noteq> None then 0 else 1)) (\<lambda>_.
     vm_bind (if err = None \<or> err = Some errExecutionReverted then vm_Set (Uint64 retOffset) (Uint64 retSize) ret
              else vm_ret ()) (\<lambda>_.
     vm_bind (vm_AddGas returnGas) (\<lambda>_. vm_ret ret)))"

definition opCall :: executionFunc where
  "opCall cl = vm_bind pop (\<lambda>_. vm_bind (vm_gets (\<lambda>f. ev_callGasTemp (fr_evm f))) (\<lambda>gas.
     vm_bind pop (\<lambda>addr. vm_bind pop (\<lambda>value. vm_bind pop (\<lambda>inOffset. vm_bind pop (\<lambda>inSize.
     vm_bind pop (\<lambda>retOffset. vm_bind pop (\<lambda>retSize.
     let toAddr = BigToAddress addr; value = U256 value in
     vm_bind (vm_Get (Int64 inOffset) (Int64 inSize)) (\<lambda>args.
     let gas = (if value \<noteq> 0 then gas + CallStipend else gas) in
     vm_bind (vm_gets fr_contract) (\<lambda>contract.
     vm_bind (vm_call (cl_Call cl (ContractOf contract) toAddr args gas value)) (\<lambda>(ret, returnGas, err).
     finishCall retOffset retSize ret returnGas err)))))))))))"

definition opCallCode :: executionFunc where
  "opCallCode cl = vm_bind pop (\<lambda>_. vm_bind (vm_gets (\<lambda>f. ev_callGasTemp (fr_evm f))) (\<lambda>gas.
     vm_bind pop (\<lambda>addr. vm_bind pop (\<lambda>value. vm_bind pop (\<lambda>inOffset. vm_bind pop (\<lambda>inSize.
     vm_bind pop (\<lambda>retOffset. vm_bind pop (\<lambda>retSize.
     let toAddr = BigToAddress addr; value = U256 value in
     vm_bind (vm_Get (Int64 inOffset) (Int64 inSize)) (\<lambda>args.
     let gas = (if value \<noteq> 0 then gas + CallStipend else gas) in
     vm_bind (vm_gets fr_contract) (\<lambda>contract.
     vm_bind (vm_call (cl_CallCode cl (ContractOf contract) toAddr args gas value)) (\<lambda>(ret, returnGas, err).
     finishCall retOffset retSize ret returnGas err)))))))))))"

definition opDelegateCall :: executionFunc where
  "opDelegateCall cl = vm_bind pop (\<lambda>_. vm_bind (vm_gets (\<lambda>f. ev_callGasTemp (fr_evm f))) (\<lambda>gas.
     vm_bind pop (\<lambda>addr. vm_bind pop (\<lambda>inOffset. vm_bind pop (\<lambda>inSize.
     vm_bind pop (\<lambda>retOffset. vm_bind pop (\<lambda>retSize.
     let toAddr = BigToAddress addr in
     vm_bind (vm_Get (Int64 inOffset) (Int64 inSize)) (\<lambda>args.
     vm_bind (vm_gets fr_contract) (\<lambda>contract.
     vm_bind (vm_call (cl_DelegateCall cl (ContractOf contract) toAddr args gas)) (\<lambda>(ret, returnGas, err).
     finishCall retOffset retSize ret returnGas err))))))))))"

definition opStaticCall :: executionFunc where
  "opStaticCall cl = vm_bind pop (\<lambda>_. vm_bind (vm_gets (\<lambda>f. ev_callGasTemp (fr_evm f))) (\<lambda>gas.
     vm_bind pop (\<lambda>addr. vm_bind pop (\<lambda>inOffset. vm_bind pop (\<lambda>inSize.
     vm_bind pop (\<lambda>retOffset. vm_bind pop (\<lambda>retSize.
     let toAddr = BigToAddress addr in
     vm_bind (vm_Get (Int64 inOffset) (Int64 inSize)) (\<lambda>args.
     vm_bind (vm_gets fr_contract) (\<lambda>contract.
     vm_bind (vm_call (cl_StaticCall cl (ContractOf contract) toAddr args gas)) (\<lambda>(ret, returnGas, err).
     finishCall retOffset retSize ret returnGas err))))))))))"

definition opReturn :: executionFunc where
  "opReturn cl = vm_bind pop (\<lambda>off. vm_bind pop (\<lambda>sz. vm_GetPtr (Int64 off) (Int64 sz)))"

definition opRevert :: executionFunc where
  "opRevert cl = vm_bind pop (\<lambda>off. vm_bind pop (\<lambda>sz. vm_GetPtr (Int64 off) (Int64 sz)))"

definition opStop :: executionFunc where
  "opStop cl = vm_done"

definition opSuicide :: executionFunc where
  "opSuicide cl = vm_bind (vm_gets (\<lambda>f. ct_self (fr_contract f))) (\<lambda>self.
     vm_bind (vm_query (\<lambda>be. GetBalance be self)) (\<lambda>balance. vm_bind pop (\<lambda>a.
     vm_bind (vm_update (\<lambda>be. AddBalance be (BigToAddress a) balance)) (\<lambda>_.
     vm_bind (vm_query (\<lambda>be. State_DB.Suicide be self)) (\<lambda>_. vm_done)))))"

section \<open>Instruction makers\<close>

primrec popTopics :: "nat \<Rightarrow> hash list vm" where
  "popTopics 0 = vm_ret []"
| "popTopics (Suc n) = vm_bind pop (\<lambda>x. vm_bind (popTopics n) (\<lambda>ts. vm_ret (BigToHash x # ts)))"

definition makeLog :: "nat \<Rightarrow> executionFunc" where
  "makeLog sz cl = vm_bind pop (\<lambda>mStart. vm_bind pop (\<lambda>mSize. vm_bind (popTopics sz) (\<lambda>topics.
     vm_bind (vm_Get (Int64 mStart) (Int64 mSize)) (\<lambda>d.
     vm_bind (vm_gets (\<lambda>f. (ct_self (fr_contract f), ctx_BlockNumber (ev_ctx (fr_evm f))))) (\<lambda>(self, num).
     vm_bind (vm_update (\<lambda>be. AddLog \<lparr>log_Address = self, log_Topics = topics, log_Data = d, log_BlockNumber = Uint64 num,
         log_TxHash = 0, log_TxIndex = 0, log_BlockHash = 0, log_Index = 0, log_Removed = False\<rparr>)) (\<lambda>_. vm_done))))))"

definition makePush :: "u64 \<Rightarrow> nat \<Rightarrow> executionFunc" where
  "makePush sz pushByteSize cl =
     vm_bind (vm_gets (\<lambda>f. (ct_Code (fr_contract f), fr_pc f))) (\<lambda>(code, pc).
     let codeLen = int (length code);
         startMin = (if sint (pc + 1) < codeLen then sint (pc + 1) else codeLen);
         endMin = (if startMin + int pushByteSize < codeLen then startMin + int pushByteSize else codeLen)
     in vm_bind (vm_go (if startMin < 0 then Panic else go_slice code (nat startMin) (nat endMin))) (\<lambda>d.
        vm_bind (push (SetBytes (RightPadBytes d pushByteSize))) (\<lambda>_.
        vm_bind (vm_modify (\<lambda>f. f\<lparr>fr_pc := fr_pc f + sz\<rparr>)) (\<lambda>_. vm_done))))"

definition makeDup :: "nat \<Rightarrow> executionFunc" where
  "makeDup sz cl = vm_bind (stack_dup sz) (\<lambda>_. vm_done)"

definition makeSwap :: "nat \<Rightarrow> executionFunc" where
  "makeSwap sz cl = vm_bind (stack_swap (sz + 1)) (\<lambda>_. vm_done)"

end
