(* ===== verification/VM_Contracts.thy ===== *)
theory VM_Contracts
  imports VM_Machine
begin

text \<open>
  The precompiled contracts (\<open>core/vm/contracts.go\<close>). The hash functions, the signature
  recovery and the curve are the \<open>Crypto\<close> record; a curve point that does not unmarshal is an
  error.
\<close>

record PrecompiledContract =
  pc_RequiredGas :: "bytes \<Rightarrow> u64 go"
  pc_Run :: "bytes \<Rightarrow> (vm_error + bytes) go"

definition ecrecover_Run :: "Backend \<Rightarrow> Crypto \<Rightarrow> bytes \<Rightarrow> (vm_error + bytes) go" where
  "ecrecover_Run be cr inp =
     (let input = RightPadBytes inp 128;
          r = SetBytes (take 32 (drop 64 input));
          s = SetBytes (take 32 (drop 96 input));
          v = input ! 63 - 27
      in if \<not> allZero (take 31 (drop 32 input)) \<or> \<not> cr_ValidateSignatureValues cr v r s then Ret (Inr [])
         else case cr_Ecrecover cr (take 32 input) (take 64 (drop 64 input) @ [v]) of
           None \<Rightarrow> Ret (Inr [])
         | Some pubKey \<Rightarrow> Ret (Inr (LeftPadBytes (drop 12 (Hash_Bytes (be_keccak be (drop 1 pubKey)))) 32)))"

definition words_of :: "bytes \<Rightarrow> u64" where
  "words_of input = of_nat (length input + 31) div 32"

definition sha256_RequiredGas :: "bytes \<Rightarrow> u64" where
  "sha256_RequiredGas input = words_of input * 12 + 60"

definition ripemd160_RequiredGas :: "bytes \<Rightarrow> u64" where
  "ripemd160_RequiredGas input = words_of input * 120 + 600"

definition dataCopy_RequiredGas :: "bytes \<Rightarrow> u64" where
  "dataCopy_RequiredGas input = words_of input * 3 + 15"

section \<open>Modular exponentiation\<close>

text \<open>The three lengths at the head of the input, and the rest.\<close>

definition modexp_lens :: "bytes \<Rightarrow> (int \<times> int \<times> int) go" where
  "modexp_lens input =
     go_bind (getData input 0 32) (\<lambda>b. go_bind (getData input 32 32) (\<lambda>e. go_bind (getData input 64 32) (\<lambda>m.
       Ret (SetBytes b, SetBytes e, SetBytes m))))"

definition multComplexity :: "int \<Rightarrow> int" where
  "multComplexity x =
     (if x \<le> 64 then x * x
      else if x \<le> 1024 then x * x div 4 + (96 * x - 3072)
      else x * x div 16 + (480 * x - 199680))"

definition bigModExp_RequiredGas :: "bytes \<Rightarrow> u64 go" where
  "bigModExp_RequiredGas input =
     go_bind (modexp_lens input) (\<lambda>(baseLen, expLen, modLen).
     let input = (if length input > 96 then drop 96 input else []) in
     go_bind (if int (length input) \<le> baseLen then Ret 0
              else go_bind (getData input (Uint64 baseLen) (if expLen > 32 then 32 else Uint64 expLen)) (\<lambda>d. Ret (SetBytes d))) (\<lambda>expHead.
     let msb = (if BitLen expHead > 0 then BitLen expHead - 1 else 0);
         adjExpLen = (if expLen > 32 then 8 * (expLen - 32) else 0) + int msb;
         gas = multComplexity (BigMax modLen baseLen) * BigMax adjExpLen 1 div 20
     in Ret (if BitLen gas > 64 then MaxUint64 else Uint64 gas)))"

definition bigModExp_Run :: "bytes \<Rightarrow> (vm_error + bytes) go" where
  "bigModExp_Run input =
     go_bind (modexp_lens input) (\<lambda>(bl, el, ml).
     let baseLen = Uint64 bl; expLen = Uint64 el; modLen = Uint64 ml;
         input = (if length input > 96 then drop 96 input else [])
     in if baseLen = 0 \<and> modLen = 0 then Ret (Inr [])
        else
          go_bind (getData input 0 baseLen) (\<lambda>b. go_bind (getData input baseLen expLen) (\<lambda>e.
          go_bind (getData input (baseLen + expLen) modLen) (\<lambda>m.
          let base = SetBytes b; exp = SetBytes e; md = SetBytes m in
          if BitLen md = 0 then Ret (Inr (LeftPadBytes [] (nat (sint modLen))))
          else Ret (Inr (LeftPadBytes (big_Bytes (base ^ nat exp mod md)) (nat (sint modLen))))))))"

section \<open>The curve\<close>

definition newCurvePoint :: "Crypto \<Rightarrow> bytes \<Rightarrow> vm_error + bytes" where
  "newCurvePoint cr blob = (if cr_G1_ok cr blob then Inr blob else Inl errPrecompile)"

definition newTwistPoint :: "Crypto \<Rightarrow> bytes \<Rightarrow> vm_error + bytes" where
  "newTwistPoint cr blob = (if cr_G2_ok cr blob then Inr blob else Inl errPrecompile)"

definition bn256Add_Run :: "Crypto \<Rightarrow> bytes \<Rightarrow> (vm_error + bytes) go" where
  "bn256Add_Run cr input =
     go_bind (getData input 0 64) (\<lambda>a. case newCurvePoint cr a of Inl e \<Rightarrow> Ret (Inl e) | Inr x \<Rightarrow>
     go_bind (getData input 64 64) (\<lambda>b. case newCurvePoint cr b of Inl e \<Rightarrow> Ret (Inl e) | Inr y \<Rightarrow>
       Ret (Inr (cr_G1_Add cr x y))))"

definition bn256ScalarMul_Run :: "Crypto \<Rightarrow> bytes \<Rightarrow> (vm_error + bytes) go" where
  "bn256ScalarMul_Run cr input =
     go_bind (getData input 0 64) (\<lambda>a. case newCurvePoint cr a of Inl e \<Rightarrow> Ret (Inl e) | Inr p \<Rightarrow>
     go_bind (getData input 64 32) (\<lambda>k. Ret (Inr (cr_G1_ScalarMult cr p (SetBytes k)))))"

text \<open>The loop over the pairs of points, 192 bytes each.\<close>

function pairs :: "Crypto \<Rightarrow> bytes \<Rightarrow> vm_error + (bytes \<times> bytes) list" where
  "pairs cr input =
     (if input = [] then Inr []
      else case newCurvePoint cr (take 64 input) of Inl e \<Rightarrow> Inl e | Inr c \<Rightarrow>
        (case newTwistPoint cr (take 128 (drop 64 input)) of Inl e \<Rightarrow> Inl e | Inr t \<Rightarrow>
          (case pairs cr (drop 192 input) of Inl e \<Rightarrow> Inl e | Inr ps \<Rightarrow> Inr ((c, t) # ps))))"
  by auto
termination
  by (relation "measure (\<lambda>(cr, input). length input)") auto

declare pairs.simps [simp del]

definition bn256Pairing_RequiredGas :: "bytes \<Rightarrow> u64" where
  "bn256Pairing_RequiredGas input = 100000 + of_nat (length input div 192) * 80000"

definition bn256Pairing_Run :: "Crypto \<Rightarrow> bytes \<Rightarrow> (vm_error + bytes) go" where
  "bn256Pairing_Run cr input =
     (if length input mod 192 > 0 then Ret (Inl errPrecompile)
      else case pairs cr input of Inl e \<Rightarrow> Ret (Inl e)
        | Inr ps \<Rightarrow> Ret (Inr (if cr_PairingCheck cr ps then replicate 31 0 @ [1] else replicate 32 0)))"

section \<open>The tables\<close>

definition PrecompiledContractsHomestead :: "Backend \<Rightarrow> Crypto \<Rightarrow> address \<Rightarrow> PrecompiledContract option" where
  "PrecompiledContractsHomestead be cr addr =
     (if addr = 1 then Some \<lparr>pc_RequiredGas = (\<lambda>_. Ret 3000), pc_Run = ecrecover_Run be cr\<rparr>
      else if addr = 2 then Some \<lparr>pc_RequiredGas = (\<lambda>i. Ret (sha256_RequiredGas i)), pc_Run = (\<lambda>i. Ret (Inr (cr_sha256 cr i)))\<rparr>
      else if addr = 3 then
        Some \<lparr>pc_RequiredGas = (\<lambda>i. Ret (ripemd160_RequiredGas i)), pc_Run = (\<lambda>i. Ret (Inr (LeftPadBytes (cr_ripemd160 cr i) 32)))\<rparr>
      else if addr = 4 then Some \<lparr>pc_RequiredGas = (\<lambda>i. Ret (dataCopy_RequiredGas i)), pc_Run = (\<lambda>i. Ret (Inr i))\<rparr>
      else None)"

definition PrecompiledContractsByzantium :: "Backend \<Rightarrow> Crypto \<Rightarrow> address \<Rightarrow> PrecompiledContract option" where
  "PrecompiledContractsByzantium be cr addr =
     (if addr = 5 then Some \<lparr>pc_RequiredGas = bigModExp_RequiredGas, pc_Run = bigModExp_Run\<rparr>
      else if addr = 6 then Some \<lparr>pc_RequiredGas = (\<lambda>_. Ret 500), pc_Run = bn256Add_Run cr\<rparr>
      else if addr = 7 then Some \<lparr>pc_RequiredGas = (\<lambda>_. Ret 40000), pc_Run = bn256ScalarMul_Run cr\<rparr>
      else if addr = 8 then Some \<lparr>pc_RequiredGas = (\<lambda>i. Ret (bn256Pairing_RequiredGas i)), pc_Run = bn256Pairing_Run cr\<rparr>
      else PrecompiledContractsHomestead be cr addr)"

definition RunPrecompiledContract :: "PrecompiledContract \<Rightarrow> bytes \<Rightarrow> Contract \<Rightarrow> ((bytes \<times> vm_error option) \<times> Contract) go" where
  "RunPrecompiledContract p input contract =
     go_bind (pc_RequiredGas p input) (\<lambda>gas.
     let (ok, contract) = UseGas gas contract in
     if ok then go_bind (pc_Run p input) (\<lambda>r.
       Ret (case r of Inl e \<Rightarrow> ([], Some e) | Inr d \<Rightarrow> (d, None), contract))
     else Ret (([], Some ErrOutOfGas), contract))"

end
