(* ===== verification/VM_JumpTable.thy ===== *)
theory VM_JumpTable
  imports VM_Instructions
begin

text \<open>
  The instruction sets (\<open>core/vm/jump_table.go\<close>): an operation is the execution function with its
  gas, its stack requirement, the memory it touches and its flags; an instruction set maps the valid
  opcodes to operations. The 256-entry array is built from association lists, in the order of the
  opcodes; the \<open>PUSH\<close>, \<open>DUP\<close>, \<open>SWAP\<close> and \<open>LOG\<close> families are written once for all their sizes.
\<close>

record operation =
  op_execute :: executionFunc
  op_gasCost :: gasFunc
  op_validateStack :: "int list \<Rightarrow> vm_error option"
  op_memorySize :: "int vm option"
  op_halts :: bool
  op_jumps :: bool
  op_writes :: bool
  op_reverts :: bool
  op_returns :: bool

text \<open>An operation with every flag unset.\<close>

definition instr :: "executionFunc \<Rightarrow> gasFunc \<Rightarrow> (int list \<Rightarrow> vm_error option) \<Rightarrow> int vm option \<Rightarrow> operation" where
  "instr ex gas validate ms =
     \<lparr>op_execute = ex, op_gasCost = gas, op_validateStack = validate, op_memorySize = ms,
      op_halts = False, op_jumps = False, op_writes = False, op_reverts = False, op_returns = False\<rparr>"

definition frontier_arithmetic :: "(byte \<times> operation) list" where
  "frontier_arithmetic =
     [(0x00, (instr opStop (constGasFunc 0) (makeStackFunc 0 0) None)\<lparr>op_halts := True\<rparr>),
      (0x01, instr opAdd (constGasFunc GasFastestStep) (makeStackFunc 2 1) None),
      (0x02, instr opMul (constGasFunc GasFastStep) (makeStackFunc 2 1) None),
      (0x03, instr opSub (constGasFunc GasFastestStep) (makeStackFunc 2 1) None),
      (0x04, instr opDiv (constGasFunc GasFastStep) (makeStackFunc 2 1) None),
      (0x05, instr opSdiv (constGasFunc GasFastStep) (makeStackFunc 2 1) None),
      (0x06, instr opMod (constGasFunc GasFastStep) (makeStackFunc 2 1) None),
      (0x07, instr opSmod (constGasFunc GasFastStep) (makeStackFunc 2 1) None),
      (0x08, instr opAddmod (constGasFunc GasMidStep) (makeStackFunc 3 1) None),
      (0x09, instr opMulmod (constGasFunc GasMidStep) (makeStackFunc 3 1) None),
      (0x0a, instr opExp gasExp (makeStackFunc 2 1) None),
      (0x0b, instr opSignExtend (constGasFunc GasFastStep) (makeStackFunc 2 1) None)]"

definition frontier_logic :: "(byte \<times> operation) list" where
  "frontier_logic =
     [(0x10, instr opLt (constGasFunc GasFastestStep) (makeStackFunc 2 1) None),
      (0x11, instr opGt (constGasFunc GasFastestStep) (makeStackFunc 2 1) None),
      (0x12, instr opSlt (constGasFunc GasFastestStep) (makeStackFunc 2 1) None),
      (0x13, instr opSgt (constGasFunc GasFastestStep) (makeStackFunc 2 1) None),
      (0x14, instr opEq (constGasFunc GasFastestStep) (makeStackFunc 2 1) None),
      (0x15, instr opIszero (constGasFunc GasFastestStep) (makeStackFunc 1 1) None),
      (0x16, instr opAnd (constGasFunc GasFastestStep) (makeStackFunc 2 1) None),
      (0x17, instr opOr (constGasFunc GasFastestStep) (makeStackFunc 2 1) None),
      (0x18, instr opXor (constGasFunc GasFastestStep) (makeStackFunc 2 1) None),
      (0x19, instr opNot (constGasFunc GasFastestStep) (makeStackFunc 1 1) None),
      (0x1a, instr opByte (constGasFunc GasFastestStep) (makeStackFunc 2 1) None)]"

definition frontier_environment :: "(byte \<times> operation) list" where
  "frontier_environment =
     [(0x20, instr opSha3 gasSha3 (makeStackFunc 2 1) (Some memorySha3)),
      (0x30, instr opAddress (constGasFunc GasQuickStep) (makeStackFunc 0 1) None),
      (0x31, instr opBalance gasBalance (makeStackFunc 1 1) None),
      (0x32, instr opOrigin (constGasFunc GasQuickStep) (makeStackFunc 0 1) None),
      (0x33, instr opCaller (constGasFunc GasQuickStep) (makeStackFunc 0 1) None),
      (0x34, instr opCallValue (constGasFunc GasQuickStep) (makeStackFunc 0 1) None),
      (0x35, instr opCallDataLoad (constGasFunc GasFastestStep) (makeStackFunc 1 1) None),
      (0x36, instr opCallDataSize (constGasFunc GasQuickStep) (makeStackFunc 0 1) None),
      (0x37, instr opCallDataCopy gasCallDataCopy (makeStackFunc 3 0) (Some memoryCallDataCopy)),
      (0x38, instr opCodeSize (constGasFunc GasQuickStep) (makeStackFunc 0 1) None),
      (0x39, instr opCodeCopy gasCodeCopy (makeStackFunc 3 0) (Some memoryCodeCopy)),
      (0x3a, instr opGasprice (constGasFunc GasQuickStep) (makeStackFunc 0 1) None),
      (0x3b, instr opExtCodeSize gasExtCodeSize (makeStackFunc 1 1) None),
      (0x3c, instr opExtCodeCopy gasExtCodeCopy (makeStackFunc 4 0) (Some memoryExtCodeCopy)),
      (0x40, instr opBlockhash (constGasFunc GasExtStep) (makeStackFunc 1 1) None),
      (0x41, instr opCoinbase (constGasFunc GasQuickStep) (makeStackFunc 0 1) None),
      (0x42, instr opTimestamp (constGasFunc GasQuickStep) (makeStackFunc 0 1) None),
      (0x43, instr opNumber (constGasFunc GasQuickStep) (makeStackFunc 0 1) None),
      (0x44, instr opDifficulty (constGasFunc GasQuickStep) (makeStackFunc 0 1) None),
      (0x45, instr opGasLimit (constGasFunc GasQuickStep) (makeStackFunc 0 1) None)]"

definition frontier_storage :: "(byte \<times> operation) list" where
  "frontier_storage =
     [(0x50, instr opPop (constGasFunc GasQuickStep) (makeStackFunc 1 0) None),
      (0x51, instr opMload gasMLoad (makeStackFunc 1 1) (Some memoryMLoad)),
      (0x52, instr opMstore gasMStore (makeStackFunc 2 0) (Some memoryMStore)),
      (0x53, instr opMstore8 gasMStore8 (makeStackFunc 2 0) (Some memoryMStore8)),
      (0x54, instr opSload gasSLoad (makeStackFunc 1 1) None),
      (0x55, (instr opSstore gasSStore (makeStackFunc 2 0) None)\<lparr>op_writes := True\<rparr>),
      (0x56, (instr opJump (constGasFunc GasMidStep) (makeStackFunc 1 0) None)\<lparr>op_jumps := True\<rparr>),
      (0x57, (instr opJumpi (constGasFunc GasSlowStep) (makeStackFunc 2 0) None)\<lparr>op_jumps := True\<rparr>),
      (0x58, instr opPc (constGasFunc GasQuickStep) (makeStackFunc 0 1) None),
      (0x59, instr opMsize (constGasFunc GasQuickStep) (makeStackFunc 0 1) None),
      (0x5a, instr opGas (constGasFunc GasQuickStep) (makeStackFunc 0 1) None),
      (0x5b, instr opJumpdest (constGasFunc JumpdestGas) (makeStackFunc 0 0) None)]"

definition frontier_system :: "(byte \<times> operation) list" where
  "frontier_system =
     [(0xf0, (instr opCreate gasCreate (makeStackFunc 3 1) (Some memoryCreate))\<lparr>op_writes := True, op_returns := True\<rparr>),
      (0xf1, (instr opCall gasCall (makeStackFunc 7 1) (Some memoryCall))\<lparr>op_returns := True\<rparr>),
      (0xf2, (instr opCallCode gasCallCode (makeStackFunc 7 1) (Some memoryCall))\<lparr>op_returns := True\<rparr>),
      (0xf3, (instr opReturn gasReturn (makeStackFunc 2 0) (Some memoryReturn))\<lparr>op_halts := True\<rparr>),
      (0xff, (instr opSuicide gasSuicide (makeStackFunc 1 0) None)\<lparr>op_halts := True, op_writes := True\<rparr>)]"

definition frontier_push :: "(byte \<times> operation) list" where
  "frontier_push = map (\<lambda>n. (0x5f + of_nat n, instr (makePush (of_nat n) n) gasPush (makeStackFunc 0 1) None)) [1..<33]"

definition frontier_dup :: "(byte \<times> operation) list" where
  "frontier_dup = map (\<lambda>n. (0x7f + of_nat n, instr (makeDup n) gasDup (makeDupStackFunc n) None)) [1..<17]"

definition frontier_swap :: "(byte \<times> operation) list" where
  "frontier_swap = map (\<lambda>n. (0x8f + of_nat n, instr (makeSwap n) gasSwap (makeSwapStackFunc (n + 1)) None)) [1..<17]"

definition frontier_log :: "(byte \<times> operation) list" where
  "frontier_log =
     map (\<lambda>n. (0xa0 + of_nat n,
       (instr (makeLog n) (makeGasLog (of_nat n)) (makeStackFunc (n + 2) 0) (Some memoryLog))\<lparr>op_writes := True\<rparr>)) [0..<5]"

definition NewFrontierInstructionSet :: "(byte \<times> operation) list" where
  "NewFrontierInstructionSet =
     frontier_arithmetic @ frontier_logic @ frontier_environment @ frontier_storage @ frontier_push @ frontier_dup @
     frontier_swap @ frontier_log @ frontier_system"

definition NewHomesteadInstructionSet :: "(byte \<times> operation) list" where
  "NewHomesteadInstructionSet =
     (0xf4, (instr opDelegateCall gasDelegateCall (makeStackFunc 6 1) (Some memoryDelegateCall))\<lparr>op_returns := True\<rparr>) #
     NewFrontierInstructionSet"

definition NewByzantiumInstructionSet :: "(byte \<times> operation) list" where
  "NewByzantiumInstructionSet =
     [(0xfa, (instr opStaticCall gasStaticCall (makeStackFunc 6 1) (Some memoryStaticCall))\<lparr>op_returns := True\<rparr>),
      (0x3d, instr opReturnDataSize (constGasFunc GasQuickStep) (makeStackFunc 0 1) None),
      (0x3e, instr opReturnDataCopy gasReturnDataCopy (makeStackFunc 3 0) (Some memoryReturnDataCopy)),
      (0xfd, (instr opRevert gasRevert (makeStackFunc 2 0) (Some memoryRevert))\<lparr>op_reverts := True, op_returns := True\<rparr>)] @
     NewHomesteadInstructionSet"

definition NewConstantinopleInstructionSet :: "(byte \<times> operation) list" where
  "NewConstantinopleInstructionSet =
     [(0x1b, instr opSHL (constGasFunc GasFastestStep) (makeStackFunc 2 1) None),
      (0x1c, instr opSHR (constGasFunc GasFastestStep) (makeStackFunc 2 1) None),
      (0x1d, instr opSAR (constGasFunc GasFastestStep) (makeStackFunc 2 1) None)] @
     NewByzantiumInstructionSet"

definition NewSpringInstructionSet :: "(byte \<times> operation) list" where
  "NewSpringInstructionSet = NewConstantinopleInstructionSet"

primrec instructionSet :: "InstructionSet \<Rightarrow> (byte \<times> operation) list" where
  "instructionSet Frontier = NewFrontierInstructionSet"
| "instructionSet Homestead = NewHomesteadInstructionSet"
| "instructionSet Byzantium = NewByzantiumInstructionSet"
| "instructionSet Constantinople = NewConstantinopleInstructionSet"
| "instructionSet Spring = NewSpringInstructionSet"

text \<open>The operation of an opcode; \<open>None\<close> is an entry that is not \<open>valid\<close>.\<close>

definition JumpTable :: "InstructionSet \<Rightarrow> byte \<Rightarrow> operation option" where
  "JumpTable i opc = map_of (instructionSet i) opc"

end
