(* ===== verification/VM_Interpreter.thy ===== *)
theory VM_Interpreter
  imports VM_JumpTable VM_Contracts
begin

text \<open>
  The interpreter loop (\<open>core/vm/interpreter.go\<close>) and the calls of the machine
  (\<open>core/vm/evm.go\<close>), with \<open>crypto.CreateAddress\<close>.

  The loop runs on fuel, one unit for each instruction, and the nesting of calls on a second one,
  a unit for each level: \<open>calls_at n d\<close> are the five calls of the machine with \<open>n\<close> instructions for
  every frame and \<open>d\<close> levels of nesting. Running out of either is \<open>NoFuel\<close>, a value of its own.
\<close>

section \<open>One instruction\<close>

definition enforceRestrictions :: "byte \<Rightarrow> operation \<Rightarrow> frame \<Rightarrow> vm_error option go" where
  "enforceRestrictions opc oper f =
     (if RulesIsByzantium (ev_chainRules (fr_evm f)) \<and> ev_readOnly (fr_evm f) then
        if op_writes oper then Ret (Some errWriteProtection)
        else if opc = 0xf1 then
          go_bind (go_index (fr_stack f) 2) (\<lambda>v. Ret (if BitLen v > 0 then Some errWriteProtection else None))
        else Ret None
      else Ret None)"

text \<open>The memory size an operation asks for, rounded up to words.\<close>

definition requiredMemory :: "operation \<Rightarrow> u64 vm" where
  "requiredMemory oper =
     (case op_memorySize oper of
        None \<Rightarrow> vm_ret 0
      | Some ms \<Rightarrow> vm_bind ms (\<lambda>m. vm_bind (gasUint64 m) (\<lambda>memSize. gasMul (toWordSize memSize) 32)))"

definition chargeGas :: "operation \<Rightarrow> u64 \<Rightarrow> unit vm" where
  "chargeGas oper memorySize f =
     (if cfg_DisableGasMetering (ev_vmConfig (fr_evm f)) then Ret (Inr (), f)
      else go_bind (op_gasCost oper memorySize f) (\<lambda>(r, f).
        case r of
          Inl e \<Rightarrow> Ret (Inl ErrOutOfGas, f)
        | Inr cost \<Rightarrow> let (ok, c) = UseGas cost (fr_contract f) in
            Ret (if ok then Inr () else Inl ErrOutOfGas, f\<lparr>fr_contract := c\<rparr>)))"

definition growMemory :: "u64 \<Rightarrow> unit vm" where
  "growMemory memorySize =
     vm_modify (\<lambda>f. if memorySize > 0 then f\<lparr>fr_mem := Memory_Resize memorySize (fr_mem f)\<rparr> else f)"

text \<open>
  A step either ends the execution with the result data and error of \<open>Run\<close>, or continues
  (\<open>None\<close>).
\<close>

type_synonym run_result = "bytes \<times> vm_error option"

definition executeOp :: "calls \<Rightarrow> operation \<Rightarrow> frame \<Rightarrow> (run_result option \<times> frame) go" where
  "executeOp cl oper f =
     go_bind (op_execute oper cl f) (\<lambda>(r, f).
       let res = (case r of Inl e \<Rightarrow> [] | Inr d \<Rightarrow> d);
           f = (if op_returns oper then f\<lparr>fr_evm := (fr_evm f)\<lparr>ev_returnData := res\<rparr>\<rparr> else f)
       in case r of
            Inl e \<Rightarrow> Ret (Some ([], Some e), f)
          | Inr _ \<Rightarrow>
              if op_reverts oper then Ret (Some (res, Some errExecutionReverted), f)
              else if op_halts oper then Ret (Some (res, None), f)
              else if \<not> op_jumps oper then Ret (None, f\<lparr>fr_pc := fr_pc f + 1\<rparr>)
              else Ret (None, f))"

definition Run_step :: "calls \<Rightarrow> frame \<Rightarrow> (run_result option \<times> frame) go" where
  "Run_step cl f =
     (let opc = GetOp (fr_contract f) (fr_pc f) in
      case JumpTable (ev_JumpTable (fr_evm f)) opc of
        None \<Rightarrow> Ret (Some ([], Some (errInvalidOpcode opc)), f)
      | Some oper \<Rightarrow>
          (case op_validateStack oper (fr_stack f) of
             Some e \<Rightarrow> Ret (Some ([], Some e), f)
           | None \<Rightarrow> go_bind (enforceRestrictions opc oper f) (\<lambda>restricted.
               case restricted of
                 Some e \<Rightarrow> Ret (Some ([], Some e), f)
               | None \<Rightarrow>
                   go_bind (vm_bind (requiredMemory oper) (\<lambda>memorySize.
                     vm_bind (chargeGas oper memorySize) (\<lambda>_. growMemory memorySize)) f) (\<lambda>(r, f).
                     case r of
                       Inl e \<Rightarrow> Ret (Some ([], Some e), f)
                     | Inr _ \<Rightarrow> executeOp cl oper f))))"

section \<open>The loop\<close>

primrec Run_loop :: "calls \<Rightarrow> nat \<Rightarrow> frame \<Rightarrow> (run_result \<times> frame) go" where
  "Run_loop cl 0 f = NoFuel"
| "Run_loop cl (Suc n) f =
     (if ev_abort (fr_evm f) then Ret (([], None), f)
      else go_bind (Run_step cl f) (\<lambda>(r, f).
        case r of Some res \<Rightarrow> Ret (res, f) | None \<Rightarrow> Run_loop cl n f))"

definition newframe :: "Contract \<Rightarrow> EVM \<Rightarrow> frame" where
  "newframe contract evm = \<lparr>fr_pc = 0, fr_evm = evm, fr_contract = contract, fr_mem = NewMemory, fr_stack = []\<rparr>"

definition Interpreter_Run :: "calls \<Rightarrow> nat \<Rightarrow> Contract \<Rightarrow> bytes \<Rightarrow> EVM \<Rightarrow> (run_result \<times> Contract \<times> EVM) go" where
  "Interpreter_Run cl n contract input evm =
     (let evm = evm\<lparr>ev_depth := ev_depth evm + 1, ev_returnData := []\<rparr> in
      if ct_Code contract = [] then Ret (([], None), contract, evm\<lparr>ev_depth := ev_depth evm - 1\<rparr>)
      else go_bind (Run_loop cl n (newframe (contract\<lparr>ct_Input := input\<rparr>) evm)) (\<lambda>(r, f).
        Ret (r, fr_contract f, (fr_evm f)\<lparr>ev_depth := ev_depth (fr_evm f) - 1\<rparr>)))"

section \<open>Calls\<close>

definition precompiles :: "EVM \<Rightarrow> address \<Rightarrow> PrecompiledContract option" where
  "precompiles evm =
     (if IsByzantium (ev_chainConfig evm) (ev_number evm) then PrecompiledContractsByzantium (ev_db evm) (ev_crypto evm)
      else PrecompiledContractsHomestead (ev_db evm) (ev_crypto evm))"

definition evm_run :: "calls \<Rightarrow> nat \<Rightarrow> Contract \<Rightarrow> bytes \<Rightarrow> EVM \<Rightarrow> (run_result \<times> Contract \<times> EVM) go" where
  "evm_run cl n contract input evm =
     (case ct_CodeAddr contract of
        None \<Rightarrow> Interpreter_Run cl n contract input evm
      | Some addr \<Rightarrow>
          (case precompiles evm addr of
             None \<Rightarrow> Interpreter_Run cl n contract input evm
           | Some p \<Rightarrow> go_bind (RunPrecompiledContract p input contract) (\<lambda>(r, c). Ret (r, c, evm))))"

text \<open>\<open>SetCallCode(&addr, GetCodeHash(addr), GetCode(addr))\<close>.\<close>

definition loadCode :: "address \<Rightarrow> Contract \<Rightarrow> EVM \<Rightarrow> Contract \<times> EVM" where
  "loadCode addr c evm =
     (let (h, evm) = on_state (\<lambda>be. GetCodeHash be addr) evm;
          (code, evm) = on_state (\<lambda>be. GetCode be addr) evm
      in (SetCallCode addr h (case code of None \<Rightarrow> [] | Some b \<Rightarrow> b) c, evm))"

text \<open>The tail of a call: revert on an error, and keep the gas only when the code asked for it.\<close>

definition afterRun :: "nat \<Rightarrow> run_result \<times> Contract \<times> EVM \<Rightarrow> call_result" where
  "afterRun snapshot = (\<lambda>((ret, err), c, evm).
     case err of
       None \<Rightarrow> Ret ((ret, ct_Gas c, None), evm)
     | Some e \<Rightarrow>
         go_bind (RevertToSnapshot (ev_db evm) snapshot (ev_StateDB evm)) (\<lambda>s.
           Ret ((ret, if e \<noteq> errExecutionReverted then ct_Gas (snd (UseGas (ct_Gas c) c)) else ct_Gas c, Some e),
                evm\<lparr>ev_StateDB := s\<rparr>)))"

definition EVM_Call ::
  "calls \<Rightarrow> nat \<Rightarrow> ContractRef \<Rightarrow> address \<Rightarrow> bytes \<Rightarrow> u64 \<Rightarrow> int \<Rightarrow> EVM \<Rightarrow> call_result" where
  "EVM_Call cl n caller addr input gas value evm =
     (if cfg_NoRecursion (ev_vmConfig evm) \<and> ev_depth evm > 0 then Ret (([], gas, None), evm)
      else if ev_depth evm > CallCreateDepth then Ret (([], gas, Some ErrDepth), evm)
      else
        let (enough, evm) = on_state (\<lambda>be. CanTransfer be (ref_Address caller) value) evm in
        if \<not> enough then Ret (([], gas, Some ErrInsufficientBalance), evm)
        else
          let (snapshot, evm) = on_state (\<lambda>be. Snapshot) evm;
              (exist, evm) = on_state (\<lambda>be. state_Exist be addr) evm
          in if \<not> exist \<and> Option.is_none (precompiles evm addr) \<and> IsEIP158 (ev_chainConfig evm) (ev_number evm) \<and> value = 0
             then Ret (([], gas, None), evm)
             else
               let evm = (if \<not> exist then upd_state (\<lambda>be. CreateAccount be addr) evm else evm);
                   evm = upd_state (\<lambda>be. Transfer be (ref_Address caller) addr value) evm;
                   (contract, evm) = loadCode addr (NewContract caller addr value gas) evm
               in go_bind (evm_run cl n contract input evm) (afterRun snapshot))"

definition EVM_CallCode ::
  "calls \<Rightarrow> nat \<Rightarrow> ContractRef \<Rightarrow> address \<Rightarrow> bytes \<Rightarrow> u64 \<Rightarrow> int \<Rightarrow> EVM \<Rightarrow> call_result" where
  "EVM_CallCode cl n caller addr input gas value evm =
     (if cfg_NoRecursion (ev_vmConfig evm) \<and> ev_depth evm > 0 then Ret (([], gas, None), evm)
      else if ev_depth evm > CallCreateDepth then Ret (([], gas, Some ErrDepth), evm)
      else
        let (enough, evm) = on_state (\<lambda>be. CanTransfer be (ref_Address caller) value) evm in
        if \<not> enough then Ret (([], gas, Some ErrInsufficientBalance), evm)
        else
          let (snapshot, evm) = on_state (\<lambda>be. Snapshot) evm;
              (contract, evm) = loadCode addr (NewContract caller (ref_Address caller) value gas) evm
          in go_bind (evm_run cl n contract input evm) (afterRun snapshot))"

text \<open>
  \<open>DelegateCall\<close> passes no value to \<open>NewContract\<close>; \<open>AsDelegate\<close> sets the value of the parent.
\<close>

definition EVM_DelegateCall ::
  "calls \<Rightarrow> nat \<Rightarrow> ContractRef \<Rightarrow> address \<Rightarrow> bytes \<Rightarrow> u64 \<Rightarrow> EVM \<Rightarrow> call_result" where
  "EVM_DelegateCall cl n caller addr input gas evm =
     (if cfg_NoRecursion (ev_vmConfig evm) \<and> ev_depth evm > 0 then Ret (([], gas, None), evm)
      else if ev_depth evm > CallCreateDepth then Ret (([], gas, Some ErrDepth), evm)
      else
        let (snapshot, evm) = on_state (\<lambda>be. Snapshot) evm in
        go_bind (AsDelegate caller (NewContract caller (ref_Address caller) 0 gas)) (\<lambda>c.
          let (contract, evm) = loadCode addr c evm
          in go_bind (evm_run cl n contract input evm) (afterRun snapshot)))"

definition EVM_StaticCall ::
  "calls \<Rightarrow> nat \<Rightarrow> ContractRef \<Rightarrow> address \<Rightarrow> bytes \<Rightarrow> u64 \<Rightarrow> EVM \<Rightarrow> call_result" where
  "EVM_StaticCall cl n caller addr input gas evm =
     (if cfg_NoRecursion (ev_vmConfig evm) \<and> ev_depth evm > 0 then Ret (([], gas, None), evm)
      else if ev_depth evm > CallCreateDepth then Ret (([], gas, Some ErrDepth), evm)
      else
        let readOnly = ev_readOnly evm;
            (snapshot, evm) = on_state (\<lambda>be. Snapshot) (evm\<lparr>ev_readOnly := True\<rparr>);
            (contract, evm) = loadCode addr (NewContract caller addr 0 gas) evm
        in go_bind (go_bind (evm_run cl n contract input evm) (afterRun snapshot)) (\<lambda>(r, evm).
             Ret (r, if \<not> readOnly then evm\<lparr>ev_readOnly := False\<rparr> else evm)))"

definition CreateAddress :: "Backend \<Rightarrow> address \<Rightarrow> u64 \<Rightarrow> address go" where
  "CreateAddress be b nonce =
     go_bind (EncodeToBytes (VSlice False [VBytes (Address_Bytes b), VUint nonce])) (\<lambda>r.
       let d = (case r of Inl e \<Rightarrow> [] | Inr d \<Rightarrow> d)
       in Ret (BytesToAddress (drop 12 (Hash_Bytes (be_keccak be d)))))"

text \<open>The deployment of the code a constructor returned, and what follows a failure.\<close>

definition storeCode :: "nat \<Rightarrow> address \<Rightarrow> run_result \<times> Contract \<times> EVM \<Rightarrow> ((bytes \<times> address \<times> u64 \<times> vm_error option) \<times> EVM) go" where
  "storeCode snapshot contractAddr = (\<lambda>((ret, err), c, evm).
     let maxCodeSizeExceeded = (IsEIP158 (ev_chainConfig evm) (ev_number evm) \<and> length ret > MaxCodeSize);
         (err, c, evm) =
           (if err = None \<and> \<not> maxCodeSizeExceeded then
              let (ok, c) = UseGas (of_nat (length ret) * CreateDataGas) c in
              if ok then (err, c, upd_state (\<lambda>be. SetCode be contractAddr ret) evm)
              else (Some ErrCodeStoreOutOfGas, c, evm)
            else (err, c, evm))
     in go_bind
          (if maxCodeSizeExceeded \<or> err \<noteq> None \<and> (IsHomestead (ev_chainConfig evm) (ev_number evm) \<or> err \<noteq> Some ErrCodeStoreOutOfGas)
           then go_bind (RevertToSnapshot (ev_db evm) snapshot (ev_StateDB evm)) (\<lambda>s.
             Ret (if err \<noteq> Some errExecutionReverted then snd (UseGas (ct_Gas c) c) else c, evm\<lparr>ev_StateDB := s\<rparr>))
           else Ret (c, evm)) (\<lambda>(c, evm).
        let err = (if maxCodeSizeExceeded \<and> err = None then Some errMaxCodeSizeExceeded else err)
        in Ret ((ret, contractAddr, ct_Gas c, err), evm)))"

definition EVM_Create ::
  "calls \<Rightarrow> nat \<Rightarrow> ContractRef \<Rightarrow> bytes \<Rightarrow> u64 \<Rightarrow> int \<Rightarrow> EVM \<Rightarrow> ((bytes \<times> address \<times> u64 \<times> vm_error option) \<times> EVM) go" where
  "EVM_Create cl n caller code gas value evm =
     (if ev_depth evm > CallCreateDepth then Ret (([], 0, gas, Some ErrDepth), evm)
      else
        let (enough, evm) = on_state (\<lambda>be. CanTransfer be (ref_Address caller) value) evm in
        if \<not> enough then Ret (([], 0, gas, Some ErrInsufficientBalance), evm)
        else
          let (nonce, evm) = on_state (\<lambda>be. GetNonce be (ref_Address caller)) evm;
              evm = upd_state (\<lambda>be. SetNonce be (ref_Address caller) (nonce + 1)) evm
          in go_bind (CreateAddress (ev_db evm) (ref_Address caller) nonce) (\<lambda>contractAddr.
             let (contractHash, evm) = on_state (\<lambda>be. GetCodeHash be contractAddr) evm;
                 (used, evm) = on_state (\<lambda>be. GetNonce be contractAddr) evm
             in if used \<noteq> 0 \<or> contractHash \<noteq> 0 \<and> contractHash \<noteq> emptyCodeHash (ev_db evm)
                then Ret (([], 0, 0, Some ErrContractAddressCollision), evm)
                else
                  let (snapshot, evm) = on_state (\<lambda>be. Snapshot) evm;
                      evm = upd_state (\<lambda>be. CreateAccount be contractAddr) evm;
                      evm = (if IsEIP158 (ev_chainConfig evm) (ev_number evm)
                             then upd_state (\<lambda>be. SetNonce be contractAddr 1) evm else evm);
                      evm = upd_state (\<lambda>be. Transfer be (ref_Address caller) contractAddr value) evm;
                      contract = SetCallCode contractAddr (be_keccak (ev_db evm) code) code
                                   (NewContract caller contractAddr value gas)
                  in if cfg_NoRecursion (ev_vmConfig evm) \<and> ev_depth evm > 0
                     then Ret (([], contractAddr, gas, None), evm)
                     else go_bind (evm_run cl n contract [] evm) (storeCode snapshot contractAddr)))"

primrec calls_at :: "nat \<Rightarrow> nat \<Rightarrow> calls" where
  "calls_at n 0 =
     \<lparr>cl_Call = (\<lambda>_ _ _ _ _ _. NoFuel), cl_CallCode = (\<lambda>_ _ _ _ _ _. NoFuel), cl_DelegateCall = (\<lambda>_ _ _ _ _. NoFuel),
      cl_StaticCall = (\<lambda>_ _ _ _ _. NoFuel), cl_Create = (\<lambda>_ _ _ _ _. NoFuel)\<rparr>"
| "calls_at n (Suc d) =
     \<lparr>cl_Call = EVM_Call (calls_at n d) n, cl_CallCode = EVM_CallCode (calls_at n d) n,
      cl_DelegateCall = EVM_DelegateCall (calls_at n d) n, cl_StaticCall = EVM_StaticCall (calls_at n d) n,
      cl_Create = EVM_Create (calls_at n d) n\<rparr>"

end
