(* ===== verification/VM_State.thy ===== *)
theory VM_State
  imports VM_Machine
begin

text \<open>
  What the virtual machine keeps of the state. \<open>vm_state_ok\<close> adds to the invariant of the state
  database that no balance is negative and no code is longer than a Go slice can be.
  \<open>evolves be ro s s'\<close> says how a state may develop: \<open>s'\<close> can be reverted to the snapshots of \<open>s\<close>,
  is well-formed, and, when the machine is read-only (\<open>ro\<close>), shows the same accounts, logs and
  refund as \<open>s\<close>; an account that does not exist counts as an empty one.
\<close>

definition views_ok :: "(address \<Rightarrow> acct_view option) \<Rightarrow> bool" where
  "views_ok vs \<longleftrightarrow>
     (\<forall>a v. vs a = Some v \<longrightarrow> 0 \<le> av_balance v \<and> (\<forall>c. av_code v = Some c \<longrightarrow> length c < 2 ^ 62))"

definition vm_state_ok :: "Backend \<Rightarrow> StateDB \<Rightarrow> bool" where
  "vm_state_ok be s \<longleftrightarrow> state_ok be s \<and> views_ok (view be s)"

definition quiet :: "Backend \<Rightarrow> StateDB \<Rightarrow> StateDB \<Rightarrow> bool" where
  "quiet be s s' \<longleftrightarrow>
     (\<forall>a. view_or_fresh be s' a = view_or_fresh be s a) \<and> sd_logs s' = sd_logs s \<and> sd_refund s' = sd_refund s"

definition evolves :: "Backend \<Rightarrow> bool \<Rightarrow> StateDB \<Rightarrow> StateDB \<Rightarrow> bool" where
  "evolves be ro s s' \<longleftrightarrow> since be s s' \<and> views_ok (view be s') \<and> (ro \<longrightarrow> quiet be s s')"

lemma quiet_refl [simp]: "quiet be s s"
  by (simp add: quiet_def)

lemma quiet_trans: "quiet be s t \<Longrightarrow> quiet be t u \<Longrightarrow> quiet be s u"
  by (simp add: quiet_def)

lemma sim_quiet: "sim be s' s \<Longrightarrow> quiet be s s'"
  by (simp add: sim_def quiet_def view_or_fresh_def)

lemma evolves_refl: "vm_state_ok be s \<Longrightarrow> evolves be ro s s"
  by (simp add: evolves_def vm_state_ok_def since_refl)

lemma evolves_trans: "evolves be ro s t \<Longrightarrow> evolves be ro t u \<Longrightarrow> evolves be ro s u"
  by (auto simp: evolves_def intro: since_trans quiet_trans)

lemma evolves_ok: "evolves be ro s s' \<Longrightarrow> vm_state_ok be s'"
  using since_ok by (auto simp: evolves_def vm_state_ok_def)

lemma evolves_weaken: "evolves be ro s s' \<Longrightarrow> (ro' \<longrightarrow> ro) \<Longrightarrow> evolves be ro' s s'"
  by (auto simp: evolves_def)

lemma vm_state_objs_ok: "vm_state_ok be s \<Longrightarrow> objs_ok be s"
  by (simp add: vm_state_ok_def state_ok_def)

lemma evolves_undoes:
  assumes "vm_state_ok be s" "undoes be s s'" "views_ok (view be s')" "ro \<longrightarrow> quiet be s s'"
  shows "evolves be ro s s'"
  using assms by (simp add: evolves_def vm_state_ok_def undoes_since)

lemma evolves_sim:
  assumes "vm_state_ok be s" "undoes be s s'" "sim be s' s"
  shows "evolves be ro s s'"
  using assms by (intro evolves_undoes) (auto simp: sim_quiet vm_state_ok_def sim_def)

lemma evolves_query: "vm_state_ok be s \<Longrightarrow> query_ok be s r q \<Longrightarrow> evolves be ro s (snd q) \<and> fst q = r"
  by (simp add: query_ok_def evolves_sim)

section \<open>Queries\<close>

lemma GetBalance_evolves:
  assumes "vm_state_ok be s" "GetBalance be a s = (r, s')"
  shows "evolves be ro s s'" "r = (case view be s a of None \<Rightarrow> 0 | Some v \<Rightarrow> av_balance v)" "0 \<le> r" "sim be s' s"
proof -
  note q = query_ok_GetBalance [OF vm_state_objs_ok [OF assms(1)], of a]
  show "evolves be ro s s'" "r = (case view be s a of None \<Rightarrow> 0 | Some v \<Rightarrow> av_balance v)" "sim be s' s"
    using evolves_query [OF assms(1) q] q assms(2) by (simp_all add: query_ok_def)
  then show "0 \<le> r"
    using assms(1) by (auto simp: vm_state_ok_def views_ok_def split: option.split)
qed

lemma GetNonce_evolves:
  assumes "vm_state_ok be s" "GetNonce be a s = (r, s')"
  shows "evolves be ro s s'" "sim be s' s"
  using evolves_query [OF assms(1) query_ok_GetNonce [OF vm_state_objs_ok [OF assms(1)], of a]]
    query_ok_GetNonce [OF vm_state_objs_ok [OF assms(1)], of a] assms(2) by (simp_all add: query_ok_def)

lemma GetCodeHash_evolves:
  assumes "vm_state_ok be s" "GetCodeHash be a s = (r, s')"
  shows "evolves be ro s s'" "sim be s' s"
  using evolves_query [OF assms(1) query_ok_GetCodeHash [OF vm_state_objs_ok [OF assms(1)], of a]]
    query_ok_GetCodeHash [OF vm_state_objs_ok [OF assms(1)], of a] assms(2) by (simp_all add: query_ok_def)

lemma GetCode_evolves:
  assumes "vm_state_ok be s" "GetCode be a s = (r, s')"
  shows "evolves be ro s s'" "r = Some c \<Longrightarrow> length c < 2 ^ 62" "sim be s' s"
proof -
  note q = query_ok_GetCode [OF vm_state_objs_ok [OF assms(1)], of a]
  have r: "r = (case view be s a of None \<Rightarrow> None | Some v \<Rightarrow> av_code v)"
    using q assms(2) by (simp add: query_ok_def)
  show "evolves be ro s s'" "sim be s' s"
    using evolves_query [OF assms(1) q] q assms(2) by (simp_all add: query_ok_def)
  show "r = Some c \<Longrightarrow> length c < 2 ^ 62"
    using r assms(1) by (auto simp: vm_state_ok_def views_ok_def split: option.splits)
qed

lemma GetState_evolves:
  assumes "vm_state_ok be s" "GetState be a k s = (r, s')"
  shows "evolves be ro s s'"
  using evolves_query [OF assms(1) query_ok_GetState [OF vm_state_objs_ok [OF assms(1)], where a = a and k = k]] assms(2) by simp

lemma HasSuicided_evolves:
  assumes "vm_state_ok be s" "HasSuicided be a s = (r, s')"
  shows "evolves be ro s s'"
  using evolves_query [OF assms(1) query_ok_HasSuicided [OF vm_state_objs_ok [OF assms(1)], of a]] assms(2) by simp

lemma Exist_evolves:
  assumes "vm_state_ok be s" "state_Exist be a s = (r, s')"
  shows "evolves be ro s s'" "sim be s' s" "r \<longleftrightarrow> view be s a \<noteq> None"
  using evolves_query [OF assms(1) query_ok_Exist [OF vm_state_objs_ok [OF assms(1)], of a]]
    query_ok_Exist [OF vm_state_objs_ok [OF assms(1)], of a] assms(2) by (simp_all add: query_ok_def)

lemma Empty_evolves:
  assumes "vm_state_ok be s" "state_Empty be a s = (r, s')"
  shows "evolves be ro s s'"
  using evolves_query [OF assms(1) query_ok_Empty [OF vm_state_objs_ok [OF assms(1)], of a]] assms(2) by simp

lemma GetCodeSize_evolves:
  assumes "vm_state_ok be s" "GetCodeSize be a s = (r, s')"
  shows "evolves be ro s s'"
  using evolves_sim [OF assms(1)] GetCodeSize_undoes [OF vm_state_objs_ok [OF assms(1)], of a] assms(2) by simp

lemma CanTransfer_evolves:
  assumes "vm_state_ok be s" "CanTransfer be a x s = (r, s')"
  shows "evolves be ro s s'" "sim be s' s" "r \<Longrightarrow> x \<le> av_balance (view_or_fresh be s a) \<or> x \<le> 0"
  using assms GetBalance_evolves [OF assms(1), of a]
  by (auto simp: CanTransfer_def view_or_fresh_def split: prod.splits option.splits)

section \<open>Updates\<close>

lemma fresh_view_simps [simp]:
  "av_balance (fresh_view be a) = 0" "av_code (fresh_view be a) = None"
  by (simp_all add: fresh_view_def so_view_def newObject_def emptyAccount_def code_of_def)

lemma views_ok_or_fresh:
  assumes "views_ok (view be s)"
  shows "0 \<le> av_balance (view_or_fresh be s a)" "av_code (view_or_fresh be s a) = Some c \<Longrightarrow> length c < 2 ^ 62"
  using assms by (auto simp: views_ok_def view_or_fresh_def split: option.splits)

lemma views_ok_upd:
  assumes "views_ok (view be s)" "0 \<le> av_balance v" "\<And>c. av_code v = Some c \<Longrightarrow> length c < 2 ^ 62"
  shows "views_ok ((view be s)(a \<mapsto> v))"
  using assms by (auto simp: views_ok_def)

text \<open>An update of one account.\<close>

lemma evolves_account:
  assumes "vm_state_ok be s" "undoes be s s'" "view be s' = (view be s)(a \<mapsto> v)"
    "0 \<le> av_balance v" "\<And>c. av_code v = Some c \<Longrightarrow> length c < 2 ^ 62"
    "ro \<longrightarrow> v = view_or_fresh be s a \<and> sd_logs s' = sd_logs s \<and> sd_refund s' = sd_refund s"
  shows "evolves be ro s s'"
proof (rule evolves_undoes [OF assms(1,2)])
  show "views_ok (view be s')"
    using assms(1,3-5) by (simp add: vm_state_ok_def views_ok_upd)
  show "ro \<longrightarrow> quiet be s s'"
    using assms(3,6) by (auto simp: quiet_def view_or_fresh_def split: option.split)
qed

lemma same_rest_fire [simp]: "same_rest s (fireDirty so (journal_append e s))"
  by (rule same_rest_trans [of _ "journal_append e s"]) simp_all

lemma same_rest_objects:
  "same_rest s (snd (getStateObject be a s))" "same_rest s (snd (snd (createObject be a s)))"
  "same_rest s (snd (GetOrNewStateObject be a s))"
proof -
  show get: "same_rest s (snd (getStateObject be a s))" for s
    by (simp add: same_rest_def getStateObject_def setStateObject_def sd_setError_def Let_def split: option.split lookup.split)
  show create: "same_rest s (snd (snd (createObject be a s)))" for s
    using get [of s] by (auto simp: createObject_eq Let_def split: prod.splits intro: same_rest_trans [OF _ same_rest_fire])
  show "same_rest s (snd (GetOrNewStateObject be a s))"
    using get [of s] create [of "snd (getStateObject be a s)"]
    by (auto simp: GetOrNewStateObject_def Let_def split: prod.splits option.splits intro: same_rest_trans)
qed

lemma same_rest_GetOrNew:
  assumes "\<And>so t. same_rest t (g so t)"
  shows "same_rest s (case GetOrNewStateObject be a s of (so, s) \<Rightarrow> g so s)"
  using assms same_rest_objects(3) [of s be a] by (auto split: prod.split intro: same_rest_trans)

lemma same_rest_accounts:
  "same_rest s (AddBalance be a x s)" "same_rest s (SubBalance be a x s)" "same_rest s (CreateAccount be a s)"
proof -
  show "same_rest s (AddBalance be a x s)" "same_rest s (SubBalance be a x s)"
    unfolding AddBalance_def SubBalance_def Let_def
    by (rule same_rest_GetOrNew, simp add: so_AddBalance_def so_SubBalance_def so_touch_def so_SetBalance_def so_setBalance_def)+
  obtain n p t where c: "createObject be a s = (n, p, t)"
    by (metis prod_cases3)
  then have "same_rest s t"
    using same_rest_objects(2) [of s be a] by simp
  then show "same_rest s (CreateAccount be a s)"
    using same_rest_trans [OF _ same_rest_steps(2)] c
    by (cases p) (simp_all add: CreateAccount_def so_setBalance_def)
qed

lemma same_restD: "same_rest s s' \<Longrightarrow> sd_logs s' = sd_logs s \<and> sd_refund s' = sd_refund s"
  by (simp add: same_rest_def)

text \<open>An update of one account that keeps its code.\<close>

lemma evolves_keep_code:
  assumes "vm_state_ok be s" "undoes be s s'" "view be s' = (view be s)(a \<mapsto> v)"
    "0 \<le> av_balance v" "av_code v = av_code (view_or_fresh be s a)"
    "ro \<longrightarrow> v = view_or_fresh be s a \<and> same_rest s s'"
  shows "evolves be ro s s'"
proof (rule evolves_account [OF assms(1-4)])
  show "av_code v = Some c \<Longrightarrow> length c < 2 ^ 62" for c
    using assms(1,5) views_ok_or_fresh(2) [of be s a c] by (simp add: vm_state_ok_def)
  show "ro \<longrightarrow> v = view_or_fresh be s a \<and> sd_logs s' = sd_logs s \<and> sd_refund s' = sd_refund s"
    using assms(6) same_restD by blast
qed

lemma balance_nonneg: "vm_state_ok be s \<Longrightarrow> 0 \<le> av_balance (view_or_fresh be s a)"
  by (simp add: vm_state_ok_def views_ok_or_fresh)

lemma AddBalance_evolves:
  assumes "vm_state_ok be s" "0 \<le> x" "ro \<longrightarrow> x = 0"
  shows "evolves be ro s (AddBalance be a x s)"
  using evolves_keep_code [OF assms(1) AddBalance_ok [OF vm_state_objs_ok [OF assms(1)]]] balance_nonneg [OF assms(1), of a] assms
  by (simp add: same_rest_accounts)

lemma SubBalance_evolves:
  assumes "vm_state_ok be s" "x \<le> av_balance (view_or_fresh be s a)" "ro \<longrightarrow> x = 0"
  shows "evolves be ro s (SubBalance be a x s)"
  using evolves_keep_code [OF assms(1) SubBalance_ok [OF vm_state_objs_ok [OF assms(1)]]] assms by (simp add: same_rest_accounts)

lemma SetNonce_evolves:
  assumes "vm_state_ok be s"
  shows "evolves be False s (SetNonce be a n s)"
  by (rule evolves_keep_code [OF assms SetNonce_ok [OF vm_state_objs_ok [OF assms]]])
    (simp_all add: balance_nonneg [OF assms])

lemma SetState_evolves:
  assumes "vm_state_ok be s"
  shows "evolves be False s (SetState be a k x s)"
  by (rule evolves_keep_code [OF assms SetState_ok [OF vm_state_objs_ok [OF assms]]])
    (simp_all add: balance_nonneg [OF assms])

lemma SetCode_evolves:
  assumes "vm_state_ok be s" "length c < 2 ^ 62"
  shows "evolves be False s (SetCode be a c s)"
  by (rule evolves_account [OF assms(1) SetCode_ok [OF vm_state_objs_ok [OF assms(1)]]])
    (use assms(2) balance_nonneg [OF assms(1)] in simp_all)

lemma CreateAccount_evolves:
  assumes "vm_state_ok be s" "ro \<longrightarrow> view be s a = None"
  shows "evolves be ro s (CreateAccount be a s)"
proof (rule evolves_account [OF assms(1) CreateAccount_ok [OF vm_state_objs_ok [OF assms(1)]]])
  show "ro \<longrightarrow> (fresh_view be a)\<lparr>av_balance := av_balance (view_or_fresh be s a)\<rparr> = view_or_fresh be s a \<and>
      sd_logs (CreateAccount be a s) = sd_logs s \<and> sd_refund (CreateAccount be a s) = sd_refund s"
  proof
    assume ro
    moreover have "(fresh_view be a)\<lparr>av_balance := 0\<rparr> = fresh_view be a"
      by (metis acct_view.surjective acct_view.update_convs(2) fresh_view_simps(1))
    ultimately show "(fresh_view be a)\<lparr>av_balance := av_balance (view_or_fresh be s a)\<rparr> = view_or_fresh be s a \<and>
        sd_logs (CreateAccount be a s) = sd_logs s \<and> sd_refund (CreateAccount be a s) = sd_refund s"
      using assms(2) same_restD [OF same_rest_accounts(3), of be a s] by (simp add: view_or_fresh_def)
  qed
qed (use balance_nonneg [OF assms(1)] in simp_all)

lemma Suicide_evolves:
  assumes "vm_state_ok be s"
  shows "evolves be False s (snd (State_DB.Suicide be a s))"
proof (rule evolves_undoes [OF assms Suicide_ok(1) [OF vm_state_objs_ok [OF assms]]])
  show "views_ok (view be (snd (State_DB.Suicide be a s)))"
    using assms by (auto simp: Suicide_ok(3) [OF vm_state_objs_ok [OF assms]] vm_state_ok_def views_ok_def split: if_splits)
qed simp

lemma AddRefund_evolves: "vm_state_ok be s \<Longrightarrow> evolves be False s (AddRefund g s)"
  by (rule evolves_undoes) (simp_all add: AddRefund_ok vm_state_objs_ok, simp add: vm_state_ok_def)

lemma AddLog_evolves: "vm_state_ok be s \<Longrightarrow> evolves be False s (AddLog l s)"
  by (rule evolves_undoes) (simp_all add: AddLog_ok vm_state_objs_ok, simp add: vm_state_ok_def)

lemma AddPreimage_evolves:
  assumes "vm_state_ok be s"
  shows "evolves be ro s (AddPreimage h d s)"
proof (rule evolves_undoes [OF assms AddPreimage_ok(1) [OF vm_state_objs_ok [OF assms]]])
  have view: "view be (AddPreimage h d s) = view be s"
    by (rule AddPreimage_ok(2) [OF vm_state_objs_ok [OF assms]])
  then show "views_ok (view be (AddPreimage h d s))"
    using assms by (simp add: vm_state_ok_def)
  show "ro \<longrightarrow> quiet be s (AddPreimage h d s)"
    using view by (simp add: quiet_def view_or_fresh_def AddPreimage_def Let_def)
qed

lemma Transfer_evolves:
  assumes "vm_state_ok be s" "0 \<le> x" "x \<le> av_balance (view_or_fresh be s a)" "ro \<longrightarrow> x = 0"
  shows "evolves be ro s (Transfer be a b x s)"
  unfolding Transfer_def
  using evolves_trans [OF SubBalance_evolves [OF assms(1,3,4)]] AddBalance_evolves [OF evolves_ok assms(2,4)]
    SubBalance_evolves [OF assms(1,3,4)] by blast

section \<open>Snapshots\<close>

lemma Snapshot_evolves:
  assumes "vm_state_ok be s" "Snapshot s = (i, s')"
  shows "evolves be ro s s'" "sim be s' s"
proof -
  show sim: "sim be s' s"
    using assms(2) by (auto simp: Snapshot_def sim_def intro: view_cong)
  show "evolves be ro s s'"
    using since_Snapshot [of be s] assms sim by (simp add: evolves_def vm_state_ok_def sim_quiet sim_def)
qed

lemma Revert_evolves:
  assumes "vm_state_ok be s" "Snapshot s = (i, s1)" "evolves be ro' s1 s2"
  shows "\<exists>t. RevertToSnapshot be i s2 = Ret t \<and> sim be t s \<and> evolves be ro s t"
proof -
  have "state_ok be s" "since be s1 s2"
    using assms by (simp_all add: vm_state_ok_def evolves_def)
  from statedb.revert_same [OF this(1) assms(2) this(2)]
  obtain t where t: "RevertToSnapshot be i s2 = Ret t" "sim be t s" "since be s t"
    by blast
  then show ?thesis
    using assms(1) by (auto simp: evolves_def vm_state_ok_def sim_quiet sim_def)
qed

end
