(* ===== verification/VM_Logic.thy ===== *)
theory VM_Logic
  imports VM_State VM_JumpTable
begin

text \<open>
  A logic for the steps of the machine. \<open>wp m Q E f\<close>: the step \<open>m\<close>, run in the frame \<open>f\<close>, neither
  panics nor runs out of fuel; it ends with a result and a frame that satisfy \<open>Q\<close>, or with an
  error that uses up the gas and a frame that satisfies \<open>E\<close>. The rules compute it over the operations of the machine.

  \<open>frame_ok\<close> is the invariant of a running frame, \<open>frame_rel\<close> what every step keeps: the machine
  but for the state, the gas of the next call and the return data, and the contract but for its
  gas. \<open>memory_ok\<close>, \<open>gas_ok\<close> and \<open>exec_ok\<close> are the contracts of the three parts of an operation.
\<close>

section \<open>Weakest preconditions\<close>

named_theorems wp_simps \<open>weakest preconditions of the operations of the machine\<close>

text \<open>The errors of instructions: neither the revert nor the failed deposit of code, which keep gas.\<close>

definition hard_error :: "vm_error \<Rightarrow> bool" where
  "hard_error e \<longleftrightarrow> e \<noteq> errExecutionReverted \<and> e \<noteq> ErrCodeStoreOutOfGas"

declare hard_error_def [simp]

definition wp :: "'a vm \<Rightarrow> ('a \<Rightarrow> frame \<Rightarrow> bool) \<Rightarrow> (frame \<Rightarrow> bool) \<Rightarrow> frame \<Rightarrow> bool" where
  "wp m Q E f =
     (case m f of
        Ret (r, f') \<Rightarrow> (case r of Inl e \<Rightarrow> hard_error e \<and> E f' | Inr x \<Rightarrow> Q x f')
      | Panic \<Rightarrow> False | NoFuel \<Rightarrow> False)"

lemma wp_ret [wp_simps]: "wp (vm_ret x) Q E f = Q x f"
  by (simp add: wp_def vm_ret_def)

lemma wp_err [wp_simps]: "wp (vm_err e) Q E f \<longleftrightarrow> hard_error e \<and> E f"
  by (simp add: wp_def vm_err_def)

lemma wp_bind [wp_simps]: "wp (vm_bind m k) Q E f = wp m (\<lambda>x. wp (k x) Q E) E f"
  by (cases "m f") (auto simp: wp_def vm_bind_def split: sum.split)

lemma wp_go [wp_simps]: "wp (vm_go m) Q E f = (case m of Ret x \<Rightarrow> Q x f | Panic \<Rightarrow> False | NoFuel \<Rightarrow> False)"
  by (cases m) (simp_all add: wp_def vm_go_def)

lemma wp_sum [wp_simps]: "wp (vm_sum r) Q E f = (case r of Inl e \<Rightarrow> hard_error e \<and> E f | Inr x \<Rightarrow> Q x f)"
  by (simp add: wp_def vm_sum_def)

lemma wp_gets [wp_simps]: "wp (vm_gets g) Q E f = Q (g f) f"
  by (simp add: wp_def vm_gets_def)

lemma wp_modify [wp_simps]: "wp (vm_modify g) Q E f = Q () (g f)"
  by (simp add: wp_def vm_modify_def)

lemma wp_query [wp_simps]:
  "wp (vm_query q) Q E f =
     (case q (ev_db (fr_evm f)) (ev_StateDB (fr_evm f)) of (r, s) \<Rightarrow> Q r (f\<lparr>fr_evm := (fr_evm f)\<lparr>ev_StateDB := s\<rparr>\<rparr>))"
  by (simp add: wp_def vm_query_def on_state_def split: prod.split)

lemma wp_update [wp_simps]:
  "wp (vm_update g) Q E f =
     Q () (f\<lparr>fr_evm := (fr_evm f)\<lparr>ev_StateDB := g (ev_db (fr_evm f)) (ev_StateDB (fr_evm f))\<rparr>\<rparr>)"
  by (simp add: wp_def vm_update_def upd_state_def)

lemma wp_pop [wp_simps]:
  "wp pop Q E f = (case fr_stack f of [] \<Rightarrow> False | x # st \<Rightarrow> Q x (f\<lparr>fr_stack := st\<rparr>))"
  by (simp add: wp_def pop_def split: list.split)

lemma wp_push [wp_simps]: "wp (push x) Q E f = Q () (f\<lparr>fr_stack := x # fr_stack f\<rparr>)"
  by (simp add: wp_def push_def)

lemma wp_peek [wp_simps]: "wp peek Q E f = (case fr_stack f of [] \<Rightarrow> False | x # st \<Rightarrow> Q x f)"
  by (simp add: wp_def peek_def split: list.split)

lemma wp_set_peek [wp_simps]:
  "wp (set_peek x) Q E f = (case fr_stack f of [] \<Rightarrow> False | y # st \<Rightarrow> Q () (f\<lparr>fr_stack := x # st\<rparr>))"
  by (simp add: wp_def set_peek_def split: list.split)

lemma wp_Back [wp_simps]:
  "wp (stack_Back n) Q E f = (n < length (fr_stack f) \<and> Q (fr_stack f ! n) f)"
  by (simp add: wp_def stack_Back_def go_index_def)

lemma wp_done [wp_simps]: "wp vm_done Q E f = Q [] f"
  by (simp add: vm_done_def wp_ret)

lemma wp_if [wp_simps]: "wp (if b then m else m') Q E f = (if b then wp m Q E f else wp m' Q E f)"
  by simp

lemma wp_case_prod [wp_simps]: "wp (case p of (x, y) \<Rightarrow> m x y) Q E f = (case p of (x, y) \<Rightarrow> wp (m x y) Q E f)"
  by (simp split: prod.split)

lemma wp_Let [wp_simps]: "wp (Let x m) Q E f = wp (m x) Q E f"
  by simp

lemma wp_AddGas [wp_simps]:
  "wp (vm_AddGas g) Q E f = Q () (f\<lparr>fr_contract := (fr_contract f)\<lparr>ct_Gas := ct_Gas (fr_contract f) + g\<rparr>\<rparr>)"
  by (simp add: wp_def vm_AddGas_def)

lemma wp_UseGas [wp_simps]:
  "wp (vm_UseGas g) Q E f = (case UseGas g (fr_contract f) of (ok, c) \<Rightarrow> Q ok (f\<lparr>fr_contract := c\<rparr>))"
  by (simp add: wp_def vm_UseGas_def split: prod.split)

lemma wp_conseq:
  assumes "wp m Q E f" "\<And>x f'. Q x f' \<Longrightarrow> Q' x f'" "\<And>f'. E f' \<Longrightarrow> E' f'"
  shows "wp m Q' E' f"
  using assms by (auto simp: wp_def split: go.splits sum.splits)

section \<open>Invariants of frames\<close>

definition crypto_ok :: "Crypto \<Rightarrow> bool" where
  "crypto_ok cr \<longleftrightarrow>
     (\<forall>b. length (cr_sha256 cr b) = 32) \<and> (\<forall>b. length (cr_ripemd160 cr b) = 20) \<and>
     (\<forall>p q. length (cr_G1_Add cr p q) = 64) \<and> (\<forall>p k. length (cr_G1_ScalarMult cr p k) = 64)"

definition evm_ok :: "EVM \<Rightarrow> bool" where
  "evm_ok evm \<longleftrightarrow>
     vm_state_ok (ev_db evm) (ev_StateDB evm) \<and> \<not> cfg_DisableGasMetering (ev_vmConfig evm) \<and>
     ev_gasTable evm \<in> {GasTableHomestead, GasTableHF1} \<and> 0 \<le> ctx_GasPrice (ev_ctx evm) \<and> crypto_ok (ev_crypto evm)"

definition read_only :: "EVM \<Rightarrow> bool" where
  "read_only evm \<longleftrightarrow> RulesIsByzantium (ev_chainRules evm) \<and> ev_readOnly evm"

text \<open>What a step leaves alone of the machine and of the contract.\<close>

definition evm_core :: "EVM \<Rightarrow> EVM" where
  "evm_core evm = evm\<lparr>ev_StateDB := state_New (\<lambda>_. Absent), ev_callGasTemp := 0, ev_returnData := []\<rparr>"

definition evm_rel :: "EVM \<Rightarrow> EVM \<Rightarrow> bool" where
  "evm_rel evm evm' \<longleftrightarrow>
     evm_core evm' = evm_core evm \<and> evolves (ev_db evm) (read_only evm) (ev_StateDB evm) (ev_StateDB evm')"

definition ct_core :: "Contract \<Rightarrow> Contract" where
  "ct_core c = c\<lparr>ct_Gas := 0\<rparr>"

definition frame_rel :: "frame \<Rightarrow> frame \<Rightarrow> bool" where
  "frame_rel f f' \<longleftrightarrow>
     evm_rel (fr_evm f) (fr_evm f') \<and> ct_core (fr_contract f') = ct_core (fr_contract f)"

definition stack_ok :: "int list \<Rightarrow> bool" where
  "stack_ok st \<longleftrightarrow> list_all ((\<le>) 0) st"

definition mem_ok :: "Memory \<Rightarrow> bool" where
  "mem_ok m \<longleftrightarrow> length (mem_store m) \<le> 0xffffffffe0"

definition contract_ok :: "Contract \<Rightarrow> bool" where
  "contract_ok c \<longleftrightarrow> length (ct_Code c) < 2 ^ 62 \<and> length (ct_Input c) < 2 ^ 62 \<and> 0 \<le> ct_value c"

definition frame_ok :: "frame \<Rightarrow> bool" where
  "frame_ok f \<longleftrightarrow> evm_ok (fr_evm f) \<and> contract_ok (fr_contract f) \<and> stack_ok (fr_stack f) \<and> mem_ok (fr_mem f)"

lemma evm_core_update [simp]:
  "evm_core (evm\<lparr>ev_StateDB := s\<rparr>) = evm_core evm" "evm_core (evm\<lparr>ev_callGasTemp := g\<rparr>) = evm_core evm"
  "evm_core (evm\<lparr>ev_returnData := d\<rparr>) = evm_core evm"
  by (simp_all add: evm_core_def)

lemma ct_core_update [simp]: "ct_core (c\<lparr>ct_Gas := g\<rparr>) = ct_core c"
  by (simp add: ct_core_def)

lemma evm_coreD:
  assumes "evm_core evm' = evm_core evm"
  shows "ev_ctx evm' = ev_ctx evm" "ev_depth evm' = ev_depth evm" "ev_chainConfig evm' = ev_chainConfig evm"
    "ev_chainRules evm' = ev_chainRules evm" "ev_vmConfig evm' = ev_vmConfig evm" "ev_abort evm' = ev_abort evm"
    "ev_readOnly evm' = ev_readOnly evm" "ev_gasTable evm' = ev_gasTable evm" "ev_JumpTable evm' = ev_JumpTable evm"
    "ev_db evm' = ev_db evm" "ev_crypto evm' = ev_crypto evm" "read_only evm' = read_only evm"
proof -
  show *: "ev_ctx evm' = ev_ctx evm" "ev_depth evm' = ev_depth evm" "ev_chainConfig evm' = ev_chainConfig evm" "ev_chainRules evm' = ev_chainRules evm" "ev_vmConfig evm' = ev_vmConfig evm" "ev_abort evm' = ev_abort evm" "ev_readOnly evm' = ev_readOnly evm" "ev_gasTable evm' = ev_gasTable evm" "ev_JumpTable evm' = ev_JumpTable evm" "ev_db evm' = ev_db evm" "ev_crypto evm' = ev_crypto evm"
    using arg_cong [OF assms, of ev_ctx]
      arg_cong [OF assms, of ev_depth]
      arg_cong [OF assms, of ev_chainConfig]
      arg_cong [OF assms, of ev_chainRules]
      arg_cong [OF assms, of ev_vmConfig]
      arg_cong [OF assms, of ev_abort]
      arg_cong [OF assms, of ev_readOnly]
      arg_cong [OF assms, of ev_gasTable]
      arg_cong [OF assms, of ev_JumpTable]
      arg_cong [OF assms, of ev_db]
      arg_cong [OF assms, of ev_crypto]
    by (simp_all add: evm_core_def)
  show "read_only evm' = read_only evm"
    using * by (simp add: read_only_def)
qed

lemma ct_coreD:
  assumes "ct_core c' = ct_core c"
  shows "ct_Code c' = ct_Code c" "ct_Input c' = ct_Input c" "ct_value c' = ct_value c" "ct_self c' = ct_self c"
    "ct_CodeAddr c' = ct_CodeAddr c"
  using arg_cong [OF assms, of ct_Code]
      arg_cong [OF assms, of ct_Input]
      arg_cong [OF assms, of ct_value]
      arg_cong [OF assms, of ct_self]
      arg_cong [OF assms, of ct_CodeAddr]
  by (simp_all add: ct_core_def)

lemma evm_rel_refl: "evm_ok evm \<Longrightarrow> evm_rel evm evm"
  by (simp add: evm_rel_def evolves_refl evm_ok_def)

lemma evm_rel_trans: "evm_rel e1 e2 \<Longrightarrow> evm_rel e2 e3 \<Longrightarrow> evm_rel e1 e3"
  using evm_coreD(10,12) [of e2 e1] by (auto simp: evm_rel_def intro: evolves_trans)

lemma evm_rel_ok: "evm_rel evm evm' \<Longrightarrow> evm_ok evm \<Longrightarrow> evm_ok evm'"
proof -
  assume *: "evm_rel evm evm'" and ok: "evm_ok evm"
  then have core: "evm_core evm' = evm_core evm" and "vm_state_ok (ev_db evm) (ev_StateDB evm')"
    using evolves_ok by (auto simp: evm_rel_def)
  then show "evm_ok evm'"
    using ok by (simp add: evm_ok_def evm_coreD [OF core])
qed

lemma evm_rel_update [simp]:
  "evm_rel evm (evm'\<lparr>ev_callGasTemp := g\<rparr>) = evm_rel evm evm'" "evm_rel evm (evm'\<lparr>ev_returnData := d\<rparr>) = evm_rel evm evm'"
  by (simp_all add: evm_rel_def)

lemma evm_rel_state:
  assumes "evm_rel evm evm'" "evolves (ev_db evm) (read_only evm) (ev_StateDB evm') s"
  shows "evm_rel evm (evm'\<lparr>ev_StateDB := s\<rparr>)"
  using assms evolves_trans by (auto simp: evm_rel_def)

lemma frame_rel_refl: "frame_ok f \<Longrightarrow> frame_rel f f"
  by (simp add: frame_rel_def frame_ok_def evm_rel_refl)

lemma frame_rel_trans: "frame_rel f g \<Longrightarrow> frame_rel g h \<Longrightarrow> frame_rel f h"
  by (auto simp: frame_rel_def intro: evm_rel_trans)

lemma frame_rel_update [simp]:
  "frame_rel f (f'\<lparr>fr_stack := st\<rparr>) = frame_rel f f'" "frame_rel f (f'\<lparr>fr_pc := pc\<rparr>) = frame_rel f f'"
  "frame_rel f (f'\<lparr>fr_mem := m\<rparr>) = frame_rel f f'"
  by (simp_all add: frame_rel_def)

lemma frame_relD:
  assumes "frame_rel f f'" "frame_ok f"
  shows "evm_ok (fr_evm f')" "contract_ok (fr_contract f')"
proof -
  have *: "evm_rel (fr_evm f) (fr_evm f')" "ct_core (fr_contract f') = ct_core (fr_contract f)"
    using assms(1) by (simp_all add: frame_rel_def)
  show "evm_ok (fr_evm f')"
    using evm_rel_ok [OF *(1)] assms(2) by (simp add: frame_ok_def)
  show "contract_ok (fr_contract f')"
    using ct_coreD(1-3) [OF *(2)] assms(2) by (simp add: frame_ok_def contract_ok_def)
qed

lemma stack_ok_simps [simp]:
  "stack_ok []" "stack_ok (x # st) \<longleftrightarrow> 0 \<le> x \<and> stack_ok st"
  by (simp_all add: stack_ok_def)

lemma stack_ok_nth: "stack_ok st \<Longrightarrow> i < length st \<Longrightarrow> 0 \<le> st ! i"
  by (simp add: stack_ok_def list_all_length)

section \<open>Contracts of the parts of an operation\<close>

text \<open>
  \<open>n\<close> and \<open>m\<close> are the items an operation takes from the stack and leaves there, \<open>need\<close> the memory it
  touches, \<open>allow\<close> the gas it may get back from a call, \<open>c\<close> the least it costs beside that, and \<open>P\<close>
  what is known of the frame from the checks before; \<open>G\<close> bounds the gas.
\<close>

definition memory_ok :: "nat \<Rightarrow> (int list \<Rightarrow> int) \<Rightarrow> int vm \<Rightarrow> bool" where
  "memory_ok n need mf \<longleftrightarrow>
     (\<forall>f. stack_ok (fr_stack f) \<longrightarrow> n \<le> length (fr_stack f) \<longrightarrow>
        mf f = Ret (Inr (need (fr_stack f)), f) \<and> 0 \<le> need (fr_stack f))"

definition gas_rel :: "frame \<Rightarrow> frame \<Rightarrow> bool" where
  "gas_rel f f' \<longleftrightarrow>
     frame_rel f f' \<and> fr_stack f' = fr_stack f \<and> fr_contract f' = fr_contract f \<and> fr_pc f' = fr_pc f \<and>
     mem_store (fr_mem f') = mem_store (fr_mem f)"

definition gas_ok :: "bool \<Rightarrow> (frame \<Rightarrow> bool) \<Rightarrow> nat \<Rightarrow> nat \<Rightarrow> (frame \<Rightarrow> nat) \<Rightarrow> gasFunc \<Rightarrow> bool" where
  "gas_ok mem P n c allow g \<longleftrightarrow>
     (\<forall>f ms. frame_ok f \<longrightarrow> n \<le> length (fr_stack f) \<longrightarrow> P f \<longrightarrow>
        wp (g ms) (\<lambda>cost f'. gas_rel f f' \<and> c + allow f' \<le> unat cost \<and> (mem \<longrightarrow> ms \<le> 0xffffffffe0)) (gas_rel f) f)"

definition exec_post :: "frame \<Rightarrow> nat \<Rightarrow> nat \<Rightarrow> nat \<Rightarrow> bytes \<Rightarrow> frame \<Rightarrow> bool" where
  "exec_post f n m a r f' \<longleftrightarrow>
     frame_rel f f' \<and> stack_ok (fr_stack f') \<and> length (fr_stack f') + n = length (fr_stack f) + m \<and>
     length (mem_store (fr_mem f')) = length (mem_store (fr_mem f)) \<and>
     unat (ct_Gas (fr_contract f')) \<le> unat (ct_Gas (fr_contract f)) + a \<and> length r < 2 ^ 62"

definition exec_ok ::
  "calls \<Rightarrow> nat \<Rightarrow> (frame \<Rightarrow> bool) \<Rightarrow> nat \<Rightarrow> nat \<Rightarrow> (int list \<Rightarrow> int) \<Rightarrow> (frame \<Rightarrow> nat) \<Rightarrow> executionFunc \<Rightarrow> bool" where
  "exec_ok cl G P n m need allow ex \<longleftrightarrow>
     (\<forall>f. frame_ok f \<longrightarrow> n \<le> length (fr_stack f) \<longrightarrow> P f \<longrightarrow> need (fr_stack f) \<le> int (length (mem_store (fr_mem f))) \<longrightarrow>
        unat (ct_Gas (fr_contract f)) + allow f \<le> G \<longrightarrow>
        wp (ex cl) (exec_post f n m (allow f)) (frame_rel f) f)"

lemma exec_ok0:
  assumes "\<And>f. frame_ok f \<Longrightarrow> P f \<Longrightarrow> need (fr_stack f) \<le> int (length (mem_store (fr_mem f))) \<Longrightarrow>
    unat (ct_Gas (fr_contract f)) + allow f \<le> G \<Longrightarrow> wp (ex cl) (exec_post f 0 m (allow f)) (frame_rel f) f"
  shows "exec_ok cl G P 0 m need allow ex"
  using assms by (simp add: exec_ok_def)

lemma exec_ok1:
  assumes "\<And>f x st. frame_ok f \<Longrightarrow> P f \<Longrightarrow> fr_stack f = x # st \<Longrightarrow> 0 \<le> x \<Longrightarrow> stack_ok st \<Longrightarrow>
    need (x # st) \<le> int (length (mem_store (fr_mem f))) \<Longrightarrow>
    unat (ct_Gas (fr_contract f)) + allow f \<le> G \<Longrightarrow> wp (ex cl) (exec_post f 1 m (allow f)) (frame_rel f) f"
  shows "exec_ok cl G P 1 m need allow ex"
  unfolding exec_ok_def
proof (intro allI impI)
  fix f
  assume *: "frame_ok f" "1 \<le> length (fr_stack f)" "P f" "need (fr_stack f) \<le> int (length (mem_store (fr_mem f)))"
    "unat (ct_Gas (fr_contract f)) + allow f \<le> G"
  then obtain x st where "fr_stack f = x # st"
    by (auto simp: numeral_nat Suc_le_length_iff)
  then show "wp (ex cl) (exec_post f 1 m (allow f)) (frame_rel f) f"
    using assms * by (simp add: frame_ok_def)
qed

lemma exec_ok2:
  assumes "\<And>f x y st. frame_ok f \<Longrightarrow> P f \<Longrightarrow> fr_stack f = x # y # st \<Longrightarrow> 0 \<le> x \<Longrightarrow> 0 \<le> y \<Longrightarrow> stack_ok st \<Longrightarrow>
    need (x # y # st) \<le> int (length (mem_store (fr_mem f))) \<Longrightarrow>
    unat (ct_Gas (fr_contract f)) + allow f \<le> G \<Longrightarrow> wp (ex cl) (exec_post f 2 m (allow f)) (frame_rel f) f"
  shows "exec_ok cl G P 2 m need allow ex"
  unfolding exec_ok_def
proof (intro allI impI)
  fix f
  assume *: "frame_ok f" "2 \<le> length (fr_stack f)" "P f" "need (fr_stack f) \<le> int (length (mem_store (fr_mem f)))"
    "unat (ct_Gas (fr_contract f)) + allow f \<le> G"
  then obtain x y st where "fr_stack f = x # y # st"
    by (auto simp: numeral_nat Suc_le_length_iff)
  then show "wp (ex cl) (exec_post f 2 m (allow f)) (frame_rel f) f"
    using assms * by (simp add: frame_ok_def)
qed

lemma exec_ok3:
  assumes "\<And>f x y z st. frame_ok f \<Longrightarrow> P f \<Longrightarrow> fr_stack f = x # y # z # st \<Longrightarrow> 0 \<le> x \<Longrightarrow> 0 \<le> y \<Longrightarrow> 0 \<le> z \<Longrightarrow>
    stack_ok st \<Longrightarrow> need (x # y # z # st) \<le> int (length (mem_store (fr_mem f))) \<Longrightarrow>
    unat (ct_Gas (fr_contract f)) + allow f \<le> G \<Longrightarrow> wp (ex cl) (exec_post f 3 m (allow f)) (frame_rel f) f"
  shows "exec_ok cl G P 3 m need allow ex"
  unfolding exec_ok_def
proof (intro allI impI)
  fix f
  assume *: "frame_ok f" "3 \<le> length (fr_stack f)" "P f" "need (fr_stack f) \<le> int (length (mem_store (fr_mem f)))"
    "unat (ct_Gas (fr_contract f)) + allow f \<le> G"
  then obtain x y z st where "fr_stack f = x # y # z # st"
    by (auto simp: numeral_nat Suc_le_length_iff)
  then show "wp (ex cl) (exec_post f 3 m (allow f)) (frame_rel f) f"
    using assms * by (simp add: frame_ok_def)
qed

text \<open>A step that only changes the stack.\<close>

lemma exec_post_stack [simp]:
  assumes "frame_ok f"
  shows "exec_post f n m a r (f\<lparr>fr_stack := st\<rparr>) \<longleftrightarrow>
    stack_ok st \<and> length st + n = length (fr_stack f) + m \<and> length r < 2 ^ 62"
  using frame_rel_refl [OF assms] by (auto simp: exec_post_def)

lemma exec_post_id [simp]:
  assumes "frame_ok f"
  shows "exec_post f n m a r f \<longleftrightarrow> n = m \<and> length r < 2 ^ 62"
  using frame_rel_refl [OF assms] assms by (auto simp: exec_post_def frame_ok_def)

end
