(* ===== verification/VM_Exec.thy ===== *)
theory VM_Exec
  imports VM_Logic
begin

text \<open>
  The instructions keep the invariant of frames: each satisfies \<open>exec_ok\<close> for the stack heights
  and the memory of its table entry. None of them panics.
\<close>

section \<open>Arithmetic and comparisons\<close>

lemma nonneg_values [simp]:
  "0 \<le> U256 x" "0 \<le> math_Exp x y" "0 \<le> SetBytes bs" "0 \<le> Hash_Big h" "0 \<le> Address_Big a"
  using SetBytes_bounds by (simp_all add: U256_eq_mod math_Exp_eq Hash_Big_eq Address_Big_eq)

lemma exec_binop:
  assumes "\<And>x y. 0 \<le> x \<Longrightarrow> 0 \<le> y \<Longrightarrow> 0 \<le> g x y"
  shows "exec_ok cl G P 2 1 need allow (\<lambda>cl. binop g)"
  by (rule exec_ok2) (simp add: binop_def wp_simps assms)

lemma exec_arith:
  "exec_ok cl G P 2 1 need allow opAdd" "exec_ok cl G P 2 1 need allow opSub" "exec_ok cl G P 2 1 need allow opMul"
  "exec_ok cl G P 2 1 need allow opDiv" "exec_ok cl G P 2 1 need allow opSdiv" "exec_ok cl G P 2 1 need allow opMod"
  "exec_ok cl G P 2 1 need allow opSmod" "exec_ok cl G P 2 1 need allow opExp" "exec_ok cl G P 2 1 need allow opLt"
  "exec_ok cl G P 2 1 need allow opGt" "exec_ok cl G P 2 1 need allow opSlt" "exec_ok cl G P 2 1 need allow opSgt"
  "exec_ok cl G P 2 1 need allow opEq" "exec_ok cl G P 2 1 need allow opAnd" "exec_ok cl G P 2 1 need allow opOr"
  "exec_ok cl G P 2 1 need allow opXor"
  using exec_binop [of _ cl G P need allow]
  by (simp_all add: exec_ok_def opAdd_def opSub_def opMul_def opDiv_def opSdiv_def opMod_def opSmod_def opExp_def opLt_def
      opGt_def opSlt_def opSgt_def opEq_def opAnd_def opOr_def opXor_def Let_def)

lemma exec_bits:
  "exec_ok cl G P 2 1 need allow opSignExtend" "exec_ok cl G P 2 1 need allow opByte" "exec_ok cl G P 2 1 need allow opSHL"
  "exec_ok cl G P 2 1 need allow opSHR" "exec_ok cl G P 2 1 need allow opSAR"
  by (rule exec_ok2, simp add: opSignExtend_def opByte_def opSHL_def opSHR_def opSAR_def wp_simps)+

lemma exec_unary:
  "exec_ok cl G P 1 1 need allow opNot" "exec_ok cl G P 1 1 need allow opIszero" "exec_ok cl G P 1 1 need allow opBlockhash"
  "exec_ok cl G P 1 0 need allow opPop"
  by (rule exec_ok1, simp add: opNot_def opIszero_def opBlockhash_def opPop_def wp_simps Let_def)+

lemma exec_modular:
  "exec_ok cl G P 3 1 need allow opAddmod" "exec_ok cl G P 3 1 need allow opMulmod"
  by (rule exec_ok3, simp add: opAddmod_def opMulmod_def wp_simps)+

section \<open>The environment\<close>

lemma exec_push_of:
  assumes "\<And>f. frame_ok f \<Longrightarrow> 0 \<le> g f"
  shows "exec_ok cl G P 0 1 need allow (\<lambda>cl. push_of g)"
  by (rule exec_ok0) (use assms in \<open>auto simp: push_of_def wp_simps frame_ok_def\<close>)

lemma exec_environment:
  "exec_ok cl G P 0 1 need allow opAddress" "exec_ok cl G P 0 1 need allow opOrigin" "exec_ok cl G P 0 1 need allow opCaller"
  "exec_ok cl G P 0 1 need allow opCallValue" "exec_ok cl G P 0 1 need allow opCallDataSize"
  "exec_ok cl G P 0 1 need allow opReturnDataSize" "exec_ok cl G P 0 1 need allow opCodeSize"
  "exec_ok cl G P 0 1 need allow opGasprice" "exec_ok cl G P 0 1 need allow opCoinbase"
  "exec_ok cl G P 0 1 need allow opTimestamp" "exec_ok cl G P 0 1 need allow opNumber"
  "exec_ok cl G P 0 1 need allow opDifficulty" "exec_ok cl G P 0 1 need allow opGasLimit"
  "exec_ok cl G P 0 1 need allow opPc" "exec_ok cl G P 0 1 need allow opMsize" "exec_ok cl G P 0 1 need allow opGas"
  using exec_push_of [of _ cl G P need allow]
  by (simp_all add: exec_ok_def opAddress_def opOrigin_def opCaller_def opCallValue_def opCallDataSize_def opReturnDataSize_def
      opCodeSize_def opGasprice_def opCoinbase_def opTimestamp_def opNumber_def opDifficulty_def opGasLimit_def opPc_def
      opMsize_def opGas_def frame_ok_def contract_ok_def evm_ok_def)

lemma exec_skip: "exec_ok cl G P 0 0 need allow opJumpdest" "exec_ok cl G P 0 0 need allow opStop"
  by (rule exec_ok0, simp add: opJumpdest_def opStop_def wp_simps)+

section \<open>State\<close>

text \<open>A step that changes the stack and the state.\<close>

lemma exec_post_state:
  assumes "frame_ok f" "evolves (ev_db (fr_evm f)) (read_only (fr_evm f)) (ev_StateDB (fr_evm f)) s"
    "fr_evm f' = (fr_evm f)\<lparr>ev_StateDB := s\<rparr>" "fr_contract f' = fr_contract f"
    "length (mem_store (fr_mem f')) = length (mem_store (fr_mem f))"
    "stack_ok (fr_stack f')" "length (fr_stack f') + n = length (fr_stack f) + m" "length r < 2 ^ 62"
  shows "exec_post f n m a r f'"
proof -
  have "evm_rel (fr_evm f) (fr_evm f')"
    using assms(1-3) evm_rel_state evm_rel_refl by (simp add: frame_ok_def)
  then show ?thesis
    using assms by (simp add: exec_post_def frame_rel_def)
qed

lemma frame_state_ok: "frame_ok f \<Longrightarrow> vm_state_ok (ev_db (fr_evm f)) (ev_StateDB (fr_evm f))"
  by (simp add: frame_ok_def evm_ok_def)

lemma exec_balance: "exec_ok cl G P 1 1 need allow opBalance"
proof (rule exec_ok1, simp add: opBalance_def wp_simps split: prod.split, intro allI impI)
  fix f x st r s
  assume "frame_ok f" "fr_stack f = x # st" "stack_ok st"
    and get: "GetBalance (ev_db (fr_evm f)) (BigToAddress x) (ev_StateDB (fr_evm f)) = (r, s)"
  then show "exec_post f (Suc 0) (Suc 0) (allow f) [] (f\<lparr>fr_evm := (fr_evm f)\<lparr>ev_StateDB := s\<rparr>, fr_stack := r # st\<rparr>)"
    using GetBalance_evolves [OF frame_state_ok get] by (intro exec_post_state) simp_all
qed

lemma exec_extcodesize: "exec_ok cl G P 1 1 need allow opExtCodeSize"
proof (rule exec_ok1, simp add: opExtCodeSize_def wp_simps split: prod.split, intro allI impI)
  fix f x st r s
  assume "frame_ok f" "fr_stack f = x # st" "stack_ok st"
    and get: "GetCodeSize (ev_db (fr_evm f)) (BigToAddress x) (ev_StateDB (fr_evm f)) = (r, s)"
  then show "exec_post f (Suc 0) (Suc 0) (allow f) [] (f\<lparr>fr_evm := (fr_evm f)\<lparr>ev_StateDB := s\<rparr>, fr_stack := int r # st\<rparr>)"
    using GetCodeSize_evolves [OF frame_state_ok get] by (intro exec_post_state) simp_all
qed

lemma exec_sload: "exec_ok cl G P 1 1 need allow opSload"
proof (rule exec_ok1, simp add: opSload_def wp_simps split: prod.split, intro allI impI)
  fix f x st r s
  assume "frame_ok f" "fr_stack f = x # st" "stack_ok st"
    and get: "GetState (ev_db (fr_evm f)) (ct_self (fr_contract f)) (BigToHash x) (ev_StateDB (fr_evm f)) = (r, s)"
  then show "exec_post f (Suc 0) (Suc 0) (allow f) [] (f\<lparr>fr_evm := (fr_evm f)\<lparr>ev_StateDB := s\<rparr>, fr_stack := Hash_Big r # st\<rparr>)"
    using GetState_evolves [OF frame_state_ok get] by (intro exec_post_state) simp_all
qed

lemma exec_sstore:
  assumes "\<And>f. P f \<Longrightarrow> \<not> read_only (fr_evm f)"
  shows "exec_ok cl G P 2 0 need allow opSstore"
  by (rule exec_ok2, simp add: opSstore_def wp_simps, rule exec_post_state)
    (use assms SetState_evolves [OF frame_state_ok] in simp_all)

section \<open>Memory\<close>

lemma mem_len: "frame_ok f \<Longrightarrow> int (length (mem_store (fr_mem f))) < 2 ^ 62"
  by (simp add: frame_ok_def mem_ok_def)

lemma Memory_Get_ok:
  assumes "int (length (mem_store m)) < 2 ^ 62" "0 \<le> off" "0 \<le> sz" "calcMemSize off sz \<le> int (length (mem_store m))"
  obtains d where "Memory_Get (Int64 off) (Int64 sz) m = Ret d" "int (length d) = sz"
proof (cases "sz = 0")
  case True
  then show ?thesis
    using that [of "[]"] by (simp add: Memory_Get_def Memory_GetPtr_def Int64_small)
next
  case False
  then have "off + sz \<le> int (length (mem_store m))"
    using assms(4) by (simp add: calcMemSize_def)
  moreover have "Int64 off = off" "Int64 sz = sz"
    using calculation assms by (simp_all add: Int64_small)
  ultimately show ?thesis
    using that [of "take (nat (off + sz) - nat off) (drop (nat off) (mem_store m))"] assms(2,3) False
    by (simp add: Memory_Get_def Memory_GetPtr_def go_slice_def nat_le_iff)
qed

lemma wp_Get:
  assumes "frame_ok f" "0 \<le> off" "0 \<le> sz" "calcMemSize off sz \<le> int (length (mem_store (fr_mem g)))" "fr_mem g = fr_mem f"
    "\<And>d. int (length d) = sz \<Longrightarrow> Q d g"
  shows "wp (vm_Get (Int64 off) (Int64 sz)) Q E g" "wp (vm_GetPtr (Int64 off) (Int64 sz)) Q E g"
proof -
  obtain d where "Memory_Get (Int64 off) (Int64 sz) (fr_mem g) = Ret d" "int (length d) = sz"
    using Memory_Get_ok [of "fr_mem g" off sz] assms mem_len [of f] by auto
  then show "wp (vm_Get (Int64 off) (Int64 sz)) Q E g" "wp (vm_GetPtr (Int64 off) (Int64 sz)) Q E g"
    using assms(6) [of d] by (simp_all add: wp_def vm_Get_def vm_GetPtr_def Memory_Get_def)
qed

lemma Memory_Set_ok:
  assumes "int (length (mem_store m)) < 2 ^ 62" "0 \<le> off" "0 \<le> sz" "calcMemSize off sz \<le> int (length (mem_store m))"
  obtains m' where "Memory_Set (Uint64 off) (Uint64 sz) d m = Ret m'" "length (mem_store m') = length (mem_store m)"
proof (cases "sz = 0")
  case True
  then show ?thesis
    using that [of m] by (simp add: Memory_Set_def Uint64_def)
next
  case False
  then have le: "off + sz \<le> int (length (mem_store m))"
    using assms(4) by (simp add: calcMemSize_def)
  have u: "unat (Uint64 off) = nat off" "unat (Uint64 sz) = nat sz"
    using le assms by (simp_all add: unat_Uint64)
  moreover have len: "nat off + nat sz \<le> length (mem_store m)"
    using le assms by linarith
  moreover have "unat (Uint64 off + Uint64 sz) = nat off + nat sz" "0 < Uint64 sz"
    using le assms False u by (simp_all add: unat_word_ariths word_less_nat_alt)
  ultimately have "Memory_Set (Uint64 off) (Uint64 sz) d m =
      Ret (m\<lparr>mem_store := go_copy (mem_store m) (nat off) (take (nat sz) d)\<rparr>)"
    by (simp add: Memory_Set_def go_slice_def)
  then show ?thesis
    using that len by simp
qed

lemma wp_Set:
  assumes "frame_ok f" "0 \<le> off" "0 \<le> sz" "calcMemSize off sz \<le> int (length (mem_store (fr_mem g)))" "fr_mem g = fr_mem f"
    "\<And>m. length (mem_store m) = length (mem_store (fr_mem f)) \<Longrightarrow> Q () (g\<lparr>fr_mem := m\<rparr>)"
  shows "wp (vm_Set (Uint64 off) (Uint64 sz) d) Q E g"
proof -
  obtain m' where "Memory_Set (Uint64 off) (Uint64 sz) d (fr_mem g) = Ret m'" "length (mem_store m') = length (mem_store (fr_mem g))"
    using Memory_Set_ok [of "fr_mem g" off sz d] assms mem_len [of f] by auto
  then show ?thesis
    using assms(5) assms(6) [of m'] by (simp add: wp_def vm_Set_def)
qed

lemma getDataBig_ok:
  assumes "length data < 2 ^ 62" "0 \<le> start" "0 \<le> sz"
  obtains d where "getDataBig data start sz = Ret d"
proof -
  let ?s = "BigMin start (int (length data))"
  let ?e = "BigMin (?s + sz) (int (length data))"
  have *: "0 \<le> ?s" "?s \<le> ?e" "?e \<le> int (length data)" "int (length data) < 2 ^ 62"
    using assms by (auto simp: BigMin_def)
  then have "unat (Uint64 ?s) = nat ?s" "unat (Uint64 ?e) = nat ?e"
    by (simp_all add: unat_Uint64)
  then show ?thesis
    using that * by (simp add: getDataBig_def Let_def go_slice_def nat_le_iff)
qed

definition need_at :: "nat \<Rightarrow> nat \<Rightarrow> int list \<Rightarrow> int" where
  "need_at i j st = calcMemSize (st ! i) (st ! j)"

definition need_off :: "int \<Rightarrow> int list \<Rightarrow> int" where
  "need_off k st = calcMemSize (st ! 0) k"

lemma need_simps [simp]:
  "need_at i j st = calcMemSize (st ! i) (st ! j)" "need_off k st = calcMemSize (st ! 0) k"
  by (simp_all add: need_at_def need_off_def)

text \<open>A step that changes the stack and the memory.\<close>

lemma exec_post_mem:
  assumes "frame_ok f" "fr_evm f' = fr_evm f" "fr_contract f' = fr_contract f"
    "length (mem_store (fr_mem f')) = length (mem_store (fr_mem f))"
    "stack_ok (fr_stack f')" "length (fr_stack f') + n = length (fr_stack f) + m" "length r < 2 ^ 62"
  shows "exec_post f n m a r f'"
  using assms frame_rel_refl [OF assms(1)] by (simp add: exec_post_def frame_rel_def)

lemma input_len: "frame_ok f \<Longrightarrow> length (ct_Input (fr_contract f)) < 2 ^ 62" "frame_ok f \<Longrightarrow> length (ct_Code (fr_contract f)) < 2 ^ 62"
  by (simp_all add: frame_ok_def contract_ok_def)

lemma exec_calldataload: "exec_ok cl G P 1 1 need allow opCallDataLoad"
proof (rule exec_ok1)
  fix f x st
  assume *: "frame_ok f" "fr_stack f = x # st" "0 \<le> x" "stack_ok st"
  obtain d where "getDataBig (ct_Input (fr_contract f)) x 32 = Ret d"
    using getDataBig_ok [OF input_len(1) [OF *(1)] *(3), of 32] by auto
  then show "wp (opCallDataLoad cl) (exec_post f 1 1 (allow f)) (frame_rel f) f"
    using * by (simp add: opCallDataLoad_def wp_simps)
qed

lemma exec_mload: "exec_ok cl G P 1 1 (need_off 32) allow opMload"
proof (rule exec_ok1)
  fix f x st
  assume *: "frame_ok f" "fr_stack f = x # st" "0 \<le> x" "stack_ok st" "need_off 32 (x # st) \<le> int (length (mem_store (fr_mem f)))"
  have "Int64 32 = 32"
    by (simp add: Int64_small)
  then show "wp (opMload cl) (exec_post f 1 1 (allow f)) (frame_rel f) f"
    using * wp_Get(1) [OF *(1,3), of 32 "f\<lparr>fr_stack := st\<rparr>"] by (simp add: opMload_def wp_simps)
qed

lemma exec_mstore: "exec_ok cl G P 2 0 (need_off 32) allow opMstore"
proof (rule exec_ok2)
  fix f x y st
  assume *: "frame_ok f" "fr_stack f = x # y # st" "0 \<le> x" "stack_ok st"
    "need_off 32 (x # y # st) \<le> int (length (mem_store (fr_mem f)))"
  have "Uint64 32 = 32"
    by (simp add: Uint64_def)
  then show "wp (opMstore cl) (exec_post f 2 0 (allow f)) (frame_rel f) f"
    using * wp_Set [OF *(1,3), of 32 "f\<lparr>fr_stack := st\<rparr>"] by (simp add: opMstore_def wp_simps exec_post_mem)
qed

lemma exec_mstore8: "exec_ok cl G P 2 0 (need_off 1) allow opMstore8"
proof (rule exec_ok2)
  fix f x y st
  assume *: "frame_ok f" "fr_stack f = x # y # st" "0 \<le> x" "stack_ok st"
    "need_off 1 (x # y # st) \<le> int (length (mem_store (fr_mem f)))"
  have "Int64 x = x"
    using * mem_len [OF *(1)] by (simp add: Int64_small calcMemSize_def)
  then show "wp (opMstore8 cl) (exec_post f 2 0 (allow f)) (frame_rel f) f"
    using * by (simp add: opMstore8_def wp_simps exec_post_mem calcMemSize_def)
qed

lemma wp_copy:
  assumes "frame_ok f" "0 \<le> off" "0 \<le> sz" "calcMemSize off sz \<le> int (length (mem_store (fr_mem g)))" "fr_mem g = fr_mem f"
    "length data < 2 ^ 62" "0 \<le> start"
    "\<And>m. length (mem_store m) = length (mem_store (fr_mem f)) \<Longrightarrow> Q [] (g\<lparr>fr_mem := m\<rparr>)"
  shows "wp (vm_bind (vm_go (getDataBig data start sz)) (\<lambda>d. vm_bind (vm_Set (Uint64 off) (Uint64 sz) d) (\<lambda>_. vm_done))) Q E g"
proof -
  obtain d where "getDataBig data start sz = Ret d"
    using getDataBig_ok [OF assms(6,7,3)] .
  then show ?thesis
    using wp_Set [OF assms(1-5), of "\<lambda>_. wp vm_done Q E" d E] assms(8) by (simp add: wp_bind wp_go wp_done)
qed

lemma exec_calldatacopy: "exec_ok cl G P 3 0 (need_at 0 2) allow opCallDataCopy"
proof (rule exec_ok3)
  fix f x y z st
  assume *: "frame_ok f" "fr_stack f = x # y # z # st" "0 \<le> x" "0 \<le> y" "0 \<le> z" "stack_ok st"
    "need_at 0 2 (x # y # z # st) \<le> int (length (mem_store (fr_mem f)))"
  show "wp (opCallDataCopy cl) (exec_post f 3 0 (allow f)) (frame_rel f) f"
    unfolding opCallDataCopy_def wp_bind [of pop] wp_pop wp_bind [of "vm_gets _"] wp_gets
    using * by (simp, intro wp_copy [OF *(1,3,5) _ _ input_len(1) [OF *(1)] *(4)]) (simp_all add: exec_post_mem)
qed

lemma exec_codecopy: "exec_ok cl G P 3 0 (need_at 0 2) allow opCodeCopy"
proof (rule exec_ok3)
  fix f x y z st
  assume *: "frame_ok f" "fr_stack f = x # y # z # st" "0 \<le> x" "0 \<le> y" "0 \<le> z" "stack_ok st"
    "need_at 0 2 (x # y # z # st) \<le> int (length (mem_store (fr_mem f)))"
  show "wp (opCodeCopy cl) (exec_post f 3 0 (allow f)) (frame_rel f) f"
    unfolding opCodeCopy_def wp_bind [of pop] wp_pop wp_bind [of "vm_gets _"] wp_gets
    using * by (simp, intro wp_copy [OF *(1,3,5) _ _ input_len(2) [OF *(1)] *(4)]) (simp_all add: exec_post_mem)
qed

lemma exec_extcodecopy: "exec_ok cl G P 4 0 (need_at 1 3) allow opExtCodeCopy"
  unfolding exec_ok_def
proof (intro allI impI)
  fix f
  assume f: "frame_ok f" "4 \<le> length (fr_stack f)" "need_at 1 3 (fr_stack f) \<le> int (length (mem_store (fr_mem f)))"
  then obtain a x y z st where st: "fr_stack f = a # x # y # z # st" and *: "0 \<le> x" "0 \<le> y" "0 \<le> z" "stack_ok st"
    by (auto simp: numeral_nat Suc_le_length_iff frame_ok_def)
  obtain r s where get: "GetCode (ev_db (fr_evm f)) (BigToAddress a) (ev_StateDB (fr_evm f)) = (r, s)"
    by fastforce
  note q = GetCode_evolves [OF frame_state_ok [OF f(1)] get]
  have len: "length (case r of None \<Rightarrow> [] | Some c \<Rightarrow> c) < 2 ^ 62"
    using q(2) by (auto split: option.split)
  show "wp (opExtCodeCopy cl) (exec_post f 4 0 (allow f)) (frame_rel f) f"
    unfolding opExtCodeCopy_def wp_bind [of pop] wp_pop wp_bind [of "vm_query _"] wp_query
    using st f(3) get by (simp, intro wp_copy [OF f(1) *(1,3) _ _ len *(2)]) (simp_all add: exec_post_state [OF f(1) q(1)] *)
qed

lemma exec_returndatacopy: "exec_ok cl G P 3 0 (need_at 0 2) allow opReturnDataCopy"
proof (rule exec_ok3)
  fix f x y z st
  assume *: "frame_ok f" "fr_stack f = x # y # z # st" "0 \<le> x" "0 \<le> y" "0 \<le> z" "stack_ok st"
    "need_at 0 2 (x # y # z # st) \<le> int (length (mem_store (fr_mem f)))"
  let ?d = "ev_returnData (fr_evm f)"
  have slice: "\<exists>d. go_slice ?d (unat (Uint64 y)) (unat (Uint64 (y + z))) = Ret d"
    if "\<not> BitLen (y + z) > 64" "\<not> of_nat (length ?d) < Uint64 (y + z)"
  proof -
    have "y + z < 2 ^ 64"
      using that(1) *(4,5) by (simp add: BitLen_le_iff not_less)
    then have u: "unat (Uint64 y) = nat y" "unat (Uint64 (y + z)) = nat (y + z)"
      using *(4,5) by (simp_all add: unat_Uint64)
    moreover have "unat (Uint64 (y + z)) \<le> length ?d"
      using that(2) by (metis linorder_not_less unat_of_nat word_less_nat_alt mod_less_eq_dividend order_trans not_le)
    ultimately show ?thesis
      using *(5) by (simp add: go_slice_def)
  qed
  show "wp (opReturnDataCopy cl) (exec_post f 3 0 (allow f)) (frame_rel f) f"
  proof (cases "BitLen (y + z) > 64 \<or> of_nat (length ?d) < Uint64 (y + z)")
    case True
    then show ?thesis
      using * frame_rel_refl [OF *(1)] by (simp add: opReturnDataCopy_def wp_simps Let_def)
  next
    case False
    then obtain d where "go_slice ?d (unat (Uint64 y)) (unat (Uint64 (y + z))) = Ret d"
      using slice by blast
    then show ?thesis
      using False * wp_Set [OF *(1,3,5), of "f\<lparr>fr_stack := st\<rparr>"]
      by (simp add: opReturnDataCopy_def wp_simps Let_def exec_post_mem del: go_slice_Ret)
  qed
qed

lemma exec_sha3: "exec_ok cl G P 2 1 (need_at 0 1) allow opSha3"
proof (rule exec_ok2)
  fix f x y st
  assume *: "frame_ok f" "fr_stack f = x # y # st" "0 \<le> x" "0 \<le> y" "stack_ok st"
    "need_at 0 1 (x # y # st) \<le> int (length (mem_store (fr_mem f)))"
  let ?f = "f\<lparr>fr_stack := st\<rparr>"
  have "wp (vm_Get (Int64 x) (Int64 y)) Q E ?f" if "\<And>d. Q d ?f" for Q E
    using wp_Get(1) [OF *(1,3,4), of ?f] *(2,6) that by simp
  then show "wp (opSha3 cl) (exec_post f 2 1 (allow f)) (frame_rel f) f"
    using * by (simp add: opSha3_def wp_simps exec_post_state [OF *(1) AddPreimage_evolves [OF frame_state_ok [OF *(1)]]])
qed

lemma exec_return:
  "exec_ok cl G P 2 0 (need_at 0 1) allow opReturn" "exec_ok cl G P 2 0 (need_at 0 1) allow opRevert"
proof -
  have "wp (vm_GetPtr (Int64 x) (Int64 y)) (exec_post f 2 0 a) E (f\<lparr>fr_stack := st\<rparr>)"
    if *: "frame_ok f" "fr_stack f = x # y # st" "0 \<le> x" "0 \<le> y" "stack_ok st"
      "need_at 0 1 (x # y # st) \<le> int (length (mem_store (fr_mem f)))" for f x y st a E
  proof (rule wp_Get(2) [OF *(1,3,4)])
    fix d :: bytes
    assume d: "int (length d) = y"
    have "y \<le> int (length (mem_store (fr_mem f)))"
      using *(3,4,6) by (auto simp: calcMemSize_def split: if_splits)
    then have "length d < 2 ^ 62"
      using mem_len [OF *(1)] d by simp
    then show "exec_post f 2 0 a d (f\<lparr>fr_stack := st\<rparr>)"
      using * by simp
  qed (use * in simp_all)
  then show "exec_ok cl G P 2 0 (need_at 0 1) allow opReturn" "exec_ok cl G P 2 0 (need_at 0 1) allow opRevert"
    by (auto intro!: exec_ok2 simp: opReturn_def opRevert_def wp_bind wp_pop)
qed

lemma wp_popTopics:
  "n \<le> length (fr_stack f) \<Longrightarrow> (\<And>ts. Q ts (f\<lparr>fr_stack := drop n (fr_stack f)\<rparr>)) \<Longrightarrow> wp (popTopics n) Q E f"
proof (induction n arbitrary: f Q)
  case (Suc n)
  then obtain x st where st: "fr_stack f = x # st"
    by (cases "fr_stack f") auto
  then show ?case
    using Suc.IH [of "f\<lparr>fr_stack := st\<rparr>"] Suc.prems by (simp add: wp_simps)
qed (simp add: wp_simps)

lemma stack_ok_drop: "stack_ok st \<Longrightarrow> stack_ok (drop n st)"
  by (auto simp: stack_ok_def list_all_iff dest: in_set_dropD)

lemma exec_log:
  assumes "\<And>f. P f \<Longrightarrow> \<not> read_only (fr_evm f)"
  shows "exec_ok cl G P (k + 2) 0 (need_at 0 1) allow (makeLog k)"
  unfolding exec_ok_def
proof (intro allI impI)
  fix f
  assume f: "frame_ok f" "k + 2 \<le> length (fr_stack f)" "P f" "need_at 0 1 (fr_stack f) \<le> int (length (mem_store (fr_mem f)))"
  then obtain x y st where st: "fr_stack f = x # y # st" and *: "0 \<le> x" "0 \<le> y" "stack_ok st" "k \<le> length st"
    by (auto simp: numeral_nat Suc_le_length_iff frame_ok_def)
  let ?f = "f\<lparr>fr_stack := drop k st\<rparr>"
  have "wp (vm_Get (Int64 x) (Int64 y)) Q E ?f" if "\<And>d. Q d ?f" for Q E
    using wp_Get(1) [OF f(1) *(1,2), of ?f] f(4) st that by simp
  moreover have "exec_post f (k + 2) 0 (allow f) [] (?f\<lparr>fr_evm := (fr_evm f)\<lparr>ev_StateDB := AddLog l (ev_StateDB (fr_evm f))\<rparr>\<rparr>)" for l
    using f(3) assms AddLog_evolves [OF frame_state_ok [OF f(1)]] * st stack_ok_drop
    by (intro exec_post_state [OF f(1)]) simp_all
  ultimately show "wp (makeLog k cl) (exec_post f (k + 2) 0 (allow f)) (frame_rel f) f"
    using st *(4) wp_popTopics [of k "f\<lparr>fr_stack := st\<rparr>"] by (simp add: makeLog_def wp_simps)
qed

section \<open>Control flow and the stack\<close>

lemma wp_jump_to:
  assumes "frame_ok f" "0 \<le> x" "fr_contract g = fr_contract f" "frame_rel f g" "Q [] (g\<lparr>fr_pc := Uint64 x\<rparr>)"
  shows "wp (jump_to x) Q (frame_rel f) g"
proof -
  obtain ok d where "destinations_has (ct_CodeHash (fr_contract f)) (ct_Code (fr_contract f)) x (\<lambda>_. None) = Ret (ok, d)"
    using destinations_has_spec [OF assms(2) input_len(2) [OF assms(1)], of "\<lambda>_. None" "ct_CodeHash (fr_contract f)"] by auto
  then show ?thesis
    using assms(3-5) by (simp add: jump_to_def wp_simps)
qed

lemma exec_jump: "exec_ok cl G P 1 0 need allow opJump"
proof (rule exec_ok1)
  fix f x st
  assume *: "frame_ok f" "fr_stack f = x # st" "0 \<le> x" "stack_ok st"
  then show "wp (opJump cl) (exec_post f 1 0 (allow f)) (frame_rel f) f"
    using frame_rel_refl [OF *(1)] by (simp add: opJump_def wp_bind wp_pop wp_jump_to [OF *(1,3)] exec_post_mem)
qed

lemma exec_jumpi: "exec_ok cl G P 2 0 need allow opJumpi"
proof (rule exec_ok2)
  fix f x y st
  assume *: "frame_ok f" "fr_stack f = x # y # st" "0 \<le> x" "stack_ok st"
  then show "wp (opJumpi cl) (exec_post f 2 0 (allow f)) (frame_rel f) f"
    using frame_rel_refl [OF *(1)] by (simp add: opJumpi_def wp_simps wp_jump_to [OF *(1,3)] exec_post_mem)
qed

lemma sint_small: "unat (w :: u64) < 2 ^ 63 \<Longrightarrow> sint w = int (unat w)"
proof -
  assume w: "unat w < 2 ^ 63"
  then have "int (unat w) < int (2 ^ 63)"
    by (simp only: of_nat_less_iff)
  then have "uint w < 2 ^ 63"
    by (simp only: uint_nat) simp
  then have "signed_take_bit 63 (uint w) = uint w"
    using uint_ge_0 [of w] by (intro signed_take_bit_int_eq_self) linarith+
  then show "sint w = int (unat w)"
    by (simp only: sint_uint len_num1 uint_nat) simp
qed

lemma exec_push:
  assumes "\<And>f. P f \<Longrightarrow> unat (fr_pc f) < 2 ^ 62"
  shows "exec_ok cl G P 0 1 need allow (makePush k n)"
proof (rule exec_ok0)
  fix f
  assume *: "frame_ok f" "P f"
  let ?len = "int (length (ct_Code (fr_contract f)))" and ?start = "sint (fr_pc f + 1)"
  let ?a = "if ?start < ?len then ?start else ?len"
  let ?b = "if ?a + int n < ?len then ?a + int n else ?len"
  have "unat (fr_pc f + 1) = unat (fr_pc f) + 1"
    using assms [OF *(2)] by (simp add: unat_word_ariths)
  then have "0 \<le> ?start"
    using assms [OF *(2)] by (simp add: sint_small)
  then have "0 \<le> ?a" "?a \<le> ?b" "?b \<le> ?len"
    by auto
  then have "\<not> ?a < 0" "nat ?a \<le> nat ?b" "nat ?b \<le> length (ct_Code (fr_contract f))"
    by linarith+
  then obtain d where d: "(if ?a < 0 then Panic else go_slice (ct_Code (fr_contract f)) (nat ?a) (nat ?b)) = Ret d"
    by (simp only: go_slice_def if_False if_True simp_thms)
  have post: "exec_post f 0 1 (allow f) [] (f\<lparr>fr_stack := SetBytes r # fr_stack f, fr_pc := fr_pc f + k\<rparr>)" for r
    using *(1) by (intro exec_post_mem) (simp_all add: frame_ok_def)
  show "wp (makePush k n cl) (exec_post f 0 1 (allow f)) (frame_rel f) f"
    unfolding makePush_def Let_def wp_bind wp_gets wp_go wp_push wp_modify wp_done case_prod_conv d go.case
    using post by simp
qed

lemma wp_dup: "wp (stack_dup n) Q E f = (n - 1 < length (fr_stack f) \<and> Q () (f\<lparr>fr_stack := fr_stack f ! (n - 1) # fr_stack f\<rparr>))"
  by (simp add: wp_def stack_dup_def go_index_def)

lemma wp_swap:
  "wp (stack_swap n) Q E f = (n - 1 < length (fr_stack f) \<and>
     Q () (f\<lparr>fr_stack := (fr_stack f)[n - 1 := fr_stack f ! 0, 0 := fr_stack f ! (n - 1)]\<rparr>))"
  by (simp add: wp_def stack_swap_def Let_def)

lemma exec_dup: "0 < n \<Longrightarrow> exec_ok cl G P n (n + 1) need allow (makeDup n)"
  by (auto simp: exec_ok_def makeDup_def wp_simps wp_dup frame_ok_def stack_ok_nth)

lemma stack_ok_swap:
  assumes "stack_ok st" "i < length st"
  shows "stack_ok (st[i := st ! 0, 0 := st ! i])"
proof -
  have "0 \<le> st ! 0" "0 \<le> st ! i"
    using assms stack_ok_nth [OF assms(1)] by (metis gr_zeroI not_less_zero) (use assms stack_ok_nth in blast)
  then show ?thesis
    using assms(1) by (auto simp: stack_ok_def list_all_iff dest!: subsetD [OF set_update_subset_insert])
qed

lemma exec_swap: "exec_ok cl G P (n + 1) (n + 1) need allow (makeSwap n)"
  by (auto simp: exec_ok_def makeSwap_def wp_simps wp_swap frame_ok_def stack_ok_swap Suc_le_eq)

end
