(* ===== verification/VM_GasCost.thy ===== *)
theory VM_GasCost
  imports VM_Exec
begin

text \<open>
  The gas and memory functions satisfy their contracts: they do not panic, change nothing but
  caches, the cost counter of the memory and the gas of the next call, refuse memory that cannot
  be paid for, and charge at least one unit, on top of what a call hands to its callee.
\<close>

section \<open>Memory sizes\<close>

lemma calcMemSize_nonneg: "0 \<le> off \<Longrightarrow> 0 \<le> l \<Longrightarrow> 0 \<le> calcMemSize off l"
  by (simp add: calcMemSize_def)

definition need_call :: "nat \<Rightarrow> int list \<Rightarrow> int" where
  "need_call i st = BigMax (calcMemSize (st ! (i + 2)) (st ! (i + 3))) (calcMemSize (st ! i) (st ! (i + 1)))"

lemmas memory_defs = memory_ok_def mem_at_def vm_bind_def stack_Back_def go_index_def vm_ret_def need_call_def

lemma memory_ok_table:
  "memory_ok 2 (need_at 0 1) memorySha3" "memory_ok 3 (need_at 0 2) memoryCallDataCopy"
  "memory_ok 3 (need_at 0 2) memoryReturnDataCopy" "memory_ok 3 (need_at 0 2) memoryCodeCopy"
  "memory_ok 4 (need_at 1 3) memoryExtCodeCopy" "memory_ok 1 (need_off 32) memoryMLoad"
  "memory_ok 2 (need_off 1) memoryMStore8" "memory_ok 2 (need_off 32) memoryMStore"
  "memory_ok 3 (need_at 1 2) memoryCreate" "memory_ok 7 (need_call 3) memoryCall"
  "memory_ok 6 (need_call 2) memoryDelegateCall" "memory_ok 6 (need_call 2) memoryStaticCall"
  "memory_ok 2 (need_at 0 1) memoryReturn" "memory_ok 2 (need_at 0 1) memoryRevert"
  by (auto simp: memory_defs memorySha3_def memoryCallDataCopy_def memoryReturnDataCopy_def memoryCodeCopy_def
      memoryExtCodeCopy_def memoryMLoad_def memoryMStore8_def memoryMStore_def memoryCreate_def memoryCall_def
      memoryDelegateCall_def memoryStaticCall_def memoryReturn_def memoryRevert_def BigMax_def
      intro!: calcMemSize_nonneg stack_ok_nth)

lemma memory_ok_log: "memory_ok (k + 2) (need_at 0 1) memoryLog"
  by (auto simp: memory_defs memoryLog_def intro!: calcMemSize_nonneg stack_ok_nth)

section \<open>Arithmetic of gas\<close>

lemma wp_gasAdd: "wp (gasAdd x y) Q E f = (if unat x + unat y < 2 ^ 64 then Q (x + y) f else E f)"
proof (cases "SafeAdd x y")
  case (Pair z o')
  then show ?thesis
    using SafeAdd_spec [of x y z] SafeAdd_spec [of x y "x + y"] by (cases o') (auto simp: gasAdd_def wp_simps)
qed

lemma wp_gasMul: "wp (gasMul x y) Q E f = (if unat x * unat y < 2 ^ 64 then Q (x * y) f else E f)"
proof (cases "SafeMul x y")
  case (Pair z o')
  then show ?thesis
    using SafeMul_spec [of x y z] SafeMul_spec [of x y "x * y"] by (cases o') (auto simp: gasMul_def wp_simps)
qed

lemma wp_gasUint64: "0 \<le> v \<Longrightarrow> wp (gasUint64 v) Q E f = (if v < 2 ^ 64 then Q (Uint64 v) f else E f)"
  using BitLen_le_iff [of v 64] by (auto simp: gasUint64_def bigUint64_def wp_simps not_less)

lemma gasAdd_unat: "unat x + unat y < 2 ^ 64 \<Longrightarrow> unat (x + y :: u64) = unat x + unat y"
  by (simp add: unat_word_ariths)

lemma wp_memoryGasCost:
  assumes "E f" "\<And>fee m. mem_store m = mem_store (fr_mem f) \<Longrightarrow> ms \<le> 0xffffffffe0 \<Longrightarrow> Q fee (f\<lparr>fr_mem := m\<rparr>)"
  shows "wp (memoryGasCost ms) Q E f"
  using assms(1) assms(2) [of "fr_mem f"] assms(2) [of "(fr_mem f)\<lparr>mem_lastGasCost := _\<rparr>"]
  by (auto simp: wp_def memoryGasCost_def Let_def not_less)

lemma gas_table:
  "evm_ok evm \<Longrightarrow> Calls (ev_gasTable evm) = 700 \<and> SLoad (ev_gasTable evm) = 200 \<and> GasTable.Balance (ev_gasTable evm) = 400 \<and>
     ExtcodeSize (ev_gasTable evm) = 700 \<and> ExtcodeCopy (ev_gasTable evm) = 700"
  by (auto simp: evm_ok_def GasTableHomestead_def GasTableHF1_def)

lemma gas_rel_refl: "frame_ok f \<Longrightarrow> gas_rel f f"
  by (simp add: gas_rel_def frame_rel_refl)

lemma gas_rel_mem [simp]: "mem_store m = mem_store (fr_mem f) \<Longrightarrow> gas_rel f (f\<lparr>fr_mem := m\<rparr>) = gas_rel f f"
  by (simp add: gas_rel_def)

section \<open>Plain costs\<close>

lemma gas_const: "c \<noteq> 0 \<Longrightarrow> gas_ok False P n 1 (\<lambda>_. 0) (constGasFunc c)" "gas_ok False P n 0 (\<lambda>_. 0) (constGasFunc c)"
  by (simp_all add: gas_ok_def constGasFunc_def wp_simps gas_rel_refl unat_gt_0 Suc_le_eq)

lemma gas_stack:
  "gas_ok False P n 1 (\<lambda>_. 0) gasPush" "gas_ok False P n 1 (\<lambda>_. 0) gasSwap" "gas_ok False P n 1 (\<lambda>_. 0) gasDup"
  by (simp_all add: gas_ok_def gasPush_def gasSwap_def gasDup_def wp_simps gas_rel_refl)

lemma gas_tab:
  "gas_ok False P n 1 (\<lambda>_. 0) gasBalance" "gas_ok False P n 1 (\<lambda>_. 0) gasExtCodeSize" "gas_ok False P n 1 (\<lambda>_. 0) gasSLoad"
  using gas_table
  by (auto simp: gas_ok_def gasBalance_def gasExtCodeSize_def gasSLoad_def gasTab_def wp_simps gas_rel_refl frame_ok_def)

lemma gas_exp: "gas_ok False P 2 1 (\<lambda>_. 0) gasExp"
  by (auto simp: gas_ok_def gasExp_def gasTab_def wp_simps wp_gasAdd gasAdd_unat gas_rel_refl)

lemma gas_memory_step:
  "gas_ok True P n 1 (\<lambda>_. 0) gasMLoad" "gas_ok True P n 1 (\<lambda>_. 0) gasMStore8" "gas_ok True P n 1 (\<lambda>_. 0) gasMStore"
  "gas_ok True P n 1 (\<lambda>_. 0) gasCreate"
  by (auto simp: gas_ok_def gasMLoad_def gasMStore8_def gasMStore_def gasCreate_def wp_bind wp_gasAdd gasAdd_unat gas_rel_refl
      intro!: wp_memoryGasCost)

lemma gas_memory_only: "gas_ok True P n 0 (\<lambda>_. 0) gasReturn" "gas_ok True P n 0 (\<lambda>_. 0) gasRevert"
  by (auto simp: gas_ok_def gasReturn_def gasRevert_def gas_rel_refl intro!: wp_memoryGasCost)

lemma frame_nth: "frame_ok f \<Longrightarrow> i < length (fr_stack f) \<Longrightarrow> 0 \<le> fr_stack f ! i"
  by (simp add: frame_ok_def stack_ok_nth)

lemma gas_copy:
  "gas_ok True P 3 1 (\<lambda>_. 0) gasCallDataCopy" "gas_ok True P 3 1 (\<lambda>_. 0) gasReturnDataCopy"
  "gas_ok True P 3 1 (\<lambda>_. 0) gasCodeCopy" "gas_ok True P 2 1 (\<lambda>_. 0) gasSha3"
  by (auto simp: gas_ok_def gasCallDataCopy_def gasReturnDataCopy_def gasCodeCopy_def gasSha3_def wp_simps wp_gasAdd wp_gasMul
      wp_gasUint64 frame_nth gasAdd_unat gas_rel_refl intro!: wp_memoryGasCost)

lemma gas_extcodecopy: "gas_ok True P 4 1 (\<lambda>_. 0) gasExtCodeCopy"
  using gas_table
  by (auto simp: gas_ok_def gasExtCodeCopy_def gasTab_def wp_simps wp_gasAdd wp_gasMul
      wp_gasUint64 frame_nth gasAdd_unat gas_rel_refl frame_ok_def [of "_ :: frame"] intro!: wp_memoryGasCost)

lemma gas_log: "gas_ok True P (k + 2) 1 (\<lambda>_. 0) (makeGasLog n)"
  by (auto simp: gas_ok_def makeGasLog_def wp_simps wp_gasAdd wp_gasMul
      wp_gasUint64 frame_nth gasAdd_unat gas_rel_refl intro!: wp_memoryGasCost)

section \<open>Costs that depend on the state\<close>

lemma gas_rel_state:
  assumes "frame_ok f" "gas_rel f g" "evolves (ev_db (fr_evm f)) (read_only (fr_evm f)) (ev_StateDB (fr_evm g)) s"
  shows "gas_rel f (g\<lparr>fr_evm := (fr_evm g)\<lparr>ev_StateDB := s\<rparr>\<rparr>)"
  using assms evm_rel_state by (auto simp: gas_rel_def frame_rel_def)

lemma gas_rel_ok: "frame_ok f \<Longrightarrow> gas_rel f g \<Longrightarrow> frame_ok g"
  using frame_relD by (auto simp: gas_rel_def frame_ok_def mem_ok_def)

text \<open>The database and the mode of a frame that a gas function has reached.\<close>

lemma gas_rel_evm:
  assumes "frame_ok f" "gas_rel f g"
  shows "ev_db (fr_evm g) = ev_db (fr_evm f)" "read_only (fr_evm g) = read_only (fr_evm f)"
    "ev_gasTable (fr_evm g) = ev_gasTable (fr_evm f)" "vm_state_ok (ev_db (fr_evm f)) (ev_StateDB (fr_evm g))"
proof -
  have core: "evm_core (fr_evm g) = evm_core (fr_evm f)"
    using assms(2) by (simp add: gas_rel_def frame_rel_def evm_rel_def)
  show "ev_db (fr_evm g) = ev_db (fr_evm f)" "read_only (fr_evm g) = read_only (fr_evm f)"
    "ev_gasTable (fr_evm g) = ev_gasTable (fr_evm f)"
    by (fact evm_coreD [OF core])+
  then show "vm_state_ok (ev_db (fr_evm f)) (ev_StateDB (fr_evm g))"
    using frame_state_ok [OF gas_rel_ok [OF assms]] by simp
qed

text \<open>A query in a gas function.\<close>

lemma wp_gas_query:
  assumes f: "frame_ok f" "gas_rel f g"
    and q: "\<And>s r s'. vm_state_ok (ev_db (fr_evm f)) s \<Longrightarrow> q (ev_db (fr_evm f)) s = (r, s') \<Longrightarrow>
      evolves (ev_db (fr_evm f)) (read_only (fr_evm f)) s s'"
    and Q: "\<And>r h. gas_rel f h \<Longrightarrow> Q r h"
  shows "wp (vm_query q) Q E g"
proof -
  obtain r s where "q (ev_db (fr_evm f)) (ev_StateDB (fr_evm g)) = (r, s)"
    by fastforce
  moreover from this have "gas_rel f (g\<lparr>fr_evm := (fr_evm g)\<lparr>ev_StateDB := s\<rparr>\<rparr>)"
    using q gas_rel_evm [OF f] gas_rel_state [OF f] by blast
  ultimately show ?thesis
    using Q by (simp add: wp_query gas_rel_evm [OF f])
qed

lemma wp_gas_queries:
  assumes f: "frame_ok f" "gas_rel f g"
  shows "(\<And>r h. gas_rel f h \<Longrightarrow> Q1 r h) \<Longrightarrow> wp (vm_query (\<lambda>be. GetBalance be a)) Q1 E g"
    "(\<And>r h. gas_rel f h \<Longrightarrow> Q2 r h) \<Longrightarrow> wp (vm_query (\<lambda>be. state_Empty be a)) Q2 E g"
    "(\<And>r h. gas_rel f h \<Longrightarrow> Q2 r h) \<Longrightarrow> wp (vm_query (\<lambda>be. state_Exist be a)) Q2 E g"
    "(\<And>r h. gas_rel f h \<Longrightarrow> Q2 r h) \<Longrightarrow> wp (vm_query (\<lambda>be. HasSuicided be a)) Q2 E g"
  by (rule wp_gas_query [OF f]; simp add: GetBalance_evolves(1) Empty_evolves Exist_evolves(1) HasSuicided_evolves)+

lemma wp_gas_refund:
  assumes f: "frame_ok f" "gas_rel f g" and w: "\<not> read_only (fr_evm f)"
    and Q: "\<And>h. gas_rel f h \<Longrightarrow> Q () h"
  shows "wp (vm_update (\<lambda>be. AddRefund x)) Q E g"
  using Q gas_rel_state [OF f] AddRefund_evolves [OF gas_rel_evm(4) [OF f]] w by (simp add: wp_update)

lemma gas_rel_frame: "gas_rel f g \<Longrightarrow> fr_stack g = fr_stack f" "gas_rel f g \<Longrightarrow> fr_contract g = fr_contract f"
  by (simp_all add: gas_rel_def)

lemmas wp_basic = wp_bind wp_ret wp_err wp_gets wp_if wp_Let wp_case_prod wp_Back wp_sum

lemma gas_sstore:
  assumes "\<And>f. P f \<Longrightarrow> \<not> read_only (fr_evm f)"
  shows "gas_ok False P 2 1 (\<lambda>_. 0) gasSStore"
proof -
  have "wp (gasSStore ms) (\<lambda>cost f'. gas_rel f f' \<and> 1 \<le> unat cost) (gas_rel f) f"
    if f: "frame_ok f" "2 \<le> length (fr_stack f)" "P f" for f ms
    unfolding gasSStore_def wp_bind wp_Back wp_gets
    by (intro conjI wp_gas_query [OF f(1) gas_rel_refl [OF f(1)] GetState_evolves])
      (use f(2) in \<open>auto simp: wp_basic gas_rel_refl intro!: wp_gas_refund [OF f(1) _ assms [OF f(3)]]\<close>)
  then show ?thesis
    by (simp add: gas_ok_def)
qed

lemma wp_suicideGas:
  assumes f: "frame_ok f" "1 \<le> length (fr_stack f)" and Q: "\<And>gas h. gas_rel f h \<Longrightarrow> Q gas h"
  shows "wp suicideGas Q E f"
proof -
  have "0 < length (fr_stack f)"
    using f(2) by linarith
  then show ?thesis
    using gas_rel_refl [OF f(1)] unfolding suicideGas_def gasTab_def Let_def
    by (auto simp: wp_basic Q
        intro!: wp_gas_queries [OF f(1)])
qed

lemma gas_suicide:
  assumes "\<And>f. P f \<Longrightarrow> \<not> read_only (fr_evm f)"
  shows "gas_ok False P 1 0 (\<lambda>_. 0) gasSuicide"
proof -
  have "wp (gasSuicide ms) (\<lambda>cost f'. gas_rel f f') (gas_rel f) f"
    if f: "frame_ok f" "1 \<le> length (fr_stack f)" "P f" for f ms
    unfolding gasSuicide_def wp_bind [of suicideGas]
  proof (rule wp_suicideGas [OF f(1,2)])
    fix gas h
    assume h: "gas_rel f h"
    show "wp (vm_bind (vm_gets (\<lambda>f. ct_self (fr_contract f))) (\<lambda>self. vm_bind (vm_query (\<lambda>be. HasSuicided be self)) (\<lambda>suicided.
        vm_bind (if suicided then vm_ret () else vm_update (\<lambda>be. AddRefund SuicideRefundGas)) (\<lambda>_. vm_ret gas))))
        (\<lambda>cost. gas_rel f) (gas_rel f) h"
      unfolding wp_bind wp_gets by (rule wp_gas_query [OF f(1) h HasSuicided_evolves])
        (auto simp: wp_basic intro!: wp_gas_refund [OF f(1) _ assms [OF f(3)]])
  qed
  then show ?thesis
    by (simp add: gas_ok_def)
qed

section \<open>Costs of calls\<close>

text \<open>The gas a call instruction may get back: what was set aside for the callee, with its stipend.\<close>

definition allow_value :: "frame \<Rightarrow> nat" where
  "allow_value f = unat (ev_callGasTemp (fr_evm f)) + (if fr_stack f ! 2 \<noteq> 0 then 2300 else 0)"

definition allow_plain :: "frame \<Rightarrow> nat" where
  "allow_plain f = unat (ev_callGasTemp (fr_evm f))"

lemma wp_addCallGas:
  assumes f: "gas_rel f g" "0 < length (fr_stack f)" and E: "\<And>h. gas_rel f h \<Longrightarrow> E h"
    and Q: "\<And>cost h. gas_rel f h \<Longrightarrow> unat cost = unat gas + allow_plain h \<Longrightarrow> Q cost h"
  shows "wp (addCallGas gas) Q E g"
proof -
  have h: "gas_rel f (g\<lparr>fr_evm := (fr_evm g)\<lparr>ev_callGasTemp := t\<rparr>\<rparr>)" for t
    using f(1) by (simp add: gas_rel_def frame_rel_def)
  have "callGas gt a b c \<noteq> Inl errExecutionReverted" "callGas gt a b c \<noteq> Inl ErrCodeStoreOutOfGas" for gt a b c
    by (simp_all add: callGas_def Let_def)
  then show ?thesis
    using f h E Q [OF h, of "gas + _"]
    by (auto simp: addCallGas_def wp_simps wp_gasAdd gas_rel_frame gasAdd_unat allow_plain_def split: sum.split)
qed

lemma gas_plain_calls:
  "gas_ok True P 6 1 allow_plain gasDelegateCall" "gas_ok True P 6 1 allow_plain gasStaticCall"
proof -
  have "wp (vm_bind (memoryGasCost ms) (\<lambda>gas. vm_bind (gasTab Calls) (\<lambda>c. vm_bind (gasAdd gas c) addCallGas)))
      (\<lambda>cost f'. gas_rel f f' \<and> 1 + allow_plain f' \<le> unat cost \<and> ms \<le> 0xffffffffe0) (gas_rel f) f"
    if f: "frame_ok f" "6 \<le> length (fr_stack f)" for f ms
    unfolding wp_bind
  proof (rule wp_memoryGasCost)
    fix fee :: u64 and m :: Memory
    assume m: "mem_store m = mem_store (fr_mem f)" "ms \<le> 0xffffffffe0"
    have c: "Calls (ev_gasTable (fr_evm f)) = 700"
      using gas_table f(1) by (simp add: frame_ok_def)
    have rel: "gas_rel f (f\<lparr>fr_mem := m\<rparr>)"
      using m(1) gas_rel_refl [OF f(1)] by simp
    show "wp (gasTab Calls) (\<lambda>c. wp (gasAdd fee c) (\<lambda>x. wp (addCallGas x)
        (\<lambda>cost f'. gas_rel f f' \<and> 1 + allow_plain f' \<le> unat cost \<and> ms \<le> 0xffffffffe0) (gas_rel f)) (gas_rel f))
        (gas_rel f) (f\<lparr>fr_mem := m\<rparr>)"
      using rel f(2) m(2) c by (auto simp: gasTab_def wp_gets wp_gasAdd gasAdd_unat intro!: wp_addCallGas)
  qed (use gas_rel_refl [OF f(1)] in simp)
  then show "gas_ok True P 6 1 allow_plain gasDelegateCall" "gas_ok True P 6 1 allow_plain gasStaticCall"
    by (simp_all add: gas_ok_def gasDelegateCall_def gasStaticCall_def)
qed

lemma wp_callTail:
  assumes f: "gas_rel f g" "7 \<le> length (fr_stack f)" and base: "1 + (if fr_stack f ! 2 \<noteq> 0 then 2300 else 0) \<le> unat base"
  shows "wp (vm_bind (memoryGasCost ms) (\<lambda>memoryGas. vm_bind (gasAdd base memoryGas) addCallGas))
    (\<lambda>cost f'. gas_rel f f' \<and> 1 + allow_value f' \<le> unat cost \<and> ms \<le> 0xffffffffe0) (gas_rel f) g"
  unfolding wp_bind
proof (rule wp_memoryGasCost)
  fix fee :: u64 and m :: Memory
  assume m: "mem_store m = mem_store (fr_mem g)" "ms \<le> 0xffffffffe0"
  then have "gas_rel f (g\<lparr>fr_mem := m\<rparr>)"
    using f(1) by (simp add: gas_rel_def)
  then show "wp (gasAdd base fee) (\<lambda>x. wp (addCallGas x)
      (\<lambda>cost f'. gas_rel f f' \<and> 1 + allow_value f' \<le> unat cost \<and> ms \<le> 0xffffffffe0) (gas_rel f)) (gas_rel f) (g\<lparr>fr_mem := m\<rparr>)"
    using f(2) m(2) base
    by (auto simp: wp_gasAdd gasAdd_unat allow_value_def allow_plain_def gas_rel_frame split: if_splits intro!: wp_addCallGas)
qed (rule f(1))

lemma calls_cost: "frame_ok f \<Longrightarrow> gas_rel f g \<Longrightarrow> Calls (ev_gasTable (fr_evm g)) = 700"
  using gas_table [of "fr_evm f"] gas_rel_evm(3) [of f g] by (simp add: frame_ok_def)

lemma gas_callcode: "gas_ok True P 7 1 allow_value gasCallCode"
  unfolding gas_ok_def
proof (intro allI impI)
  fix f :: frame and ms :: u64
  assume f: "frame_ok f" "7 \<le> length (fr_stack f)"
  have "2 < length (fr_stack f)"
    using f(2) by linarith
  then have "wp (gasCallCode ms) (\<lambda>cost f'. gas_rel f f' \<and> 1 + allow_value f' \<le> unat cost \<and> ms \<le> 0xffffffffe0) (gas_rel f) f"
    unfolding gasCallCode_def gasTab_def wp_bind [of "vm_gets _"] wp_gets wp_bind [of "stack_Back _"] wp_Back wp_Let
    using gas_rel_refl [OF f(1)] f(2) calls_cost [OF f(1) gas_rel_refl [OF f(1)]] by (intro conjI wp_callTail) auto
  then show "wp (gasCallCode ms) (\<lambda>cost f'. gas_rel f f' \<and> 1 + allow_value f' \<le> unat cost \<and> (True \<longrightarrow> ms \<le> 0xffffffffe0)) (gas_rel f) f"
    by simp
qed

lemma gas_call: "gas_ok True P 7 1 allow_value gasCall"
  unfolding gas_ok_def
proof (intro allI impI)
  fix f :: frame and ms :: u64
  assume f: "frame_ok f" "7 \<le> length (fr_stack f)"
  let ?Q = "\<lambda>cost f'. gas_rel f f' \<and> 1 + allow_value f' \<le> unat cost \<and> ms \<le> 0xffffffffe0"
  let ?v = "fr_stack f ! 2" and ?K = "\<lambda>gas. Let (if fr_stack f ! 2 \<noteq> 0 then gas + CallValueTransferGas else gas) (\<lambda>gas.
     vm_bind (memoryGasCost ms) (\<lambda>memoryGas. vm_bind (gasAdd gas memoryGas) addCallGas))"
  have tail: "wp (?K gas) ?Q (gas_rel f) g" if "gas = 700 \<or> gas = 25700" "gas_rel f g" for gas g
    unfolding wp_Let using that f(2) by (intro wp_callTail) auto
  have len: "2 < length (fr_stack f)" "1 < length (fr_stack f)"
    using f(2) by linarith+
  note q = wp_gas_queries [OF f(1) gas_rel_refl [OF f(1)]]
  have "wp (gasCall ms) ?Q (gas_rel f) f"
    unfolding gasCall_def gasTab_def wp_bind [of "vm_gets _"] wp_gets wp_bind [of "stack_Back _"] wp_Back wp_Let
      calls_cost [OF f(1) gas_rel_refl [OF f(1)]]
    using len gas_rel_refl [OF f(1)] tail
    by (auto simp: wp_bind [of "if _ then _ else _"] wp_if wp_bind [of "vm_query _"] wp_ret wp_bind [of "vm_bind _ _"] intro!: q)
  then show "wp (gasCall ms) (\<lambda>cost f'. gas_rel f f' \<and> 1 + allow_value f' \<le> unat cost \<and> (True \<longrightarrow> ms \<le> 0xffffffffe0)) (gas_rel f) f"
    by simp
qed

end
