(* ===== verification/VM_Calls.thy ===== *)
theory VM_Calls
  imports VM_GasCost
begin

text \<open>
  What the instructions rely on when they call: \<open>call_ok\<close> is the contract of the four calls of the
  machine, \<open>create_ok\<close> that of \<open>Create\<close>. A call returns, hands back no more gas than it got, leaves
  a state that can be reverted past it, and after an error a state that no query can tell from
  the one before. The calling instructions satisfy \<open>exec_ok\<close> under this contract.
\<close>

definition call_ok :: "EVM \<Rightarrow> u64 \<Rightarrow> call_result \<Rightarrow> bool" where
  "call_ok evm gas c \<longleftrightarrow>
     (\<exists>ret g err evm'. c = Ret ((ret, g, err), evm') \<and> g \<le> gas \<and> evm_rel evm evm' \<and> length ret < 2 ^ 62 \<and>
        (err \<noteq> None \<longrightarrow> sim (ev_db evm) (ev_StateDB evm') (ev_StateDB evm)))"

definition create_ok :: "EVM \<Rightarrow> u64 \<Rightarrow> ((bytes \<times> address \<times> u64 \<times> vm_error option) \<times> EVM) go \<Rightarrow> bool" where
  "create_ok evm gas c \<longleftrightarrow>
     (\<exists>ret addr g err evm'. c = Ret ((ret, addr, g, err), evm') \<and> g \<le> gas \<and> evm_rel evm evm' \<and> length ret < 2 ^ 62)"

text \<open>The calls at a depth of the machine, with gas up to a bound.\<close>

definition calls_ok :: "calls \<Rightarrow> nat \<Rightarrow> nat \<Rightarrow> bool" where
  "calls_ok cl G D \<longleftrightarrow>
     (\<forall>caller addr input gas value evm.
        evm_ok evm \<and> ev_depth evm = D \<and> length input < 2 ^ 62 \<and> 0 \<le> value \<and> unat gas \<le> G \<longrightarrow>
          ((read_only evm \<longrightarrow> value = 0) \<longrightarrow> call_ok evm gas (cl_Call cl caller addr input gas value evm)) \<and>
          call_ok evm gas (cl_CallCode cl caller addr input gas value evm) \<and>
          ((\<exists>c. caller = ContractOf c \<and> 0 \<le> ct_value c) \<longrightarrow> call_ok evm gas (cl_DelegateCall cl caller addr input gas evm)) \<and>
          call_ok evm gas (cl_StaticCall cl caller addr input gas evm) \<and>
          (\<not> read_only evm \<longrightarrow> create_ok evm gas (cl_Create cl caller input gas value evm)))"

lemma wp_call [wp_simps]:
  "wp (vm_call g) Q E f =
     (case g (fr_evm f) of Ret (r, evm) \<Rightarrow> Q r (f\<lparr>fr_evm := evm\<rparr>) | Panic \<Rightarrow> False | NoFuel \<Rightarrow> False)"
  by (simp add: wp_def vm_call_def split: go.split prod.split)

lemma unat_add_le: "unat (x + y :: u64) \<le> unat x + unat y"
  by (simp add: unat_word_ariths)

text \<open>The frame between the call and the end of a calling instruction.\<close>

lemma wp_finishCall:
  assumes f: "frame_ok f" "frame_rel f g" "fr_contract g = fr_contract f" "fr_mem g = fr_mem f"
    and st: "stack_ok (fr_stack g)" "length (fr_stack g) + n = length (fr_stack f)"
    and mem: "0 \<le> ro" "0 \<le> rs" "calcMemSize ro rs \<le> int (length (mem_store (fr_mem f)))"
    and ret: "unat rg \<le> a" "length ret < 2 ^ 62"
  shows "wp (finishCall ro rs ret rg err) (exec_post f n 1 a) (frame_rel f) g"
proof -
  let ?g = "g\<lparr>fr_stack := (if err \<noteq> None then 0 else 1) # fr_stack g\<rparr>"
  have post: "exec_post f n 1 a ret (?g\<lparr>fr_mem := m, fr_contract := (fr_contract f)\<lparr>ct_Gas := ct_Gas (fr_contract f) + rg\<rparr>\<rparr>)"
    if "length (mem_store m) = length (mem_store (fr_mem f))" for m
    using that f st ret unat_add_le [of "ct_Gas (fr_contract f)" rg] by (simp add: exec_post_def frame_rel_def)
  have set: "wp (if err = None \<or> err = Some errExecutionReverted then vm_Set (Uint64 ro) (Uint64 rs) ret else vm_ret ())
      (\<lambda>_. wp (vm_bind (vm_AddGas rg) (\<lambda>_. vm_ret ret)) (exec_post f n 1 a) (frame_rel f)) (frame_rel f) ?g"
  proof (cases "err = None \<or> err = Some errExecutionReverted")
    case True
    have "wp (vm_Set (Uint64 ro) (Uint64 rs) ret)
      (\<lambda>_. wp (vm_bind (vm_AddGas rg) (\<lambda>_. vm_ret ret)) (exec_post f n 1 a) (frame_rel f)) (frame_rel f) ?g"
      by (rule wp_Set [OF f(1) mem(1,2)]) (use mem(3) f(3,4) post in \<open>simp_all add: wp_bind wp_AddGas wp_ret\<close>)
    then show ?thesis
      using True by simp
  next
    case False
    have "?g\<lparr>fr_mem := fr_mem f\<rparr> = ?g"
      using f(4) by simp
    then show ?thesis
      using False post [of "fr_mem f"] f(3) by (auto simp: wp_bind wp_AddGas wp_ret)
  qed
  then show ?thesis
    unfolding finishCall_def wp_bind [of "push _"] wp_push wp_bind [of "if _ then _ else _"] by simp
qed

lemma need_callD:
  assumes "need_call i st \<le> k"
  shows "calcMemSize (st ! (i + 2)) (st ! (i + 3)) \<le> k" "calcMemSize (st ! i) (st ! (i + 1)) \<le> k"
  using assms by (auto simp: need_call_def BigMax_def split: if_splits)

lemma args_len:
  assumes "frame_ok f" "calcMemSize off sz \<le> int (length (mem_store (fr_mem f)))" "0 \<le> off" "0 \<le> sz" "int (length (d :: bytes)) = sz"
  shows "length d < 2 ^ 62"
  using assms mem_len [OF assms(1)] by (auto simp: calcMemSize_def split: if_splits)

text \<open>The arguments of a call in memory, and the call with the end of its instruction.\<close>

lemma wp_args:
  assumes f: "frame_ok f" "0 \<le> off" "0 \<le> sz" "calcMemSize off sz \<le> int (length (mem_store (fr_mem f)))" "fr_mem g = fr_mem f"
    and k: "\<And>args. length args < 2 ^ 62 \<Longrightarrow> wp (k args) Q E g"
  shows "wp (vm_bind (vm_Get (Int64 off) (Int64 sz)) k) Q E g"
  unfolding wp_bind
  by (rule wp_Get(1) [OF f(1-3)]) (use f(4,5) k args_len [OF f(1,4,2,3)] in simp_all)

lemma wp_call_finish:
  assumes f: "frame_ok f" "fr_evm g = fr_evm f" "fr_contract g = fr_contract f" "fr_mem g = fr_mem f"
    and st: "stack_ok (fr_stack g)" "length (fr_stack g) + n = length (fr_stack f)"
    and mem: "0 \<le> ro" "0 \<le> rs" "calcMemSize ro rs \<le> int (length (mem_store (fr_mem f)))"
    and call: "call_ok (fr_evm f) gas (c (fr_evm f))" and gas: "unat gas \<le> a"
  shows "wp (vm_bind (vm_call c) (\<lambda>(ret, rg, err). finishCall ro rs ret rg err)) (exec_post f n 1 a) (frame_rel f) g"
proof -
  obtain ret rg err evm' where c: "c (fr_evm f) = Ret ((ret, rg, err), evm')" "rg \<le> gas"
      "evm_rel (fr_evm f) evm'" "length ret < 2 ^ 62"
    using call unfolding call_ok_def by blast
  have "unat rg \<le> a"
    using c(2) gas by (simp add: word_le_nat_alt)
  moreover have "frame_rel f (g\<lparr>fr_evm := evm'\<rparr>)"
    using c(3) f(3) by (simp add: frame_rel_def)
  ultimately have "wp (finishCall ro rs ret rg err) (exec_post f n 1 a) (frame_rel f) (g\<lparr>fr_evm := evm'\<rparr>)"
    using c(4) st mem f(3,4) by (intro wp_finishCall [OF f(1)]) simp_all
  then show ?thesis
    unfolding wp_bind wp_call using c(1) f(2) by simp
qed

definition at_depth :: "nat \<Rightarrow> frame \<Rightarrow> bool" where
  "at_depth D f \<longleftrightarrow> ev_depth (fr_evm f) = D"

lemma unat_stipend: "unat (if b then t + 2300 else t :: u64) \<le> unat t + (if b then 2300 else 0)"
  using unat_add_le [of t 2300] by simp

text \<open>The instructions with a value share their code, and so do those without.\<close>

definition valueCall :: "(ContractRef \<Rightarrow> address \<Rightarrow> bytes \<Rightarrow> u64 \<Rightarrow> int \<Rightarrow> EVM \<Rightarrow> call_result) \<Rightarrow> bytes vm" where
  "valueCall c = opCall \<lparr>cl_Call = c, cl_CallCode = c, cl_DelegateCall = undefined, cl_StaticCall = undefined, cl_Create = undefined\<rparr>"

definition plainCall :: "(ContractRef \<Rightarrow> address \<Rightarrow> bytes \<Rightarrow> u64 \<Rightarrow> EVM \<Rightarrow> call_result) \<Rightarrow> bytes vm" where
  "plainCall c = opDelegateCall \<lparr>cl_Call = undefined, cl_CallCode = undefined, cl_DelegateCall = c, cl_StaticCall = c, cl_Create = undefined\<rparr>"

lemma calls_eq:
  "opCall cl = valueCall (cl_Call cl)" "opCallCode cl = valueCall (cl_CallCode cl)"
  "opDelegateCall cl = plainCall (cl_DelegateCall cl)" "opStaticCall cl = plainCall (cl_StaticCall cl)"
  by (simp_all add: valueCall_def plainCall_def opCall_def opCallCode_def opDelegateCall_def opStaticCall_def)

lemma exec_valueCall:
  assumes c: "\<And>f addr args gas value. P f \<Longrightarrow> frame_ok f \<Longrightarrow> length args < 2 ^ 62 \<Longrightarrow> 0 \<le> value \<Longrightarrow> unat gas \<le> G \<Longrightarrow>
      (fr_stack f ! 2 = 0 \<longrightarrow> value = 0) \<Longrightarrow> call_ok (fr_evm f) gas (c cl (ContractOf (fr_contract f)) addr args gas value (fr_evm f))"
  shows "exec_ok cl G P 7 1 (need_call 3) allow_value (\<lambda>cl. valueCall (c cl))"
  unfolding exec_ok_def
proof (intro allI impI)
  fix f
  assume f: "frame_ok f" "7 \<le> length (fr_stack f)" "P f" "need_call 3 (fr_stack f) \<le> int (length (mem_store (fr_mem f)))"
    "unat (ct_Gas (fr_contract f)) + allow_value f \<le> G"
  obtain gas a v io sz ro rs st where s: "fr_stack f = gas # a # v # io # sz # ro # rs # st"
    using f(2) by (auto simp: numeral_nat Suc_le_length_iff)
  then have nn: "0 \<le> v" "0 \<le> io" "0 \<le> sz" "0 \<le> ro" "0 \<le> rs" "stack_ok st"
    using f(1) by (simp_all add: frame_ok_def)
  let ?gas = "if U256 v \<noteq> 0 then ev_callGasTemp (fr_evm f) + CallStipend else ev_callGasTemp (fr_evm f)"
  have v: "v = 0 \<longrightarrow> U256 v = 0"
    by (simp add: U256_eq_mod)
  then have gas: "unat ?gas \<le> allow_value f"
    using unat_stipend [of "U256 v \<noteq> 0" "ev_callGasTemp (fr_evm f)"] s by (auto simp: allow_value_def split: if_splits)
  have call: "call_ok (fr_evm f) ?gas (c cl (ContractOf (fr_contract f)) (BigToAddress a) args ?gas (U256 v) (fr_evm f))"
    if "length args < 2 ^ 62" for args
    using c [OF f(3,1) that nonneg_values(1), of ?gas v] gas f(5) v s by simp
  note mem = need_callD [OF f(4)]
  have tail: "wp (vm_bind (vm_call (c cl (ContractOf (fr_contract f)) (BigToAddress a) args ?gas (U256 v)))
      (\<lambda>(ret, rg, err). finishCall ro rs ret rg err)) (exec_post f 7 1 (allow_value f)) (frame_rel f) (f\<lparr>fr_stack := st\<rparr>)"
    if "length args < 2 ^ 62" for args
    by (rule wp_call_finish [OF f(1), where gas = ?gas]) (use call [OF that] gas nn mem s in simp_all)
  have "wp (vm_bind (vm_Get (Int64 io) (Int64 sz)) (\<lambda>args. vm_bind (vm_gets fr_contract) (\<lambda>contract.
      vm_bind (vm_call (c cl (ContractOf contract) (BigToAddress a) args ?gas (U256 v)))
      (\<lambda>(ret, rg, err). finishCall ro rs ret rg err)))) (exec_post f 7 1 (allow_value f)) (frame_rel f) (f\<lparr>fr_stack := st\<rparr>)"
    using nn mem s by (intro wp_args [OF f(1)]) (simp_all add: wp_bind [of "vm_gets _"] wp_gets tail del: One_nat_def)
  then show "wp (valueCall (c cl)) (exec_post f 7 1 (allow_value f)) (frame_rel f) f"
    by (simp add: valueCall_def opCall_def wp_bind [of pop] wp_pop wp_bind [of "vm_gets (\<lambda>f. ev_callGasTemp (fr_evm f))"] wp_gets s Let_def
        del: One_nat_def split del: if_split cong: if_cong)
qed

lemma exec_plainCall:
  assumes c: "\<And>f addr args gas. P f \<Longrightarrow> frame_ok f \<Longrightarrow> length args < 2 ^ 62 \<Longrightarrow> unat gas \<le> G \<Longrightarrow>
      call_ok (fr_evm f) gas (c cl (ContractOf (fr_contract f)) addr args gas (fr_evm f))"
  shows "exec_ok cl G P 6 1 (need_call 2) allow_plain (\<lambda>cl. plainCall (c cl))"
  unfolding exec_ok_def
proof (intro allI impI)
  fix f
  assume f: "frame_ok f" "6 \<le> length (fr_stack f)" "P f" "need_call 2 (fr_stack f) \<le> int (length (mem_store (fr_mem f)))"
    "unat (ct_Gas (fr_contract f)) + allow_plain f \<le> G"
  obtain gas a io sz ro rs st where s: "fr_stack f = gas # a # io # sz # ro # rs # st"
    using f(2) by (auto simp: numeral_nat Suc_le_length_iff)
  then have nn: "0 \<le> io" "0 \<le> sz" "0 \<le> ro" "0 \<le> rs" "stack_ok st"
    using f(1) by (simp_all add: frame_ok_def)
  let ?gas = "ev_callGasTemp (fr_evm f)"
  have call: "call_ok (fr_evm f) ?gas (c cl (ContractOf (fr_contract f)) (BigToAddress a) args ?gas (fr_evm f))"
    if "length args < 2 ^ 62" for args
    using c [OF f(3,1) that] f(5) by (simp add: allow_plain_def)
  note mem = need_callD [OF f(4)]
  have tail: "wp (vm_bind (vm_call (c cl (ContractOf (fr_contract f)) (BigToAddress a) args ?gas))
      (\<lambda>(ret, rg, err). finishCall ro rs ret rg err)) (exec_post f 6 1 (allow_plain f)) (frame_rel f) (f\<lparr>fr_stack := st\<rparr>)"
    if "length args < 2 ^ 62" for args
    by (rule wp_call_finish [OF f(1), where gas = ?gas]) (use call [OF that] nn mem s in \<open>simp_all add: allow_plain_def\<close>)
  have "wp (vm_bind (vm_Get (Int64 io) (Int64 sz)) (\<lambda>args. vm_bind (vm_gets fr_contract) (\<lambda>contract.
      vm_bind (vm_call (c cl (ContractOf contract) (BigToAddress a) args ?gas))
      (\<lambda>(ret, rg, err). finishCall ro rs ret rg err)))) (exec_post f 6 1 (allow_plain f)) (frame_rel f) (f\<lparr>fr_stack := st\<rparr>)"
    using nn mem s by (intro wp_args [OF f(1)]) (simp_all add: wp_bind [of "vm_gets _"] wp_gets tail del: One_nat_def)
  then show "wp (plainCall (c cl)) (exec_post f 6 1 (allow_plain f)) (frame_rel f) f"
    by (simp add: plainCall_def opDelegateCall_def wp_bind [of pop] wp_pop wp_bind [of "vm_gets (\<lambda>f. ev_callGasTemp (fr_evm f))"] wp_gets s Let_def
        del: One_nat_def)
qed

lemma exec_calls:
  assumes cl: "calls_ok cl G D" and D: "\<And>f. P f \<Longrightarrow> at_depth D f"
  shows "exec_ok cl G P 7 1 (need_call 3) allow_value opCallCode"
    "exec_ok cl G P 6 1 (need_call 2) allow_plain opDelegateCall" "exec_ok cl G P 6 1 (need_call 2) allow_plain opStaticCall"
    "(\<And>f. P f \<Longrightarrow> read_only (fr_evm f) \<longrightarrow> fr_stack f ! 2 = 0) \<Longrightarrow> exec_ok cl G P 7 1 (need_call 3) allow_value opCall"
proof -
  have *: "evm_ok (fr_evm f) \<and> ev_depth (fr_evm f) = D \<and> 0 \<le> ct_value (fr_contract f)" if "P f" "frame_ok f" for f
    using D that by (simp add: at_depth_def frame_ok_def contract_ok_def)
  show "exec_ok cl G P 7 1 (need_call 3) allow_value opCallCode"
    unfolding calls_eq [abs_def] by (rule exec_valueCall) (use cl * in \<open>simp add: calls_ok_def\<close>)
  show "exec_ok cl G P 6 1 (need_call 2) allow_plain opDelegateCall" "exec_ok cl G P 6 1 (need_call 2) allow_plain opStaticCall"
    unfolding calls_eq [abs_def] by (rule exec_plainCall, use cl * in \<open>force simp: calls_ok_def\<close>)+
  show "(\<And>f. P f \<Longrightarrow> read_only (fr_evm f) \<longrightarrow> fr_stack f ! 2 = 0) \<Longrightarrow> exec_ok cl G P 7 1 (need_call 3) allow_value opCall"
    unfolding calls_eq [abs_def] by (rule exec_valueCall) (use cl * in \<open>simp add: calls_ok_def\<close>)
qed

lemma unat_63_64: "unat (g - g div 64 :: u64) \<le> unat g"
  by (metis diff_le_self unat_div_distrib div_le_dividend unat_sub word_le_nat_alt)

lemma exec_create:
  assumes cl: "calls_ok cl G D" and P: "\<And>f. P f \<Longrightarrow> at_depth D f \<and> \<not> read_only (fr_evm f)"
  shows "exec_ok cl G P 3 1 (need_at 1 2) allow opCreate"
proof (rule exec_ok3)
  fix f v io sz st
  assume f: "frame_ok f" "P f" and s: "fr_stack f = v # io # sz # st" and nn: "0 \<le> v" "0 \<le> io" "0 \<le> sz" "stack_ok st"
    and mem: "need_at 1 2 (v # io # sz # st) \<le> int (length (mem_store (fr_mem f)))"
    and G: "unat (ct_Gas (fr_contract f)) + allow f \<le> G"
  let ?all = "ct_Gas (fr_contract f)"
  let ?gas = "if IsEIP150 (ev_chainConfig (fr_evm f)) (ev_number (fr_evm f)) then ?all - ?all div 64 else ?all"
  let ?c = "(fr_contract f)\<lparr>ct_Gas := ?all - ?gas\<rparr>"
  have le: "?gas \<le> ?all"
    using unat_63_64 [of ?all] by (simp add: word_le_nat_alt)
  then have use: "UseGas ?gas (fr_contract f) = (True, ?c)"
    by (simp add: UseGas_def)
  have create: "create_ok (fr_evm f) ?gas (cl_Create cl (ContractOf ?c) d ?gas v (fr_evm f))" if "length d < 2 ^ 62" for d
    using cl that nn(1) le G P [OF f(2)] f(1) unfolding calls_ok_def at_depth_def by (auto simp: frame_ok_def word_le_nat_alt)
  have post: "exec_post f 3 1 (allow f) r (f\<lparr>fr_evm := evm', fr_stack := x # st, fr_contract := ?c\<lparr>ct_Gas := ct_Gas ?c + rg\<rparr>\<rparr>)"
    if "evm_rel (fr_evm f) evm'" "rg \<le> ?gas" "0 \<le> x" "length r < 2 ^ 62" for evm' rg r x
  proof -
    have "unat (ct_Gas ?c + rg) \<le> unat ?all"
      using unat_add_le [of "?all - ?gas" rg] unat_sub [OF le] that(2) le by (simp add: word_le_nat_alt)
    then show ?thesis
      using that s nn(4) by (simp add: exec_post_def frame_rel_def)
  qed
  have call: "wp (vm_bind (vm_call (cl_Create cl (ContractOf ?c) d ?gas v)) (\<lambda>(res, addr, rg, suberr).
      vm_bind (push (if IsHomestead c num \<and> suberr = Some ErrCodeStoreOutOfGas then 0
        else if suberr \<noteq> None \<and> suberr \<noteq> Some ErrCodeStoreOutOfGas then 0 else Address_Big addr)) (\<lambda>_.
      vm_bind (vm_AddGas rg) (\<lambda>_. if suberr = Some errExecutionReverted then vm_ret res else vm_done))))
      (exec_post f 3 1 (allow f)) (frame_rel f) (f\<lparr>fr_stack := st, fr_contract := ?c\<rparr>)"
    if "length d < 2 ^ 62" for d c num
    using create [OF that] post unfolding create_ok_def by (auto simp: wp_simps)
  have "wp (vm_bind (vm_Get (Int64 io) (Int64 sz)) (\<lambda>d. vm_bind (vm_gets (\<lambda>f. ct_Gas (fr_contract f))) (\<lambda>gas.
     vm_bind (vm_gets (\<lambda>f. (ev_chainConfig (fr_evm f), ev_number (fr_evm f)))) (\<lambda>(c, num).
     let gas = (if IsEIP150 c num then gas - gas div 64 else gas) in
     vm_bind (vm_UseGas gas) (\<lambda>_. vm_bind (vm_gets fr_contract) (\<lambda>contract.
     vm_bind (vm_call (cl_Create cl (ContractOf contract) d gas v)) (\<lambda>(res, addr, rg, suberr).
     vm_bind (push (if IsHomestead c num \<and> suberr = Some ErrCodeStoreOutOfGas then 0
        else if suberr \<noteq> None \<and> suberr \<noteq> Some ErrCodeStoreOutOfGas then 0 else Address_Big addr)) (\<lambda>_.
     vm_bind (vm_AddGas rg) (\<lambda>_. if suberr = Some errExecutionReverted then vm_ret res else vm_done)))))))))
     (exec_post f 3 1 (allow f)) (frame_rel f) (f\<lparr>fr_stack := st\<rparr>)"
    using nn mem use call
    by (intro wp_args [OF f(1)])
      (simp_all add: wp_bind [of "vm_gets _"] wp_gets wp_Let wp_bind [of "vm_UseGas _"] wp_UseGas del: One_nat_def split del: if_split
        cong: if_cong)
  then show "wp (opCreate cl) (exec_post f 3 1 (allow f)) (frame_rel f) f"
    by (simp add: opCreate_def wp_bind [of pop] wp_pop s del: One_nat_def)
qed

lemma exec_suicide:
  assumes P: "\<And>f. P f \<Longrightarrow> \<not> read_only (fr_evm f)"
  shows "exec_ok cl G P 1 0 need allow opSuicide"
proof (rule exec_ok1)
  fix f x st
  assume f: "frame_ok f" "P f" "fr_stack f = x # st" "stack_ok st"
  let ?be = "ev_db (fr_evm f)" and ?s = "ev_StateDB (fr_evm f)" and ?self = "ct_self (fr_contract f)"
  obtain b s1 where get: "GetBalance ?be ?self ?s = (b, s1)"
    by fastforce
  note q = GetBalance_evolves [OF frame_state_ok [OF f(1)] get]
  let ?s2 = "AddBalance ?be (BigToAddress x) b s1"
  have add: "evolves ?be False s1 ?s2"
    by (rule AddBalance_evolves [OF evolves_ok [OF q(1)] q(3)]) simp
  have "evolves ?be False ?s (snd (State_DB.Suicide ?be ?self ?s2))"
    by (rule evolves_trans [OF q(1) evolves_trans [OF add Suicide_evolves [OF evolves_ok [OF add]]]])
  then have "exec_post f 1 0 (allow f) [] (f\<lparr>fr_stack := st, fr_evm := (fr_evm f)\<lparr>ev_StateDB := snd (State_DB.Suicide ?be ?self ?s2)\<rparr>\<rparr>)"
    using P [OF f(2)] f(3,4) by (intro exec_post_state [OF f(1)]) simp_all
  then show "wp (opSuicide cl) (exec_post f 1 0 (allow f)) (frame_rel f) f"
    using get f(3) by (cases "State_DB.Suicide ?be ?self ?s2") (simp add: opSuicide_def wp_simps)
qed

end
