(* ===== verification/VM_Table.thy ===== *)
theory VM_Table
  imports VM_Calls VM_Interpreter
begin

text \<open>
  Every entry of the instruction sets satisfies the contracts of its parts (\<open>table_ok\<close>), so a
  step of the interpreter up to and including the execution of an instruction keeps the
  invariant of the frame, and uses up gas unless it ends the frame (\<open>step_ok\<close>).
\<close>

section \<open>From the parts to the step\<close>

text \<open>What the interpreter knows of the frame when it comes to the costs of an operation.\<close>

definition situation :: "nat \<Rightarrow> byte \<Rightarrow> bool \<Rightarrow> frame \<Rightarrow> bool" where
  "situation D opc w f \<longleftrightarrow>
     at_depth D f \<and> (opc \<noteq> 0 \<longrightarrow> unat (fr_pc f) < 2 ^ 62) \<and>
     (read_only (fr_evm f) \<longrightarrow> \<not> w \<and> (opc = 0xf1 \<longrightarrow> fr_stack f ! 2 = 0))"

definition table_ok :: "calls \<Rightarrow> nat \<Rightarrow> nat \<Rightarrow> byte \<Rightarrow> operation \<Rightarrow> bool" where
  "table_ok cl G D opc oper \<longleftrightarrow>
     (\<exists>n m need allow c.
        op_validateStack oper = makeStackFunc n m \<and> allow \<in> {\<lambda>_. 0, allow_value, allow_plain} \<and>
        (case op_memorySize oper of None \<Rightarrow> need = (\<lambda>_. 0) | Some mf \<Rightarrow> memory_ok n need mf) \<and>
        gas_ok (op_memorySize oper \<noteq> None) (situation D opc (op_writes oper)) n c allow (op_gasCost oper) \<and>
        (c = 1 \<or> op_halts oper \<or> op_reverts oper) \<and>
        exec_ok cl G (situation D opc (op_writes oper)) n m need allow (op_execute oper))"

definition prepare_op :: "operation \<Rightarrow> unit vm" where
  "prepare_op oper = vm_bind (requiredMemory oper) (\<lambda>memorySize. vm_bind (chargeGas oper memorySize) (\<lambda>_. growMemory memorySize))"

lemma toWordSize_ge: "unat sz \<le> unat (toWordSize sz) * 32"
proof (cases "sz > MaxUint64 - 31")
  case True
  have "unat (MaxUint64 div 32 + 1 :: u64) * 32 = 2 ^ 64"
    by (simp add: unat_word_ariths unat_div unat_MaxUint64)
  then show ?thesis
    using True unsigned_less [of sz, where 'a = nat] by (simp add: toWordSize_def)
next
  case False
  then have "unat sz \<le> 2 ^ 64 - 32"
    by (simp add: word_less_nat_alt not_less unat_sub_if' unat_MaxUint64)
  then have "unat (sz + 31) = unat sz + 31"
    by (simp add: unat_word_ariths)
  then show ?thesis
    using False by (simp add: toWordSize_def unat_div)
qed

lemma wp_requiredMemory:
  assumes f: "frame_ok f" "n \<le> length (fr_stack f)"
    and mf: "case op_memorySize oper of None \<Rightarrow> need = (\<lambda>_. 0) | Some mf \<Rightarrow> memory_ok n need mf"
    and Q: "\<And>ms. need (fr_stack f) \<le> int (unat ms) \<Longrightarrow> (op_memorySize oper = None \<longrightarrow> ms = 0) \<Longrightarrow> Q ms f" and E: "E f"
  shows "wp (requiredMemory oper) Q E f"
proof (cases "op_memorySize oper")
  case None
  then show ?thesis
    using mf Q by (simp add: requiredMemory_def wp_ret)
next
  case (Some m)
  let ?v = "need (fr_stack f)"
  have v: "m f = Ret (Inr ?v, f)" "0 \<le> ?v"
    using f mf Some by (auto simp: memory_ok_def frame_ok_def)
  have "wp (gasUint64 ?v) (\<lambda>memSize. wp (gasMul (toWordSize memSize) 32) Q E) E f"
  proof (cases "?v < 2 ^ 64")
    case True
    have "?v \<le> int (unat (toWordSize (Uint64 ?v) * 32))" if "unat (toWordSize (Uint64 ?v)) * 32 < 2 ^ 64"
      using toWordSize_ge [of "Uint64 ?v"] that v(2) True unat_Uint64 [of ?v] by (simp add: unat_word_ariths nat_le_iff)
    then show ?thesis
      using True v(2) Q Some E by (auto simp: wp_gasUint64 wp_gasMul)
  qed (use v(2) E in \<open>simp add: wp_gasUint64\<close>)
  then show ?thesis
    using Some v(1) by (simp add: requiredMemory_def wp_bind wp_def [of m])
qed

lemma wp_chargeGas:
  assumes f: "frame_ok f" "wp (op_gasCost oper ms) R (gas_rel f) f"
    and Q: "\<And>cost g. R cost g \<Longrightarrow> unat cost \<le> unat (ct_Gas (fr_contract g)) \<Longrightarrow>
      Q () (g\<lparr>fr_contract := (fr_contract g)\<lparr>ct_Gas := ct_Gas (fr_contract g) - cost\<rparr>\<rparr>)"
    and R: "\<And>cost g. R cost g \<Longrightarrow> gas_rel f g"
  shows "wp (chargeGas oper ms) Q (frame_rel f) f"
proof -
  have metered: "\<not> cfg_DisableGasMetering (ev_vmConfig (fr_evm f))"
    using f(1) by (simp add: frame_ok_def evm_ok_def)
  obtain r g where g: "op_gasCost oper ms f = Ret (r, g)" "case r of Inl e \<Rightarrow> gas_rel f g | Inr cost \<Rightarrow> R cost g"
    using f(2) by (auto simp: wp_def split: go.splits sum.splits prod.splits)
  show ?thesis
  proof (cases r)
    case (Inl e)
    then show ?thesis
      using g metered by (simp add: wp_def chargeGas_def gas_rel_def)
  next
    case (Inr cost)
    then have "R cost g" "frame_rel f g"
      using g(2) R by (auto simp: gas_rel_def)
    then show ?thesis
      using g(1) Inr metered Q [of cost g]
      by (auto simp: wp_def chargeGas_def UseGas_def word_less_nat_alt not_less split: prod.split)
  qed
qed

text \<open>After the costs: the gas is charged and the memory covers what the instruction touches.\<close>

lemma wp_prepare:
  assumes f: "frame_ok f" "n \<le> length (fr_stack f)" "P f"
    and mf: "case op_memorySize oper of None \<Rightarrow> need = (\<lambda>_. 0) | Some mf \<Rightarrow> memory_ok n need mf"
    and gas: "gas_ok (op_memorySize oper \<noteq> None) P n c allow (op_gasCost oper)"
    and Q: "\<And>g. frame_rel f g \<Longrightarrow> frame_ok g \<Longrightarrow> fr_stack g = fr_stack f \<Longrightarrow> fr_pc g = fr_pc f \<Longrightarrow>
      need (fr_stack g) \<le> int (length (mem_store (fr_mem g))) \<Longrightarrow>
      unat (ct_Gas (fr_contract g)) + allow g + c \<le> unat (ct_Gas (fr_contract f)) \<Longrightarrow> Q () g"
    and allow: "allow \<in> {\<lambda>_. 0, allow_value, allow_plain}"
  shows "wp (prepare_op oper) Q (frame_rel f) f"
  unfolding prepare_op_def wp_bind
proof (rule wp_requiredMemory [OF f(1,2) mf])
  fix ms :: u64
  assume ms: "need (fr_stack f) \<le> int (unat ms)" "op_memorySize oper = None \<longrightarrow> ms = 0"
  let ?R = "\<lambda>cost g. gas_rel f g \<and> c + allow g \<le> unat cost \<and> (op_memorySize oper \<noteq> None \<longrightarrow> ms \<le> 0xffffffffe0)"
  have "wp (op_gasCost oper ms) ?R (gas_rel f) f"
    using gas f by (simp add: gas_ok_def)
  then show "wp (chargeGas oper ms) (\<lambda>x. wp (growMemory ms) Q (frame_rel f)) (frame_rel f) f"
  proof (rule wp_chargeGas [OF f(1)])
    fix cost :: u64 and g
    assume R: "?R cost g" and cost: "unat cost \<le> unat (ct_Gas (fr_contract g))"
    let ?g = "g\<lparr>fr_contract := (fr_contract g)\<lparr>ct_Gas := ct_Gas (fr_contract g) - cost\<rparr>\<rparr>"
    have g: "gas_rel f g" "frame_ok g" "fr_contract g = fr_contract f" "fr_stack g = fr_stack f" "fr_pc g = fr_pc f"
      using R gas_rel_ok [OF f(1)] by (auto simp: gas_rel_def)
    have small: "unat ms \<le> 0xffffffffe0"
      using R ms(2) by (cases "op_memorySize oper") (auto simp: word_le_nat_alt)
    have ok: "frame_ok (?g\<lparr>fr_mem := m\<rparr>)" if "mem_ok m" for m
      using that g(2) by (simp add: frame_ok_def contract_ok_def)
    have rel: "frame_rel f (?g\<lparr>fr_mem := m\<rparr>)" for m
      using g(1) by (simp add: gas_rel_def frame_rel_def)
    have left: "unat (ct_Gas (fr_contract ?g)) + allow g + c \<le> unat (ct_Gas (fr_contract f))"
    proof -
      have "unat (ct_Gas (fr_contract ?g)) = unat (ct_Gas (fr_contract f)) - unat cost" "c + allow g \<le> unat cost"
        using R cost g(3) by (simp_all add: unat_sub word_le_nat_alt)
      then show ?thesis
        using cost g(3) by simp
    qed
    let ?m = "if ms > 0 then Memory_Resize ms (fr_mem g) else fr_mem g"
    have m: "mem_ok ?m" "unat ms \<le> length (mem_store ?m)"
      using g(2) small by (auto simp: frame_ok_def mem_ok_def Memory_Resize_def word_less_nat_alt)
    have "need (fr_stack f) \<le> int (length (mem_store ?m))"
      using ms(1) m(2) by (meson of_nat_le_iff order_trans)
    note m(1) this
    moreover have "allow (?g\<lparr>fr_mem := m\<rparr>) = allow g" for m
      using allow by (auto simp: allow_value_def allow_plain_def)
    ultimately have "Q () (?g\<lparr>fr_mem := ?m\<rparr>)"
      using ok rel left g(4,5) by (intro Q) simp_all
    then show "wp (growMemory ms) Q (frame_rel f) ?g"
      by (cases "ms > 0") (simp_all add: growMemory_def wp_modify)
  qed simp
qed (use frame_rel_refl [OF f(1)] in simp)

section \<open>Steps\<close>

definition step_post :: "operation \<Rightarrow> frame \<Rightarrow> bytes \<Rightarrow> frame \<Rightarrow> bool" where
  "step_post oper f r g \<longleftrightarrow>
     frame_rel f g \<and> frame_ok g \<and> length (fr_stack g) \<le> 1024 \<and> length r < 2 ^ 62 \<and>
     unat (ct_Gas (fr_contract g)) \<le> unat (ct_Gas (fr_contract f)) \<and>
     (op_halts oper \<or> op_reverts oper \<or> unat (ct_Gas (fr_contract g)) < unat (ct_Gas (fr_contract f)))"

lemma makeStackFunc_None:
  "makeStackFunc n m st = None \<longleftrightarrow> n \<le> length st \<and> length st + m \<le> 1024 + n"
  by (auto simp: makeStackFunc_def stack_require_def split: option.split)

lemma situation_rel:
  assumes "situation D opc w f" "frame_rel f g" "fr_stack g = fr_stack f" "fr_pc g = fr_pc f"
  shows "situation D opc w g"
proof -
  have core: "evm_core (fr_evm g) = evm_core (fr_evm f)"
    using assms(2) by (simp add: frame_rel_def evm_rel_def)
  show ?thesis
    using assms(1,3,4) by (simp add: situation_def at_depth_def evm_coreD(2,12) [OF core])
qed

lemma step_ok:
  assumes entry: "table_ok cl G D opc oper" and f: "frame_ok f" "situation D opc (op_writes oper) f"
    and valid: "op_validateStack oper (fr_stack f) = None" and G: "unat (ct_Gas (fr_contract f)) \<le> G"
  shows "wp (vm_bind (prepare_op oper) (\<lambda>_. op_execute oper cl)) (step_post oper f) (frame_rel f) f"
proof -
  obtain n m need allow c where e: "op_validateStack oper = makeStackFunc n m" "allow \<in> {\<lambda>_. 0, allow_value, allow_plain}"
      "case op_memorySize oper of None \<Rightarrow> need = (\<lambda>_. 0) | Some mf \<Rightarrow> memory_ok n need mf"
      "gas_ok (op_memorySize oper \<noteq> None) (situation D opc (op_writes oper)) n c allow (op_gasCost oper)"
      "c = 1 \<or> op_halts oper \<or> op_reverts oper" "exec_ok cl G (situation D opc (op_writes oper)) n m need allow (op_execute oper)"
    using entry unfolding table_ok_def by blast
  have st: "n \<le> length (fr_stack f)" "length (fr_stack f) + m \<le> 1024 + n"
    using valid e(1) by (simp_all add: makeStackFunc_None)
  show ?thesis
    unfolding wp_bind [of "prepare_op oper"]
  proof (rule wp_prepare [where P = "situation D opc (op_writes oper)", OF f(1) st(1) f(2) e(3,4) _ e(2)])
    fix g
    assume g: "frame_rel f g" "frame_ok g" "fr_stack g = fr_stack f" "fr_pc g = fr_pc f"
      "need (fr_stack g) \<le> int (length (mem_store (fr_mem g)))"
      and gas: "unat (ct_Gas (fr_contract g)) + allow g + c \<le> unat (ct_Gas (fr_contract f))"
    have "wp (op_execute oper cl) (exec_post g n m (allow g)) (frame_rel g) g"
      using e(6) g st(1) situation_rel [OF f(2) g(1,3,4)] gas G unfolding exec_ok_def by simp
    then show "wp (op_execute oper cl) (step_post oper f) (frame_rel f) g"
    proof (rule wp_conseq)
      fix r h
      assume h: "exec_post g n m (allow g) r h"
      then have "frame_rel g h" "stack_ok (fr_stack h)" "length (mem_store (fr_mem h)) = length (mem_store (fr_mem g))"
        "unat (ct_Gas (fr_contract h)) \<le> unat (ct_Gas (fr_contract g)) + allow g" "length r < 2 ^ 62"
        "length (fr_stack h) + n = length (fr_stack g) + m"
        by (auto simp: exec_post_def)
      moreover have "frame_ok h"
        using calculation(1-3) frame_relD [OF _ g(2)] g(2) by (simp add: frame_ok_def mem_ok_def)
      ultimately show "step_post oper f r h"
        using frame_rel_trans [OF g(1)] gas st(2) e(5) g(3) by (auto simp: step_post_def)
    qed (use frame_rel_trans [OF g(1)] in blast)
  qed
qed

section \<open>The instruction sets\<close>

lemma entry_plain:
  assumes "exec_ok cl G (situation D opc False) n m (\<lambda>_. 0) (\<lambda>_. 0) ex" "gas_ok False (situation D opc False) n 1 (\<lambda>_. 0) g"
  shows "table_ok cl G D opc (instr ex g (makeStackFunc n m) None)"
    "table_ok cl G D opc ((instr ex g (makeStackFunc n m) None)\<lparr>op_jumps := True\<rparr>)"
proof -
  show "table_ok cl G D opc (instr ex g (makeStackFunc n m) None)"
    "table_ok cl G D opc ((instr ex g (makeStackFunc n m) None)\<lparr>op_jumps := True\<rparr>)"
    unfolding table_ok_def using assms
    by (intro exI [of _ n] exI [of _ m] exI [of _ "\<lambda>_. 0"] exI [of _ "1 :: nat"]; simp add: instr_def)+
qed

lemma entry_write:
  assumes "exec_ok cl G (situation D opc True) n m (\<lambda>_. 0) (\<lambda>_. 0) ex" "gas_ok False (situation D opc True) n 1 (\<lambda>_. 0) g"
  shows "table_ok cl G D opc ((instr ex g (makeStackFunc n m) None)\<lparr>op_writes := True\<rparr>)"
  unfolding table_ok_def using assms
  by (intro exI [of _ n] exI [of _ m] exI [of _ "\<lambda>_. 0"] exI [of _ "1 :: nat"]) (simp add: instr_def)

lemma entry_halt:
  assumes "exec_ok cl G (situation D opc False) n m (\<lambda>_. 0) (\<lambda>_. 0) ex" "gas_ok False (situation D opc False) n 0 (\<lambda>_. 0) g"
  shows "table_ok cl G D opc ((instr ex g (makeStackFunc n m) None)\<lparr>op_halts := True\<rparr>)"
  unfolding table_ok_def using assms
  by (intro exI [of _ n] exI [of _ m] exI [of _ "\<lambda>_. 0"] exI [of _ "0 :: nat"]) (simp add: instr_def)

lemma entry_memory:
  assumes "exec_ok cl G (situation D opc False) n m need allow ex" "gas_ok True (situation D opc False) n 1 allow g" "memory_ok n need mf"
    "allow \<in> {\<lambda>_. 0, allow_value, allow_plain}"
  shows "table_ok cl G D opc (instr ex g (makeStackFunc n m) (Some mf))"
    "table_ok cl G D opc ((instr ex g (makeStackFunc n m) (Some mf))\<lparr>op_returns := True\<rparr>)"
proof -
  show "table_ok cl G D opc (instr ex g (makeStackFunc n m) (Some mf))"
    "table_ok cl G D opc ((instr ex g (makeStackFunc n m) (Some mf))\<lparr>op_returns := True\<rparr>)"
    unfolding table_ok_def using assms
    by (intro exI [of _ n] exI [of _ m] exI [of _ need] exI [of _ allow] exI [of _ "1 :: nat"]; simp add: instr_def)+
qed

lemma entry_memory_write:
  assumes "exec_ok cl G (situation D opc True) n m need (\<lambda>_. 0) ex" "gas_ok True (situation D opc True) n 1 (\<lambda>_. 0) g" "memory_ok n need mf"
  shows "table_ok cl G D opc ((instr ex g (makeStackFunc n m) (Some mf))\<lparr>op_writes := True\<rparr>)"
    "table_ok cl G D opc ((instr ex g (makeStackFunc n m) (Some mf))\<lparr>op_writes := True, op_returns := True\<rparr>)"
proof -
  show "table_ok cl G D opc ((instr ex g (makeStackFunc n m) (Some mf))\<lparr>op_writes := True\<rparr>)"
    "table_ok cl G D opc ((instr ex g (makeStackFunc n m) (Some mf))\<lparr>op_writes := True, op_returns := True\<rparr>)"
    unfolding table_ok_def using assms
    by (intro exI [of _ n] exI [of _ m] exI [of _ need] exI [of _ "\<lambda>_. 0"] exI [of _ "1 :: nat"]; simp add: instr_def)+
qed

lemma entry_memory_end:
  assumes "exec_ok cl G (situation D opc False) n m need (\<lambda>_. 0) ex" "gas_ok True (situation D opc False) n 0 (\<lambda>_. 0) g" "memory_ok n need mf"
  shows "table_ok cl G D opc ((instr ex g (makeStackFunc n m) (Some mf))\<lparr>op_halts := True\<rparr>)"
    "table_ok cl G D opc ((instr ex g (makeStackFunc n m) (Some mf))\<lparr>op_reverts := True, op_returns := True\<rparr>)"
proof -
  show "table_ok cl G D opc ((instr ex g (makeStackFunc n m) (Some mf))\<lparr>op_halts := True\<rparr>)"
    "table_ok cl G D opc ((instr ex g (makeStackFunc n m) (Some mf))\<lparr>op_reverts := True, op_returns := True\<rparr>)"
    unfolding table_ok_def using assms
    by (intro exI [of _ n] exI [of _ m] exI [of _ need] exI [of _ "\<lambda>_. 0"] exI [of _ "0 :: nat"]; simp add: instr_def)+
qed

lemma entry_suicide:
  assumes "exec_ok cl G (situation D opc True) n m (\<lambda>_. 0) (\<lambda>_. 0) ex" "gas_ok False (situation D opc True) n 0 (\<lambda>_. 0) g"
  shows "table_ok cl G D opc ((instr ex g (makeStackFunc n m) None)\<lparr>op_halts := True, op_writes := True\<rparr>)"
  unfolding table_ok_def using assms
  by (intro exI [of _ n] exI [of _ m] exI [of _ "\<lambda>_. 0"] exI [of _ "0 :: nat"]) (simp add: instr_def)

definition ops_ok :: "calls \<Rightarrow> nat \<Rightarrow> nat \<Rightarrow> (byte \<times> operation) list \<Rightarrow> bool" where
  "ops_ok cl G D ops \<longleftrightarrow> list_all (\<lambda>(opc, oper). table_ok cl G D opc oper) ops"

lemma ops_ok_simps:
  "ops_ok cl G D []" "ops_ok cl G D ((opc, oper) # ops) = (table_ok cl G D opc oper \<and> ops_ok cl G D ops)"
  "ops_ok cl G D (xs @ ys) = (ops_ok cl G D xs \<and> ops_ok cl G D ys)"
  by (simp_all add: ops_ok_def)

lemma ops_ok_map: "(\<And>n. n \<in> set ns \<Longrightarrow> table_ok cl G D (opc n) (oper n)) \<Longrightarrow> ops_ok cl G D (map (\<lambda>n. (opc n, oper n)) ns)"
  by (induction ns) (simp_all add: ops_ok_def)

lemma situationD:
  "situation D opc True f \<Longrightarrow> \<not> read_only (fr_evm f)" "situation D opc w f \<Longrightarrow> at_depth D f"
  "opc \<noteq> 0 \<Longrightarrow> situation D opc w f \<Longrightarrow> unat (fr_pc f) < 2 ^ 62"
  "situation D 0xf1 w f \<Longrightarrow> read_only (fr_evm f) \<longrightarrow> fr_stack f ! 2 = 0"
  by (auto simp: situation_def)

lemma entry_const:
  assumes "exec_ok cl G (situation D opc False) n m (\<lambda>_. 0) (\<lambda>_. 0) ex" "c \<noteq> 0"
  shows "table_ok cl G D opc (instr ex (constGasFunc c) (makeStackFunc n m) None)"
    "table_ok cl G D opc ((instr ex (constGasFunc c) (makeStackFunc n m) None)\<lparr>op_jumps := True\<rparr>)"
  by (rule entry_plain [OF assms(1) gas_const(1) [OF assms(2)]])+

lemma entry_mem:
  assumes "exec_ok cl G (situation D opc False) n m need (\<lambda>_. 0) ex" "gas_ok True (situation D opc False) n 1 (\<lambda>_. 0) g" "memory_ok n need mf"
  shows "table_ok cl G D opc (instr ex g (makeStackFunc n m) (Some mf))"
  by (rule entry_memory(1) [OF assms]) simp

lemma arithmetic_ok: "ops_ok cl G D frontier_arithmetic"
  by (simp del: One_nat_def add: frontier_arithmetic_def ops_ok_simps entry_const entry_halt [OF _ gas_const(2)] entry_plain(1) [OF _ gas_exp]
      exec_arith exec_bits exec_modular exec_skip)

lemma logic_ok: "ops_ok cl G D frontier_logic"
  by (simp del: One_nat_def add: frontier_logic_def ops_ok_simps entry_const exec_arith exec_bits exec_unary)

lemma environment_ok: "ops_ok cl G D frontier_environment"
  by (simp del: One_nat_def add: frontier_environment_def ops_ok_simps entry_const exec_unary exec_environment exec_calldataload
      entry_plain(1) [OF exec_balance gas_tab(1)] entry_plain(1) [OF exec_extcodesize gas_tab(2)]
      entry_mem [OF exec_sha3 gas_copy(4) memory_ok_table(1)] entry_mem [OF exec_calldatacopy gas_copy(1) memory_ok_table(2)]
      entry_mem [OF exec_codecopy gas_copy(3) memory_ok_table(4)] entry_mem [OF exec_extcodecopy gas_extcodecopy memory_ok_table(5)])

lemma storage_ok: "ops_ok cl G D frontier_storage"
  by (simp del: One_nat_def add: frontier_storage_def ops_ok_simps entry_const exec_unary exec_environment exec_skip exec_jump exec_jumpi
      entry_plain(1) [OF exec_sload gas_tab(3)] entry_write [OF exec_sstore gas_sstore] situationD
      entry_mem [OF exec_mload gas_memory_step(1) memory_ok_table(6)] entry_mem [OF exec_mstore8 gas_memory_step(2) memory_ok_table(7)]
      entry_mem [OF exec_mstore gas_memory_step(3) memory_ok_table(8)])

lemma push_opcode: "n \<in> set [1..<33] \<Longrightarrow> (0x5f + of_nat n :: byte) \<noteq> 0"
proof
  assume "n \<in> set [1..<33]" "(0x5f + of_nat n :: byte) = 0"
  then have "unat (0x5f + of_nat n :: byte) = 0" "n < 33"
    by auto
  then show False
    by (simp add: unat_word_ariths unat_of_nat)
qed

lemma push_ok: "ops_ok cl G D frontier_push"
  unfolding frontier_push_def
proof (rule ops_ok_map, rule entry_plain(1) [OF exec_push gas_stack(1)])
  fix n :: nat and f
  assume "n \<in> set [1..<33]" "situation D (0x5f + of_nat n) False f"
  then show "unat (fr_pc f) < 2 ^ 62"
    using situationD(3) [OF push_opcode] by blast
qed

lemma dup_swap_ok: "ops_ok cl G D frontier_dup" "ops_ok cl G D frontier_swap"
  unfolding frontier_dup_def frontier_swap_def makeDupStackFunc_def makeSwapStackFunc_def
  by (rule ops_ok_map, rule entry_plain(1) [OF exec_dup gas_stack(3)], simp)
    (rule ops_ok_map, rule entry_plain(1) [OF exec_swap gas_stack(2)])

lemma log_ok: "ops_ok cl G D frontier_log"
  unfolding frontier_log_def
  by (rule ops_ok_map, rule entry_memory_write(1) [OF exec_log gas_log memory_ok_log]) (rule situationD)

lemma system_ok:
  assumes "calls_ok cl G D"
  shows "ops_ok cl G D frontier_system"
  using assms
  by (simp del: One_nat_def add: frontier_system_def ops_ok_simps situationD entry_suicide [OF exec_suicide gas_suicide]
      entry_memory(2) [OF exec_calls(4) gas_call memory_ok_table(10)] entry_memory(2) [OF exec_calls(1) gas_callcode memory_ok_table(10)]
      entry_memory_write(2) [OF exec_create gas_memory_step(4) memory_ok_table(9)]
      entry_memory_end(1) [OF exec_return(1) gas_memory_only(1) memory_ok_table(13)])

lemma instructionSet_ok:
  assumes "calls_ok cl G D"
  shows "ops_ok cl G D (instructionSet i)"
proof -
  have F: "ops_ok cl G D NewFrontierInstructionSet"
    by (simp del: One_nat_def add: NewFrontierInstructionSet_def ops_ok_simps arithmetic_ok logic_ok environment_ok storage_ok push_ok dup_swap_ok
        log_ok system_ok [OF assms])
  then have H: "ops_ok cl G D NewHomesteadInstructionSet"
    using assms by (simp del: One_nat_def add: NewHomesteadInstructionSet_def ops_ok_simps situationD
        entry_memory(2) [OF exec_calls(2) gas_plain_calls(1) memory_ok_table(11)])
  then have B: "ops_ok cl G D NewByzantiumInstructionSet"
    using assms by (simp del: One_nat_def add: NewByzantiumInstructionSet_def ops_ok_simps situationD entry_const exec_environment
        entry_memory(2) [OF exec_calls(3) gas_plain_calls(2) memory_ok_table(12)]
        entry_mem [OF exec_returndatacopy gas_copy(2) memory_ok_table(3)]
        entry_memory_end(2) [OF exec_return(2) gas_memory_only(2) memory_ok_table(14)])
  then have "ops_ok cl G D NewConstantinopleInstructionSet"
    by (simp del: One_nat_def add: NewConstantinopleInstructionSet_def ops_ok_simps entry_const exec_bits)
  then show ?thesis
    using F H B by (cases i) (simp_all add: NewSpringInstructionSet_def)
qed

lemma JumpTable_ok:
  assumes "calls_ok cl G D" "JumpTable i opc = Some oper"
  shows "table_ok cl G D opc oper"
  using instructionSet_ok [OF assms(1)] assms(2) by (auto simp: JumpTable_def ops_ok_def list_all_iff dest!: map_of_SomeD)

end
