(* ===== verification/VM_Run.thy ===== *)
theory VM_Run
  imports VM_Table
begin

text \<open>
  The interpreter loop and the calls of the machine, from the contracts of the instructions. Every
  step that does not end a frame uses gas, so a frame with less gas than fuel returns (\<open>Run_loop_ok\<close>);
  the precompiled contracts return for less than \<open>2 ^ 60\<close> gas; and the five calls keep their contract
  \<open>calls_ok\<close> at every depth the machine reaches (\<open>calls_at_ok\<close>).
\<close>

section \<open>The loop\<close>

definition run_ok :: "Contract \<Rightarrow> EVM \<Rightarrow> run_result \<Rightarrow> Contract \<Rightarrow> EVM \<Rightarrow> bool" where
  "run_ok c evm r c' evm' \<longleftrightarrow>
     evm_rel evm evm' \<and> length (fst r) < 2 ^ 62 \<and>
     (snd r \<in> {None, Some errExecutionReverted, Some ErrCodeStoreOutOfGas} \<longrightarrow> ct_Gas c' \<le> ct_Gas c)"

definition goes_on :: "frame \<Rightarrow> frame \<Rightarrow> bool" where
  "goes_on f g \<longleftrightarrow>
     frame_rel f g \<and> frame_ok g \<and> length (fr_stack g) \<le> 1024 \<and> unat (ct_Gas (fr_contract g)) < unat (ct_Gas (fr_contract f))"

lemma run_ok_error:
  assumes "frame_rel f g" "hard_error e"
  shows "run_ok (fr_contract f) (fr_evm f) ([], Some e) (fr_contract g) (fr_evm g)"
  using assms by (simp add: run_ok_def frame_rel_def)

lemma run_ok_returnData:
  "run_ok c evm r c' (evm'\<lparr>ev_returnData := d\<rparr>) = run_ok c evm r c' evm'"
  by (simp add: run_ok_def)

lemma executeOp_ok:
  assumes "wp (op_execute oper cl) (step_post oper f) (frame_rel f) h"
  shows "\<exists>r g. executeOp cl oper h = Ret (r, g) \<and>
    (case r of None \<Rightarrow> goes_on f g | Some res \<Rightarrow> run_ok (fr_contract f) (fr_evm f) res (fr_contract g) (fr_evm g))"
proof -
  from assms obtain x g where "op_execute oper cl h = Ret (x, g)"
    by (auto simp: wp_def split: go.splits)
  with assms consider (err) e g where "op_execute oper cl h = Ret (Inl e, g)" "hard_error e" "frame_rel f g"
    | (ok) d g where "op_execute oper cl h = Ret (Inr d, g)" "step_post oper f d g"
    by (cases x) (auto simp: wp_def)
  then show ?thesis
  proof cases
    case err
    then show ?thesis
      using run_ok_error [OF err(3,2)] by (auto simp: executeOp_def run_ok_returnData Let_def)
  next
    case ok
    have post: "frame_rel f g" "frame_ok g" "length (fr_stack g) \<le> 1024" "length d < 2 ^ 62" "ct_Gas (fr_contract g) \<le> ct_Gas (fr_contract f)"
      "op_halts oper \<or> op_reverts oper \<or> unat (ct_Gas (fr_contract g)) < unat (ct_Gas (fr_contract f))"
      using ok(2) by (auto simp: step_post_def word_le_nat_alt)
    have "goes_on f (g\<lparr>fr_pc := pc\<rparr>)" "goes_on f (g\<lparr>fr_evm := (fr_evm g)\<lparr>ev_returnData := d\<rparr>, fr_pc := pc\<rparr>)"
      "goes_on f g" "goes_on f (g\<lparr>fr_evm := (fr_evm g)\<lparr>ev_returnData := d\<rparr>\<rparr>)"
      if "\<not> op_halts oper" "\<not> op_reverts oper" for pc
      using that post by (simp_all add: goes_on_def frame_ok_def frame_rel_def evm_ok_def)
    moreover have "run_ok (fr_contract f) (fr_evm f) (d, e) (fr_contract g) (fr_evm g)" for e
      using post by (simp add: run_ok_def frame_rel_def)
    ultimately show ?thesis
      using ok(1) by (auto simp: executeOp_def run_ok_returnData Let_def)
  qed
qed

lemma GetOp_pc: "contract_ok c \<Longrightarrow> GetOp c pc \<noteq> 0 \<Longrightarrow> unat pc < 2 ^ 62"
  by (auto simp: GetOp_def GetByte_def contract_ok_def word_less_nat_alt unat_of_nat split: if_splits)

lemma enforceRestrictions_ok:
  assumes "opc = 0xf1 \<longrightarrow> 2 < length (fr_stack f)" "stack_ok (fr_stack f)"
  shows "enforceRestrictions opc oper f \<in> {Ret None, Ret (Some errWriteProtection)}"
    "enforceRestrictions opc oper f = Ret None \<Longrightarrow> read_only (fr_evm f) \<Longrightarrow>
       \<not> op_writes oper \<and> (opc = 0xf1 \<longrightarrow> fr_stack f ! 2 = 0)"
  using assms by (auto simp: enforceRestrictions_def read_only_def go_index_def split: if_splits)

lemma call_entry: "map_of NewFrontierInstructionSet 0xf1 = map_of frontier_system 0xf1"
proof -
  have "map_of frontier_arithmetic 0xf1 = None" "map_of frontier_logic 0xf1 = None" "map_of frontier_environment 0xf1 = None"
    "map_of frontier_storage 0xf1 = None"
    by (simp_all add: frontier_arithmetic_def frontier_logic_def frontier_environment_def frontier_storage_def)
  moreover have "map_of frontier_push 0xf1 = None" "map_of frontier_dup 0xf1 = None" "map_of frontier_swap 0xf1 = None"
    "map_of frontier_log 0xf1 = None"
    by code_simp+
  ultimately show ?thesis
    by (simp add: NewFrontierInstructionSet_def map_add_def)
qed

lemma JumpTable_call_stack:
  assumes "JumpTable i 0xf1 = Some oper" "op_validateStack oper st = None"
  shows "2 < length st"
proof -
  have "op_validateStack oper = makeStackFunc 7 1"
    using assms(1) by (cases i) (auto simp: JumpTable_def NewSpringInstructionSet_def NewConstantinopleInstructionSet_def
        NewByzantiumInstructionSet_def NewHomesteadInstructionSet_def call_entry frontier_system_def instr_def)
  then show ?thesis
    using assms(2) by (simp add: makeStackFunc_None)
qed

definition step_ends :: "frame \<Rightarrow> (run_result option \<times> frame) go \<Rightarrow> bool" where
  "step_ends f s \<longleftrightarrow>
     (\<exists>r g. s = Ret (r, g) \<and>
        (case r of None \<Rightarrow> goes_on f g | Some res \<Rightarrow> run_ok (fr_contract f) (fr_evm f) res (fr_contract g) (fr_evm g)))"

lemma step_ends_error:
  assumes "frame_rel f g" "hard_error e"
  shows "step_ends f (Ret (Some ([], Some e), g))"
  using run_ok_error [OF assms] by (simp add: step_ends_def)

text \<open>The costs and the execution of an operation that passed the checks.\<close>

lemma step_ends_execute:
  assumes "wp (vm_bind (prepare_op oper) (\<lambda>_. op_execute oper cl)) (step_post oper f) (frame_rel f) f"
  shows "step_ends f (go_bind (prepare_op oper f) (\<lambda>(r, f). case r of Inl e \<Rightarrow> Ret (Some ([], Some e), f) | Inr _ \<Rightarrow> executeOp cl oper f))"
proof -
  have wp: "wp (prepare_op oper) (\<lambda>_. wp (op_execute oper cl) (step_post oper f) (frame_rel f)) (frame_rel f) f"
    using assms by (simp only: wp_bind)
  then obtain x h where x: "prepare_op oper f = Ret (x, h)"
    by (auto simp: wp_def split: go.splits)
  show ?thesis
  proof (cases x)
    case (Inl e)
    then have "frame_rel f h" "hard_error e"
      using wp x by (simp_all add: wp_def [of "prepare_op oper"])
    then show ?thesis
      using step_ends_error x Inl by simp
  next
    case (Inr y)
    then have "wp (op_execute oper cl) (step_post oper f) (frame_rel f) h"
      using wp x by (simp add: wp_def [of "prepare_op oper"])
    then show ?thesis
      using executeOp_ok [of oper cl f h] x Inr by (simp add: step_ends_def)
  qed
qed

lemma Run_step_ok:
  assumes cl: "calls_ok cl G D" and f: "frame_ok f" "at_depth D f" "unat (ct_Gas (fr_contract f)) \<le> G"
  shows "step_ends f (Run_step cl f)"
proof -
  let ?opc = "GetOp (fr_contract f) (fr_pc f)"
  note stop = step_ends_error [OF frame_rel_refl [OF f(1)]]
  show ?thesis
  proof (cases "JumpTable (ev_JumpTable (fr_evm f)) ?opc")
    case None
    then show ?thesis
      by (simp add: Run_step_def stop)
  next
    case (Some oper)
    note entry = JumpTable_ok [OF cl Some]
    then obtain n m where stackf: "op_validateStack oper = makeStackFunc n m"
      unfolding table_ok_def by blast
    show ?thesis
    proof (cases "op_validateStack oper (fr_stack f)")
      case err: (Some e)
      then have "hard_error e"
        unfolding stackf by (auto simp: makeStackFunc_def stack_require_def split: if_splits option.splits)
      then show ?thesis
        using Some err by (simp add: Run_step_def stop)
    next
      case valid: None
      have len: "?opc = 0xf1 \<longrightarrow> 2 < length (fr_stack f)" and st: "stack_ok (fr_stack f)"
        using JumpTable_call_stack [OF _ valid] Some f(1) by (auto simp: frame_ok_def)
      note restr = enforceRestrictions_ok [OF len st, of oper]
      show ?thesis
      proof (cases "enforceRestrictions ?opc oper f = Ret None")
        case False
        then have "enforceRestrictions ?opc oper f = Ret (Some errWriteProtection)"
          using restr(1) by blast
        then show ?thesis
          using valid Some by (simp add: Run_step_def stop)
      next
        case True
        have "situation D ?opc (op_writes oper) f"
          using f(1,2) restr(2) [OF True] GetOp_pc by (auto simp: situation_def frame_ok_def)
        from step_ends_execute [OF step_ok [OF entry f(1) this valid f(3)]] show ?thesis
          using True valid Some by (simp add: Run_step_def flip: prepare_op_def)
      qed
    qed
  qed
qed

lemma run_ok_trans:
  assumes "goes_on f g" "run_ok (fr_contract g) (fr_evm g) r c evm"
  shows "run_ok (fr_contract f) (fr_evm f) r c evm"
proof -
  have "evm_rel (fr_evm f) (fr_evm g)" "ct_Gas (fr_contract g) \<le> ct_Gas (fr_contract f)"
    using assms(1) by (simp_all add: goes_on_def frame_rel_def word_le_nat_alt)
  then show ?thesis
    using assms(2) evm_rel_trans [of "fr_evm f" "fr_evm g" evm] unfolding run_ok_def by (meson order_trans)
qed

lemma at_depth_rel:
  assumes "at_depth D f" "frame_rel f g"
  shows "at_depth D g"
proof -
  have "evm_core (fr_evm g) = evm_core (fr_evm f)"
    using assms(2) by (simp add: frame_rel_def evm_rel_def)
  from evm_coreD(2) [OF this] show ?thesis
    using assms(1) by (simp add: at_depth_def)
qed

text \<open>A frame with less gas than fuel returns.\<close>

lemma Run_loop_ok:
  assumes cl: "calls_ok cl G D"
  shows "frame_ok f \<Longrightarrow> at_depth D f \<Longrightarrow> unat (ct_Gas (fr_contract f)) \<le> G \<Longrightarrow> unat (ct_Gas (fr_contract f)) < n \<Longrightarrow>
    \<exists>r g. Run_loop cl n f = Ret (r, g) \<and> run_ok (fr_contract f) (fr_evm f) r (fr_contract g) (fr_evm g)"
proof (induction n arbitrary: f)
  case (Suc n)
  show ?case
  proof (cases "ev_abort (fr_evm f)")
    case True
    then show ?thesis
      using Suc.prems(1) by (simp add: run_ok_def evm_rel_refl frame_ok_def)
  next
    case False
    obtain r g where g: "Run_step cl f = Ret (r, g)"
      "case r of None \<Rightarrow> goes_on f g | Some res \<Rightarrow> run_ok (fr_contract f) (fr_evm f) res (fr_contract g) (fr_evm g)"
      using Run_step_ok [OF cl Suc.prems(1-3)] unfolding step_ends_def by blast
    show ?thesis
    proof (cases r)
      case None
      then have "goes_on f g" "frame_ok g" "at_depth D g" "unat (ct_Gas (fr_contract g)) \<le> G" "unat (ct_Gas (fr_contract g)) < n"
        using g(2) Suc.prems at_depth_rel by (auto simp: goes_on_def)
      then obtain r' h where "Run_loop cl n g = Ret (r', h)" "run_ok (fr_contract f) (fr_evm f) r' (fr_contract h) (fr_evm h)"
        using Suc.IH [of g] run_ok_trans by blast
      then show ?thesis
        using g(1) None False by simp
    qed (use g False in simp)
  qed
qed simp

section \<open>Frames\<close>

lemma evm_core_depth: "evm_core (evm\<lparr>ev_depth := d\<rparr>) = (evm_core evm)\<lparr>ev_depth := d\<rparr>"
  by (simp add: evm_core_def)

lemma evm_rel_depth:
  assumes "evm_rel (evm\<lparr>ev_depth := ev_depth evm + 1, ev_returnData := []\<rparr>) evm'"
  shows "evm_rel evm (evm'\<lparr>ev_depth := ev_depth evm' - 1\<rparr>)"
proof -
  have core: "evm_core evm' = (evm_core evm)\<lparr>ev_depth := ev_depth evm + 1\<rparr>"
    and ev: "evolves (ev_db evm) (read_only evm) (ev_StateDB evm) (ev_StateDB evm')"
    using assms by (simp_all add: evm_rel_def evm_core_depth read_only_def)
  have "ev_depth evm' = ev_depth evm + 1"
    using arg_cong [OF core, of ev_depth] by (simp add: evm_core_def)
  then have "evm_core (evm'\<lparr>ev_depth := ev_depth evm' - 1\<rparr>) = (evm_core evm)\<lparr>ev_depth := ev_depth evm\<rparr>"
    using core by (simp add: evm_core_depth)
  moreover have "(evm_core evm)\<lparr>ev_depth := ev_depth evm\<rparr> = evm_core evm"
    by (simp add: evm_core_def)
  ultimately show ?thesis
    using ev by (simp add: evm_rel_def)
qed

lemma Interpreter_Run_ok:
  assumes cl: "calls_ok cl G (Suc (ev_depth evm))" and evm: "evm_ok evm" and c: "contract_ok c" "length input < 2 ^ 62"
    and gas: "unat (ct_Gas c) \<le> G" "unat (ct_Gas c) < n"
  shows "\<exists>r c' evm'. Interpreter_Run cl n c input evm = Ret (r, c', evm') \<and> run_ok c evm r c' evm'"
proof -
  let ?evm = "evm\<lparr>ev_depth := ev_depth evm + 1, ev_returnData := []\<rparr>"
  let ?f = "newframe (c\<lparr>ct_Input := input\<rparr>) ?evm"
  have ok: "evm_ok ?evm"
    using evm by (simp add: evm_ok_def)
  show ?thesis
  proof (cases "ct_Code c = []")
    case True
    then show ?thesis
      using evm_rel_depth [OF evm_rel_refl [OF ok]] by (simp add: Interpreter_Run_def Let_def run_ok_def)
  next
    case False
    have "frame_ok ?f" "at_depth (Suc (ev_depth evm)) ?f"
      using ok c by (simp_all add: newframe_def frame_ok_def contract_ok_def mem_ok_def NewMemory_def at_depth_def)
    moreover have "fr_contract ?f = c\<lparr>ct_Input := input\<rparr>" "fr_evm ?f = ?evm"
      by (simp_all add: newframe_def)
    ultimately obtain r g where "Run_loop cl n ?f = Ret (r, g)" "run_ok (c\<lparr>ct_Input := input\<rparr>) ?evm r (fr_contract g) (fr_evm g)"
      using Run_loop_ok [OF cl, of ?f n] gas by auto
    then show ?thesis
      using False evm_rel_depth [of evm "fr_evm g"] by (simp add: Interpreter_Run_def Let_def run_ok_def)
  qed
qed

section \<open>Precompiled contracts\<close>

definition precompile_ok :: "PrecompiledContract \<Rightarrow> bool" where
  "precompile_ok p \<longleftrightarrow>
     (\<forall>input. length input < 2 ^ 62 \<longrightarrow>
        (\<exists>gas. pc_RequiredGas p input = Ret gas \<and>
           (unat gas < 2 ^ 60 \<longrightarrow> (\<exists>r. pc_Run p input = Ret r \<and> (\<forall>d. r = Inr d \<longrightarrow> length d < 2 ^ 62)))))"

lemma RunPrecompiledContract_ok:
  assumes p: "precompile_ok p" "length input < 2 ^ 62" and gas: "unat (ct_Gas c) < 2 ^ 60" and evm: "evm_ok evm"
  shows "\<exists>r c'. RunPrecompiledContract p input c = Ret (r, c') \<and> run_ok c evm r c' evm"
proof -
  obtain g where g: "pc_RequiredGas p input = Ret g"
    and run: "unat g < 2 ^ 60 \<longrightarrow> (\<exists>r. pc_Run p input = Ret r \<and> (\<forall>d. r = Inr d \<longrightarrow> length d < 2 ^ 62))"
    using p by (auto simp: precompile_ok_def)
  show ?thesis
  proof (cases "ct_Gas c < g")
    case True
    then show ?thesis
      using g evm_rel_refl [OF evm] by (simp add: RunPrecompiledContract_def UseGas_def run_ok_def)
  next
    case False
    then have "unat g < 2 ^ 60" "ct_Gas c - g \<le> ct_Gas c"
      using gas by (simp_all add: word_less_nat_alt word_le_nat_alt unat_sub not_less)
    then obtain r where "pc_Run p input = Ret r" "\<forall>d. r = Inr d \<longrightarrow> length d < 2 ^ 62"
      using run by blast
    then show ?thesis
      using False g evm_rel_refl [OF evm] \<open>ct_Gas c - g \<le> ct_Gas c\<close>
      by (cases r) (simp_all add: RunPrecompiledContract_def UseGas_def run_ok_def)
  qed
qed

lemma getData_ok:
  assumes "length data < 2 ^ 62" "unat sz < 2 ^ 62"
  obtains d where "getData data start sz = Ret d" "length d = unat sz"
proof -
  define len :: u64 where "len = of_nat (length data)"
  define st where "st = (if start > len then len else start)"
  define e where "e = (if st + sz > len then len else st + sz)"
  have len: "unat len = length data"
    using assms(1) by (simp add: len_def unat_of_nat)
  have st: "unat st \<le> length data"
    using len by (simp add: st_def word_less_nat_alt not_less)
  have "unat (st + sz) = unat st + unat sz"
    using st assms by (simp add: unat_word_ariths)
  then have e: "unat st \<le> unat e" "unat e \<le> length data" "unat e - unat st \<le> unat sz"
    using st len by (auto simp: e_def word_less_nat_alt not_less)
  have "getData data start sz = Ret (RightPadBytes (take (unat e - unat st) (drop (unat st) data)) (nat (sint sz)))"
    unfolding getData_def Let_def len_def [symmetric] st_def [symmetric] e_def [symmetric]
    using e by (simp add: go_slice_def)
  moreover have "nat (sint sz) = unat sz"
    using assms(2) by (simp add: sint_small)
  ultimately show ?thesis
    using that e(3) by simp
qed

lemma modexp_lens_ok:
  assumes "length input < 2 ^ 62"
  obtains bl el ml where "modexp_lens input = Ret (bl, el, ml)" "0 \<le> bl" "0 \<le> el" "0 \<le> ml"
proof -
  have "unat (32 :: u64) < 2 ^ 62"
    by simp
  from getData_ok [OF assms this] obtain b e m
    where "getData input 0 32 = Ret b" "getData input 32 32 = Ret e" "getData input 64 32 = Ret m"
    by metis
  then show ?thesis
    by (intro that [of "SetBytes b" "SetBytes e" "SetBytes m"]) (simp_all add: modexp_lens_def)
qed

text \<open>A price below \<open>2 ^ 60\<close> bounds the lengths it was computed from.\<close>

lemma multComplexity_ge: "0 \<le> x \<Longrightarrow> x \<le> multComplexity x" "1024 < x \<Longrightarrow> 285 * x \<le> multComplexity x"
proof -
  have "0 \<le> x * x div 4" "0 \<le> x * x div 16"
    by (simp_all add: pos_imp_zdiv_nonneg_iff)
  moreover have "x \<le> x * x" if "0 \<le> x"
    using that by (cases "x = 0") (simp_all add: mult_le_cancel_left1)
  ultimately show "0 \<le> x \<Longrightarrow> x \<le> multComplexity x" "1024 < x \<Longrightarrow> 285 * x \<le> multComplexity x"
    by (auto simp: multComplexity_def)
qed

lemma modexp_price:
  assumes "0 \<le> x" "x \<noteq> 0" "multComplexity x * BigMax adj 1 div 20 < 2 ^ 60"
  shows "x < 2 ^ 62" "adj < 20 * 2 ^ 60 + 20"
proof -
  let ?m = "multComplexity x"
  let ?a = "BigMax adj 1"
  have total: "?m * ?a < 20 * 2 ^ 60 + 20"
    using assms(3) by linarith
  have m: "1 \<le> ?m" and a: "1 \<le> ?a" "adj \<le> ?a"
    using multComplexity_ge(1) [OF assms(1)] assms(1,2) by (auto simp: BigMax_def)
  have "?m * 1 \<le> ?m * ?a" "1 * ?a \<le> ?m * ?a"
    using m a by (intro mult_left_mono mult_right_mono; simp)+
  then show "adj < 20 * 2 ^ 60 + 20"
    using total a(2) by linarith
  have "285 * x < 20 * 2 ^ 60 + 20" if "1024 < x"
    using \<open>?m * 1 \<le> ?m * ?a\<close> total multComplexity_ge(2) [OF that] by linarith
  then show "x < 2 ^ 62"
    by (cases "1024 < x") simp_all
qed

lemma Uint64_small: "0 \<le> x \<Longrightarrow> x < 2 ^ 62 \<Longrightarrow> unat (Uint64 x) < 2 ^ 62"
  using unat_Uint64 [of x] by (simp add: nat_less_iff)

lemma bigModExp_RequiredGas_ok:
  assumes "length input < 2 ^ 62" "modexp_lens input = Ret (bl, el, ml)" "0 \<le> bl" "0 \<le> el" "0 \<le> ml"
  shows "\<exists>gas. bigModExp_RequiredGas input = Ret gas \<and>
    (unat gas < 2 ^ 60 \<longrightarrow> bl = 0 \<and> ml = 0 \<or> bl < 2 ^ 62 \<and> el < 2 ^ 62 \<and> ml < 2 ^ 62)"
proof -
  let ?rest = "if length input > 96 then drop 96 input else []"
  have "unat (if el > 32 then 32 else Uint64 el) < 2 ^ 62"
    using Uint64_small [OF assms(4)] by simp
  moreover have "length ?rest < 2 ^ 62"
    using assms(1) by auto
  ultimately obtain d where d: "getData ?rest (Uint64 bl) (if el > 32 then 32 else Uint64 el) = Ret d"
    using getData_ok by metis
  define eh where "eh = (if int (length ?rest) \<le> bl then 0 else SetBytes d)"
  define adj where "adj = (if el > 32 then 8 * (el - 32) else 0) + int (if BitLen eh > 0 then BitLen eh - 1 else 0)"
  define gas where "gas = multComplexity (BigMax ml bl) * BigMax adj 1 div 20"
  have run: "bigModExp_RequiredGas input = Ret (if BitLen gas > 64 then MaxUint64 else Uint64 gas)"
    using d assms(2) by (simp add: bigModExp_RequiredGas_def Let_def gas_def adj_def eh_def)
  have "0 \<le> multComplexity (BigMax ml bl)" "0 \<le> BigMax adj 1"
    using multComplexity_ge(1) [of "BigMax ml bl"] assms(3,5) by (auto simp: BigMax_def)
  then have "0 \<le> gas"
    by (simp add: gas_def pos_imp_zdiv_nonneg_iff)
  have "bl < 2 ^ 62 \<and> el < 2 ^ 62 \<and> ml < 2 ^ 62"
    if "unat (if BitLen gas > 64 then MaxUint64 else Uint64 gas) < 2 ^ 60" "\<not> (bl = 0 \<and> ml = 0)"
  proof -
    have "BitLen gas \<le> 64" "unat (Uint64 gas) < 2 ^ 60"
      using that(1) by (auto simp: unat_MaxUint64 not_less split: if_splits)
    then have "gas < 2 ^ 60"
      using \<open>0 \<le> gas\<close> unat_Uint64 [of gas] by (simp add: BitLen_le_iff nat_less_iff)
    moreover have "0 \<le> BigMax ml bl" "BigMax ml bl \<noteq> 0"
      using that(2) assms(3,5) by (auto simp: BigMax_def)
    ultimately have "BigMax ml bl < 2 ^ 62" "adj < 20 * 2 ^ 60 + 20"
      using modexp_price [of "BigMax ml bl" adj] by (simp_all add: gas_def)
    then show ?thesis
      by (auto simp: BigMax_def adj_def split: if_splits)
  qed
  then show ?thesis
    using run by auto
qed

lemma bigModExp_Run_ok:
  assumes "length input < 2 ^ 62" "modexp_lens input = Ret (bl, el, ml)" "0 \<le> bl" "0 \<le> el" "0 \<le> ml"
    and "bl = 0 \<and> ml = 0 \<or> bl < 2 ^ 62 \<and> el < 2 ^ 62 \<and> ml < 2 ^ 62"
  shows "\<exists>d. bigModExp_Run input = Ret (Inr d) \<and> length d < 2 ^ 62"
proof (cases "Uint64 bl = 0 \<and> Uint64 ml = 0")
  case True
  then show ?thesis
    using assms(2) by (simp add: bigModExp_Run_def)
next
  case False
  let ?rest = "if length input > 96 then drop 96 input else []"
  have lens: "unat (Uint64 bl) < 2 ^ 62" "unat (Uint64 el) < 2 ^ 62" "unat (Uint64 ml) < 2 ^ 62" "length ?rest < 2 ^ 62"
    using False assms Uint64_small by (auto simp: Uint64_def)
  obtain b where b: "getData ?rest 0 (Uint64 bl) = Ret b"
    using getData_ok [OF lens(4,1)] by metis
  obtain e where e: "getData ?rest (Uint64 bl) (Uint64 el) = Ret e"
    using getData_ok [OF lens(4,2)] by metis
  obtain m where m: "getData ?rest (Uint64 bl + Uint64 el) (Uint64 ml) = Ret m" "length m = unat (Uint64 ml)"
    using getData_ok [OF lens(4,3)] by metis
  have size: "nat (sint (Uint64 ml)) = length m"
    using lens(3) m(2) by (simp add: sint_small)
  have short: "length (big_Bytes (x mod SetBytes m)) \<le> length m" if "SetBytes m \<noteq> 0" for x
  proof (rule length_big_Bytes_le)
    have "0 < SetBytes m"
      using that SetBytes_nonneg [of m] by linarith
    then have "0 \<le> x mod SetBytes m" "x mod SetBytes m < SetBytes m"
      by simp_all
    then show "\<bar>x mod SetBytes m\<bar> < 256 ^ length m"
      using SetBytes_less [of m] by linarith
  qed
  have "length (LeftPadBytes (big_Bytes (x mod SetBytes m)) (length m)) < 2 ^ 62" if "SetBytes m \<noteq> 0" for x
    using short [OF that, of x] lens(3) m(2) by simp
  moreover have "length (LeftPadBytes [] (length m)) < 2 ^ 62"
    using lens(3) m(2) by simp
  ultimately show ?thesis
    using False assms(2) b e m lens(3) size by (auto simp: bigModExp_Run_def Let_def simp del: length_LeftPadBytes)
qed

lemma precompile_bigModExp: "precompile_ok \<lparr>pc_RequiredGas = bigModExp_RequiredGas, pc_Run = bigModExp_Run\<rparr>"
  unfolding precompile_ok_def
proof (intro allI impI)
  fix input :: bytes
  assume *: "length input < 2 ^ 62"
  obtain bl el ml where lens: "modexp_lens input = Ret (bl, el, ml)" "0 \<le> bl" "0 \<le> el" "0 \<le> ml"
    using modexp_lens_ok [OF *] .
  obtain gas where gas: "bigModExp_RequiredGas input = Ret gas"
    "unat gas < 2 ^ 60 \<longrightarrow> bl = 0 \<and> ml = 0 \<or> bl < 2 ^ 62 \<and> el < 2 ^ 62 \<and> ml < 2 ^ 62"
    using bigModExp_RequiredGas_ok [OF * lens] by blast
  then show "\<exists>gas. pc_RequiredGas \<lparr>pc_RequiredGas = bigModExp_RequiredGas, pc_Run = bigModExp_Run\<rparr> input = Ret gas \<and>
      (unat gas < 2 ^ 60 \<longrightarrow> (\<exists>r. pc_Run \<lparr>pc_RequiredGas = bigModExp_RequiredGas, pc_Run = bigModExp_Run\<rparr> input = Ret r \<and>
        (\<forall>d. r = Inr d \<longrightarrow> length d < 2 ^ 62)))"
    using bigModExp_Run_ok [OF * lens] by fastforce
qed

lemma precompile_total:
  assumes "\<And>input. length input < 2 ^ 62 \<Longrightarrow>
    \<exists>r. run input = Ret r \<and> (\<forall>d. r = Inr d \<longrightarrow> length d < 2 ^ 62)"
  shows "precompile_ok \<lparr>pc_RequiredGas = (\<lambda>i. Ret (gas i)), pc_Run = run\<rparr>"
  using assms by (simp add: precompile_ok_def)

lemma ecrecover_ok: "precompile_ok \<lparr>pc_RequiredGas = (\<lambda>i. Ret (gas i)), pc_Run = ecrecover_Run be cr\<rparr>"
  by (rule precompile_total) (auto simp: ecrecover_Run_def Let_def Hash_Bytes_def split: option.split)

lemma newCurvePoint_cases: "newCurvePoint cr b = Inl errPrecompile \<or> newCurvePoint cr b = Inr b"
  "newTwistPoint cr b = Inl errPrecompile \<or> newTwistPoint cr b = Inr b"
  by (simp_all add: newCurvePoint_def newTwistPoint_def)

lemma bn256_ok:
  assumes "crypto_ok cr"
  shows "precompile_ok \<lparr>pc_RequiredGas = (\<lambda>i. Ret (gas i)), pc_Run = bn256Add_Run cr\<rparr>"
    "precompile_ok \<lparr>pc_RequiredGas = (\<lambda>i. Ret (gas i)), pc_Run = bn256ScalarMul_Run cr\<rparr>"
proof -
  have small: "unat (64 :: u64) < 2 ^ 62" "unat (32 :: u64) < 2 ^ 62"
    by simp_all
  show "precompile_ok \<lparr>pc_RequiredGas = (\<lambda>i. Ret (gas i)), pc_Run = bn256Add_Run cr\<rparr>"
  proof (rule precompile_total)
    fix input :: bytes
    assume len: "length input < 2 ^ 62"
    obtain a where a: "getData input 0 64 = Ret a"
      using getData_ok [OF len small(1)] by metis
    obtain b where "getData input 64 64 = Ret b"
      using getData_ok [OF len small(1)] by metis
    with a assms show "\<exists>r. bn256Add_Run cr input = Ret r \<and> (\<forall>d. r = Inr d \<longrightarrow> length d < 2 ^ 62)"
      using newCurvePoint_cases(1) [of cr a] newCurvePoint_cases(1) [of cr b] by (auto simp: bn256Add_Run_def crypto_ok_def)
  qed
  show "precompile_ok \<lparr>pc_RequiredGas = (\<lambda>i. Ret (gas i)), pc_Run = bn256ScalarMul_Run cr\<rparr>"
  proof (rule precompile_total)
    fix input :: bytes
    assume len: "length input < 2 ^ 62"
    obtain a where a: "getData input 0 64 = Ret a"
      using getData_ok [OF len small(1)] by metis
    obtain b where "getData input 64 32 = Ret b"
      using getData_ok [OF len small(2)] by metis
    with a assms show "\<exists>r. bn256ScalarMul_Run cr input = Ret r \<and> (\<forall>d. r = Inr d \<longrightarrow> length d < 2 ^ 62)"
      using newCurvePoint_cases(1) [of cr a] by (auto simp: bn256ScalarMul_Run_def crypto_ok_def)
  qed
qed

lemma bn256Pairing_ok: "precompile_ok \<lparr>pc_RequiredGas = (\<lambda>i. Ret (gas i)), pc_Run = bn256Pairing_Run cr\<rparr>"
  by (rule precompile_total) (auto simp: bn256Pairing_Run_def split: sum.split)

lemma precompiles_ok:
  assumes "evm_ok evm" "precompiles evm addr = Some p"
  shows "precompile_ok p"
proof -
  have cr: "crypto_ok (ev_crypto evm)"
    using assms(1) by (simp add: evm_ok_def)
  have "precompile_ok \<lparr>pc_RequiredGas = (\<lambda>i. Ret (sha256_RequiredGas i)), pc_Run = (\<lambda>i. Ret (Inr (cr_sha256 (ev_crypto evm) i)))\<rparr>"
    "precompile_ok \<lparr>pc_RequiredGas = (\<lambda>i. Ret (ripemd160_RequiredGas i)),
       pc_Run = (\<lambda>i. Ret (Inr (LeftPadBytes (cr_ripemd160 (ev_crypto evm) i) 32)))\<rparr>"
    "precompile_ok \<lparr>pc_RequiredGas = (\<lambda>i. Ret (dataCopy_RequiredGas i)), pc_Run = (\<lambda>i. Ret (Inr i))\<rparr>"
    using cr by (auto intro!: precompile_total simp: crypto_ok_def)
  then have "precompile_ok p" if "PrecompiledContractsHomestead (ev_db evm) (ev_crypto evm) addr = Some p"
    using that ecrecover_ok by (auto simp: PrecompiledContractsHomestead_def split: if_splits)
  then show ?thesis
    using assms(2) precompile_bigModExp bn256_ok [OF cr] bn256Pairing_ok
    by (auto simp: precompiles_def PrecompiledContractsByzantium_def split: if_splits)
qed

lemma evm_run_ok:
  assumes cl: "calls_ok cl G (Suc (ev_depth evm))" and evm: "evm_ok evm" and c: "contract_ok c" "length input < 2 ^ 62"
    and gas: "unat (ct_Gas c) \<le> G" "G < n" "G < 2 ^ 60"
  shows "\<exists>r c' evm'. evm_run cl n c input evm = Ret (r, c', evm') \<and> run_ok c evm r c' evm'"
proof -
  have int: "\<exists>r c' evm'. Interpreter_Run cl n c input evm = Ret (r, c', evm') \<and> run_ok c evm r c' evm'"
    using gas by (intro Interpreter_Run_ok [OF cl evm c]) simp_all
  show ?thesis
  proof (cases "\<exists>addr p. ct_CodeAddr c = Some addr \<and> precompiles evm addr = Some p")
    case True
    then obtain addr p where p: "ct_CodeAddr c = Some addr" "precompiles evm addr = Some p"
      by blast
    have "unat (ct_Gas c) < 2 ^ 60"
      using gas by linarith
    from RunPrecompiledContract_ok [OF precompiles_ok [OF evm p(2)] c(2) this evm] show ?thesis
      using p by (auto simp: evm_run_def)
  next
    case False
    then show ?thesis
      using int by (auto simp: evm_run_def split: option.split)
  qed
qed

end
