(* ===== verification/VM_Safety.thy ===== *)
theory VM_Safety
  imports VM_Run
begin

text \<open>
  The calls of the machine keep their contract: with less gas than fuel for the instructions of a
  frame and one level of nesting for each depth up to \<open>CallCreateDepth\<close>, every call returns, hands
  back no more gas than it got, and undoes its changes if it fails.
\<close>

section \<open>The parts of a call\<close>

lemma call_ok_ret:
  assumes "evm_rel evm evm'" "sim (ev_db evm) (ev_StateDB evm') (ev_StateDB evm)"
  shows "call_ok evm gas (Ret (([], gas, e), evm'))"
  using assms by (simp add: call_ok_def)

lemma call_ok_pre:
  assumes "evm_rel evm evm1" "sim (ev_db evm) (ev_StateDB evm1) (ev_StateDB evm)" "call_ok evm1 gas r"
  shows "call_ok evm gas r"
proof -
  obtain ret g err evm' where r: "r = Ret ((ret, g, err), evm')" "g \<le> gas" "evm_rel evm1 evm'" "length ret < 2 ^ 62"
    "err \<noteq> None \<longrightarrow> sim (ev_db evm1) (ev_StateDB evm') (ev_StateDB evm1)"
    using assms(3) unfolding call_ok_def by blast
  have db: "ev_db evm1 = ev_db evm"
    using assms(1) evm_coreD(10) unfolding evm_rel_def by blast
  have "evm_rel evm evm'"
    by (rule evm_rel_trans [OF assms(1) r(3)])
  moreover have "err \<noteq> None \<longrightarrow> sim (ev_db evm) (ev_StateDB evm') (ev_StateDB evm)"
    using r(5) assms(2) sim_trans unfolding db by blast
  ultimately show ?thesis
    using r(1,2,4) unfolding call_ok_def by blast
qed

lemma evm_rel_set: "evm_ok evm \<Longrightarrow> evolves (ev_db evm) (read_only evm) (ev_StateDB evm) s \<Longrightarrow> evm_rel evm (evm\<lparr>ev_StateDB := s\<rparr>)"
  by (rule evm_rel_state [OF evm_rel_refl])

lemma evm_ok_set: "evm_ok evm \<Longrightarrow> vm_state_ok (ev_db evm) s \<Longrightarrow> evm_ok (evm\<lparr>ev_StateDB := s\<rparr>)"
  by (simp add: evm_ok_def)

lemma evm_state_ok: "evm_ok evm \<Longrightarrow> vm_state_ok (ev_db evm) (ev_StateDB evm)"
  by (simp add: evm_ok_def)

lemma read_only_set [simp]: "read_only (evm\<lparr>ev_StateDB := s\<rparr>) = read_only evm"
  by (simp add: read_only_def)

lemma loadCode_ok:
  assumes "evm_ok evm" "loadCode addr c evm = (c', evm')" "0 \<le> ct_value c" "ct_Input c = []"
  shows "evm_rel evm evm'" "contract_ok c'" "ct_Gas c' = ct_Gas c"
proof -
  obtain h s where h: "GetCodeHash (ev_db evm) addr (ev_StateDB evm) = (h, s)"
    by (cases "GetCodeHash (ev_db evm) addr (ev_StateDB evm)")
  obtain code t where code: "GetCode (ev_db evm) addr s = (code, t)"
    by (cases "GetCode (ev_db evm) addr s")
  have *: "c' = SetCallCode addr h (case code of None \<Rightarrow> [] | Some b \<Rightarrow> b) c" "evm' = evm\<lparr>ev_StateDB := t\<rparr>"
    using assms(2) h code by (simp_all add: loadCode_def on_state_def)
  have s: "evolves (ev_db evm) (read_only evm) (ev_StateDB evm) s"
    by (rule GetCodeHash_evolves(1) [OF evm_state_ok [OF assms(1)] h])
  note t = evolves_ok [OF s]
  show "evm_rel evm evm'"
    unfolding * using evolves_trans [OF s GetCode_evolves(1) [OF t code]] by (rule evm_rel_set [OF assms(1)])
  show "contract_ok c'"
    unfolding * using GetCode_evolves(2) [OF t code] assms(3,4)
    by (auto simp: contract_ok_def SetCallCode_def split: option.split)
  show "ct_Gas c' = ct_Gas c"
    by (simp add: * SetCallCode_def)
qed

text \<open>The state after a revert to the snapshot taken in \<open>evm\<close>.\<close>

lemma revert_ok:
  assumes evm: "evm_ok evm" "Snapshot (ev_StateDB evm) = (i, s1)" and rel: "evm_rel (evm\<lparr>ev_StateDB := s1\<rparr>) evm'"
  shows "\<exists>t. RevertToSnapshot (ev_db evm') i (ev_StateDB evm') = Ret t \<and> evm_rel evm (evm'\<lparr>ev_StateDB := t\<rparr>) \<and>
    sim (ev_db evm) t (ev_StateDB evm)"
proof -
  have core: "evm_core evm' = evm_core evm" and ev: "evolves (ev_db evm) (read_only evm) s1 (ev_StateDB evm')"
    using rel by (simp_all add: evm_rel_def)
  obtain t where "RevertToSnapshot (ev_db evm) i (ev_StateDB evm') = Ret t" "sim (ev_db evm) t (ev_StateDB evm)"
    "evolves (ev_db evm) (read_only evm) (ev_StateDB evm) t"
    using Revert_evolves [OF evm_state_ok [OF evm(1)] evm(2) ev] by blast
  then show ?thesis
    using core by (simp add: evm_coreD(10) [OF core] evm_rel_def)
qed

lemma snapshot_rel:
  assumes "evm_ok evm" "Snapshot (ev_StateDB evm) = (i, s1)"
  shows "evm_rel evm (evm\<lparr>ev_StateDB := s1\<rparr>)" "evm_ok (evm\<lparr>ev_StateDB := s1\<rparr>)"
    "sim (ev_db evm) s1 (ev_StateDB evm)"
proof -
  note s = Snapshot_evolves [OF evm_state_ok [OF assms(1)] assms(2)]
  show "evm_rel evm (evm\<lparr>ev_StateDB := s1\<rparr>)" "sim (ev_db evm) s1 (ev_StateDB evm)"
    using s evm_rel_set [OF assms(1)] by auto
  then show "evm_ok (evm\<lparr>ev_StateDB := s1\<rparr>)"
    using evm_rel_ok assms(1) by blast
qed

lemma afterRun_ok:
  assumes evm: "evm_ok evm" "Snapshot (ev_StateDB evm) = (i, s1)"
    and rel: "evm_rel (evm\<lparr>ev_StateDB := s1\<rparr>) evm1" and run: "run_ok c evm1 r c' evm'"
  shows "call_ok evm (ct_Gas c) (afterRun i (r, c', evm'))"
proof -
  obtain ret err where r: "r = (ret, err)"
    by (cases r)
  have evm': "evm_rel (evm\<lparr>ev_StateDB := s1\<rparr>) evm'" and ret: "length ret < 2 ^ 62"
    and gas: "err \<in> {None, Some errExecutionReverted} \<longrightarrow> ct_Gas c' \<le> ct_Gas c"
    using evm_rel_trans [OF rel] run r by (auto simp: run_ok_def)
  show ?thesis
  proof (cases err)
    case None
    then show ?thesis
      using evm_rel_trans [OF snapshot_rel(1) [OF evm] evm'] ret gas by (simp add: afterRun_def r call_ok_def)
  next
    case (Some e)
    obtain t where t: "RevertToSnapshot (ev_db evm') i (ev_StateDB evm') = Ret t" "evm_rel evm (evm'\<lparr>ev_StateDB := t\<rparr>)"
      "sim (ev_db evm) t (ev_StateDB evm)"
      using revert_ok [OF evm evm'] by blast
    then show ?thesis
      using Some ret gas by (auto simp: afterRun_def r call_ok_def UseGas_def)
  qed
qed

text \<open>From the snapshot on: the changes before the code runs, the code, and what follows it.\<close>

lemma call_run:
  assumes cl: "calls_ok cl G (Suc (ev_depth evm))" and evm: "evm_ok evm" "Snapshot (ev_StateDB evm) = (i, s1)"
    and s2: "evolves (ev_db evm) (read_only evm) s1 s2" and c: "0 \<le> ct_value c" "ct_Input c = []" "length input < 2 ^ 62"
    and gas: "unat (ct_Gas c) \<le> G" "G < n" "G < 2 ^ 60" and load: "loadCode addr c (evm\<lparr>ev_StateDB := s2\<rparr>) = (c1, evm1)"
  shows "call_ok evm (ct_Gas c) (go_bind (evm_run cl n c1 input evm1) (afterRun i))"
proof -
  have rel: "evm_rel (evm\<lparr>ev_StateDB := s1\<rparr>) (evm\<lparr>ev_StateDB := s2\<rparr>)"
    using evm_rel_set [OF snapshot_rel(2) [OF evm]] s2 by simp
  then have ok: "evm_ok (evm\<lparr>ev_StateDB := s2\<rparr>)"
    using evm_rel_ok snapshot_rel(2) [OF evm] by blast
  note l = loadCode_ok [OF ok load c(1,2)]
  have rel1: "evm_rel (evm\<lparr>ev_StateDB := s1\<rparr>) evm1"
    by (rule evm_rel_trans [OF rel l(1)])
  then have core: "evm_core evm1 = evm_core evm"
    by (simp add: evm_rel_def)
  have "calls_ok cl G (Suc (ev_depth evm1))"
    using cl by (simp add: evm_coreD(2) [OF core])
  moreover have "unat (ct_Gas c1) \<le> G"
    using gas(1) by (simp add: l(3))
  ultimately obtain r c' evm' where "evm_run cl n c1 input evm1 = Ret (r, c', evm')" "run_ok c1 evm1 r c' evm'"
    using evm_run_ok [OF _ evm_rel_ok [OF l(1) ok] l(2) c(3) _ gas(2,3)] by blast
  then show ?thesis
    using afterRun_ok [OF evm rel1, of c1] by (simp add: l(3))
qed

section \<open>The calls\<close>

lemma NewContract_simps [simp]:
  "ct_value (NewContract caller a v gas) = v" "ct_Input (NewContract caller a v gas) = []"
  "ct_Gas (NewContract caller a v gas) = gas"
  by (simp_all add: NewContract_def)

lemma sim_balance: "sim be s' s \<Longrightarrow> view_or_fresh be s' = view_or_fresh be s"
  by (simp add: sim_def view_or_fresh_def fun_eq_iff)

lemma CreateAccount_balance:
  assumes "vm_state_ok be s"
  shows "av_balance (view_or_fresh be (CreateAccount be a s) b) = av_balance (view_or_fresh be s b)"
  using CreateAccount_ok(2) [OF vm_state_objs_ok [OF assms], of a] by (auto simp: view_or_fresh_def)

text \<open>What a call has checked and changed before the code of the account runs.\<close>

lemma canTransfer_rel:
  assumes "evm_ok evm" "CanTransfer (ev_db evm) a v (ev_StateDB evm) = (b, s)" "0 \<le> v"
  shows "evm_rel evm (evm\<lparr>ev_StateDB := s\<rparr>)" "evm_ok (evm\<lparr>ev_StateDB := s\<rparr>)" "sim (ev_db evm) s (ev_StateDB evm)"
    "b \<Longrightarrow> v \<le> av_balance (view_or_fresh (ev_db evm) s a)"
proof -
  note c = CanTransfer_evolves [OF evm_state_ok [OF assms(1)] assms(2)]
  show *: "evm_rel evm (evm\<lparr>ev_StateDB := s\<rparr>)" "sim (ev_db evm) s (ev_StateDB evm)"
    using evm_rel_set [OF assms(1) c(1)] c(2) by simp_all
  show "evm_ok (evm\<lparr>ev_StateDB := s\<rparr>)"
    by (rule evm_rel_ok [OF *(1) assms(1)])
  show "v \<le> av_balance (view_or_fresh (ev_db evm) s a)" if b
    using c(3) [OF that] balance_nonneg [OF evm_state_ok [OF assms(1)], of a] assms(3) by (auto simp: sim_balance [OF c(2)])
qed

lemma open_account:
  assumes s: "vm_state_ok be s" "state_Exist be addr s = (exist, s1)" and v: "0 \<le> v" "v \<le> av_balance (view_or_fresh be s a)"
    and ro: "ro \<longrightarrow> v = 0"
  shows "evolves be ro s (Transfer be a addr v (if \<not> exist then CreateAccount be addr s1 else s1))"
proof -
  note e = Exist_evolves [OF s]
  note s1 = evolves_ok [OF e(1)]
  let ?s2 = "if \<not> exist then CreateAccount be addr s1 else s1"
  have "exist \<or> view be s1 addr = None"
    using e(2,3) by (auto simp: sim_def)
  then have s2: "evolves be ro s1 ?s2"
    using CreateAccount_evolves [OF s1, of ro addr] evolves_refl [OF s1] by auto
  have "v \<le> av_balance (view_or_fresh be ?s2 a)"
    using v(2) CreateAccount_balance [OF s1, of addr a] by (simp add: sim_balance [OF e(2)])
  from evolves_trans [OF evolves_trans [OF e(1) s2] Transfer_evolves [OF evolves_ok [OF s2] v(1) this ro]] show ?thesis .
qed

lemma EVM_Call_ok:
  assumes cl: "ev_depth evm \<le> 1024 \<Longrightarrow> calls_ok cl G (Suc (ev_depth evm))" and evm: "evm_ok evm"
    and args: "length input < 2 ^ 62" "0 \<le> value" "read_only evm \<longrightarrow> value = 0"
    and gas: "unat gas \<le> G" "G < n" "G < 2 ^ 60"
  shows "call_ok evm gas (EVM_Call cl n caller addr input gas value evm)"
proof -
  obtain enough s where can: "CanTransfer (ev_db evm) (ref_Address caller) value (ev_StateDB evm) = (enough, s)"
    by (cases "CanTransfer (ev_db evm) (ref_Address caller) value (ev_StateDB evm)")
  obtain i s1 where snap: "Snapshot s = (i, s1)"
    by (cases "Snapshot s")
  obtain exist s2 where exist: "state_Exist (ev_db evm) addr s1 = (exist, s2)"
    by (cases "state_Exist (ev_db evm) addr s1")
  let ?evm = "evm\<lparr>ev_StateDB := s\<rparr>"
  let ?s3 = "Transfer (ev_db evm) (ref_Address caller) addr value (if \<not> exist then CreateAccount (ev_db evm) addr s2 else s2)"
  obtain c1 evm1 where load: "loadCode addr (NewContract caller addr value gas) (evm\<lparr>ev_StateDB := ?s3\<rparr>) = (c1, evm1)"
    by (cases "loadCode addr (NewContract caller addr value gas) (evm\<lparr>ev_StateDB := ?s3\<rparr>)")
  note ct = canTransfer_rel [OF evm can args(2)]
  have snap': "Snapshot (ev_StateDB ?evm) = (i, s1)"
    using snap by simp
  note sn = snapshot_rel [OF ct(2) snap']
  have "vm_state_ok (ev_db evm) s1"
    using evm_state_ok [OF sn(2)] by simp
  note ex = Exist_evolves [OF this exist]
  have s2: "evm_rel evm (evm\<lparr>ev_StateDB := s2\<rparr>)" "sim (ev_db evm) s2 (ev_StateDB evm)"
    using evm_rel_trans [OF evm_rel_trans [OF ct(1) sn(1)] evm_rel_set [OF sn(2), of s2]] ex(1)
      sim_trans [OF sim_trans [OF ex(2)] ct(3)] sn(3) by simp_all
  have early: "call_ok evm gas (Ret (([], gas, e), evm\<lparr>ev_StateDB := s\<rparr>))" "call_ok evm gas (Ret (([], gas, e), evm))"
    "call_ok evm gas (Ret (([], gas, e), evm\<lparr>ev_StateDB := s2\<rparr>))" for e
    using call_ok_ret [OF ct(1)] ct(3) call_ok_ret [OF evm_rel_refl [OF evm]] call_ok_ret [OF s2(1)] s2(2) by simp_all
  have run: "call_ok evm gas (go_bind (evm_run cl n c1 input evm1) (afterRun i))" if "ev_depth evm \<le> 1024" enough
  proof -
    have "value \<le> av_balance (view_or_fresh (ev_db evm) s1 (ref_Address caller))"
      using ct(4) that(2) sim_balance [OF sn(3)] by simp
    then have "evolves (ev_db evm) (read_only evm) s1 ?s3"
      by (rule open_account [OF \<open>vm_state_ok (ev_db evm) s1\<close> exist args(2) _ args(3)])
    then have "call_ok ?evm gas (go_bind (evm_run cl n c1 input evm1) (afterRun i))"
      using call_run [OF _ ct(2) snap', of cl G ?s3 "NewContract caller addr value gas" input n addr c1 evm1]
        cl [OF that(1)] args gas load by simp
    then show ?thesis
      using call_ok_pre [OF ct(1)] ct(3) by simp
  qed
  show ?thesis
    using early run can snap exist load by (cases exist) (simp_all add: EVM_Call_def on_state_def upd_state_def Let_def)
qed

lemma evolves_snapshot:
  assumes "evm_ok evm" "Snapshot (ev_StateDB evm) = (i, s1)"
  shows "evolves (ev_db evm) ro s1 s1"
  using evolves_refl [of "ev_db evm" s1] evm_state_ok [OF snapshot_rel(2) [OF assms]] by simp

lemma EVM_CallCode_ok:
  assumes cl: "ev_depth evm \<le> 1024 \<Longrightarrow> calls_ok cl G (Suc (ev_depth evm))" and evm: "evm_ok evm"
    and args: "length input < 2 ^ 62" "0 \<le> value" and gas: "unat gas \<le> G" "G < n" "G < 2 ^ 60"
  shows "call_ok evm gas (EVM_CallCode cl n caller addr input gas value evm)"
proof -
  obtain enough s where can: "CanTransfer (ev_db evm) (ref_Address caller) value (ev_StateDB evm) = (enough, s)"
    by (cases "CanTransfer (ev_db evm) (ref_Address caller) value (ev_StateDB evm)")
  obtain i s1 where snap: "Snapshot s = (i, s1)"
    by (cases "Snapshot s")
  let ?c = "NewContract caller (ref_Address caller) value gas"
  obtain c1 evm1 where load: "loadCode addr ?c (evm\<lparr>ev_StateDB := s1\<rparr>) = (c1, evm1)"
    by (cases "loadCode addr ?c (evm\<lparr>ev_StateDB := s1\<rparr>)")
  note ct = canTransfer_rel [OF evm can args(2)]
  have snap': "Snapshot (ev_StateDB (evm\<lparr>ev_StateDB := s\<rparr>)) = (i, s1)"
    using snap by simp
  have early: "call_ok evm gas (Ret (([], gas, e), evm\<lparr>ev_StateDB := s\<rparr>))" "call_ok evm gas (Ret (([], gas, e), evm))" for e
    using call_ok_ret [OF ct(1)] ct(3) call_ok_ret [OF evm_rel_refl [OF evm]] by simp_all
  have run: "call_ok evm gas (go_bind (evm_run cl n c1 input evm1) (afterRun i))" if "ev_depth evm \<le> 1024"
    using call_run [OF _ ct(2) snap', of cl G s1 ?c input n addr c1 evm1] evolves_snapshot [OF ct(2) snap']
      cl [OF that] args gas load call_ok_pre [OF ct(1)] ct(3) by simp
  show ?thesis
    using early run can snap load by (simp add: EVM_CallCode_def on_state_def Let_def)
qed

lemma EVM_DelegateCall_ok:
  assumes cl: "ev_depth evm \<le> 1024 \<Longrightarrow> calls_ok cl G (Suc (ev_depth evm))" and evm: "evm_ok evm"
    and args: "length input < 2 ^ 62" "0 \<le> ct_value parent" and gas: "unat gas \<le> G" "G < n" "G < 2 ^ 60"
  shows "call_ok evm gas (EVM_DelegateCall cl n (ContractOf parent) addr input gas evm)"
proof -
  obtain i s1 where snap: "Snapshot (ev_StateDB evm) = (i, s1)"
    by (cases "Snapshot (ev_StateDB evm)")
  let ?c = "(NewContract (ContractOf parent) (ct_self parent) 0 gas)
    \<lparr>ct_DelegateCall := True, ct_CallerAddress := ct_CallerAddress parent, ct_value := ct_value parent\<rparr>"
  obtain c1 evm1 where load: "loadCode addr ?c (evm\<lparr>ev_StateDB := s1\<rparr>) = (c1, evm1)"
    by (cases "loadCode addr ?c (evm\<lparr>ev_StateDB := s1\<rparr>)")
  have run: "call_ok evm gas (go_bind (evm_run cl n c1 input evm1) (afterRun i))" if "ev_depth evm \<le> 1024"
    using call_run [OF _ evm snap, of cl G s1 ?c input n addr c1 evm1] evolves_snapshot [OF evm snap]
      cl [OF that] args gas load by simp
  show ?thesis
    using call_ok_ret [OF evm_rel_refl [OF evm]] run snap load by (simp add: EVM_DelegateCall_def AsDelegate_def on_state_def Let_def)
qed

text \<open>A static call sets the read-only flag, and takes it back unless it was set before.\<close>

lemma evm_core_readOnly: "evm_core (evm\<lparr>ev_readOnly := b\<rparr>) = (evm_core evm)\<lparr>ev_readOnly := b\<rparr>"
  by (simp add: evm_core_def)

lemma static_back:
  assumes "evm_rel (evm\<lparr>ev_readOnly := True\<rparr>) evm'"
  shows "evm_rel evm (if \<not> ev_readOnly evm then evm'\<lparr>ev_readOnly := False\<rparr> else evm')"
proof -
  have core: "evm_core evm' = (evm_core evm)\<lparr>ev_readOnly := True\<rparr>"
    using assms by (simp add: evm_rel_def evm_core_readOnly)
  have "(evm_core evm)\<lparr>ev_readOnly := ev_readOnly evm\<rparr> = evm_core evm"
    by (simp add: evm_core_def)
  then have "evm_core (if \<not> ev_readOnly evm then evm'\<lparr>ev_readOnly := False\<rparr> else evm') = evm_core evm"
    using core by (cases "ev_readOnly evm") (simp_all add: evm_core_readOnly)
  moreover have "evolves (ev_db evm) (read_only evm) (ev_StateDB evm) (ev_StateDB evm')"
    using assms evolves_weaken [of "ev_db evm" "RulesIsByzantium (ev_chainRules evm)"] by (simp add: evm_rel_def read_only_def)
  ultimately show ?thesis
    by (simp add: evm_rel_def)
qed

lemma EVM_StaticCall_rel:
  assumes cl: "ev_depth evm \<le> 1024 \<Longrightarrow> calls_ok cl G (Suc (ev_depth evm))" and evm: "evm_ok evm"
    and args: "length input < 2 ^ 62" and gas: "unat gas \<le> G" "G < n" "G < 2 ^ 60"
  shows "(\<exists>e. EVM_StaticCall cl n caller addr input gas evm = Ret (([], gas, e), evm)) \<or>
    (\<exists>r evm'. call_ok (evm\<lparr>ev_readOnly := True\<rparr>) gas (Ret (r, evm')) \<and>
       EVM_StaticCall cl n caller addr input gas evm = Ret (r, if \<not> ev_readOnly evm then evm'\<lparr>ev_readOnly := False\<rparr> else evm'))"
proof -
  let ?evm = "evm\<lparr>ev_readOnly := True\<rparr>"
  have ok: "evm_ok ?evm"
    using evm by (simp add: evm_ok_def)
  obtain i s1 where snap: "Snapshot (ev_StateDB evm) = (i, s1)"
    by (cases "Snapshot (ev_StateDB evm)")
  have snap': "Snapshot (ev_StateDB ?evm) = (i, s1)"
    using snap by simp
  obtain c1 evm1 where load: "loadCode addr (NewContract caller addr 0 gas) (?evm\<lparr>ev_StateDB := s1\<rparr>) = (c1, evm1)"
    by (cases "loadCode addr (NewContract caller addr 0 gas) (?evm\<lparr>ev_StateDB := s1\<rparr>)")
  show ?thesis
  proof (cases "cfg_NoRecursion (ev_vmConfig evm) \<and> ev_depth evm > 0 \<or> ev_depth evm > 1024")
    case True
    then show ?thesis
      by (auto simp: EVM_StaticCall_def)
  next
    case False
    then have "call_ok ?evm gas (go_bind (evm_run cl n c1 input evm1) (afterRun i))"
      using call_run [OF _ ok snap', of cl G s1 "NewContract caller addr 0 gas" input n addr c1 evm1] evolves_snapshot [OF ok snap']
        cl args gas load by simp
    moreover from this obtain r evm' where r: "go_bind (evm_run cl n c1 input evm1) (afterRun i) = Ret (r, evm')"
      unfolding call_ok_def by auto
    ultimately have "call_ok ?evm gas (Ret (r, evm'))"
      by simp
    moreover have "EVM_StaticCall cl n caller addr input gas evm = Ret (r, if \<not> ev_readOnly evm then evm'\<lparr>ev_readOnly := False\<rparr> else evm')"
      using False snap load by (simp add: EVM_StaticCall_def on_state_def Let_def r not_less) linarith
    ultimately show ?thesis
      by blast
  qed
qed

lemma EVM_StaticCall_ok:
  assumes cl: "ev_depth evm \<le> 1024 \<Longrightarrow> calls_ok cl G (Suc (ev_depth evm))" and evm: "evm_ok evm"
    and args: "length input < 2 ^ 62" and gas: "unat gas \<le> G" "G < n" "G < 2 ^ 60"
  shows "call_ok evm gas (EVM_StaticCall cl n caller addr input gas evm)"
proof -
  have "call_ok evm gas (Ret (r, if \<not> ev_readOnly evm then evm'\<lparr>ev_readOnly := False\<rparr> else evm'))"
    if "call_ok (evm\<lparr>ev_readOnly := True\<rparr>) gas (Ret (r, evm'))" for r evm'
    using that static_back [of evm evm'] by (auto simp: call_ok_def)
  moreover have "call_ok evm gas (Ret (([], gas, e), evm))" for e
    using call_ok_ret [OF evm_rel_refl [OF evm]] by simp
  ultimately show ?thesis
    using EVM_StaticCall_rel [OF cl evm args gas, of caller addr] by metis
qed

lemma EVM_StaticCall_quiet:
  assumes cl: "ev_depth evm \<le> 1024 \<Longrightarrow> calls_ok cl G (Suc (ev_depth evm))" and evm: "evm_ok evm"
    and args: "length input < 2 ^ 62" and gas: "unat gas \<le> G" "G < n" "G < 2 ^ 60"
    and rules: "RulesIsByzantium (ev_chainRules evm)" and ret: "EVM_StaticCall cl n caller addr input gas evm = Ret (r, evm')"
  shows "quiet (ev_db evm) (ev_StateDB evm) (ev_StateDB evm')"
proof -
  have "quiet (ev_db evm) (ev_StateDB evm) (ev_StateDB evm2)"
    if "call_ok (evm\<lparr>ev_readOnly := True\<rparr>) gas (Ret (r', evm2))" for r' evm2
    using that rules by (auto simp: call_ok_def evm_rel_def evolves_def read_only_def)
  then show ?thesis
    using EVM_StaticCall_rel [OF cl evm args gas, of caller addr] ret by (auto split: if_splits)
qed

section \<open>Create\<close>

lemma create_ok_pre:
  assumes "evm_rel evm evm1" "create_ok evm1 gas r"
  shows "create_ok evm gas r"
  using assms(2) evm_rel_trans [OF assms(1)] unfolding create_ok_def by blast

lemma evm_number_core:
  assumes "evm_core evm' = evm_core evm"
  shows "ev_number evm' = ev_number evm"
  by (simp add: ev_number_def evm_coreD(1) [OF assms])

lemma storeCode_ok:
  assumes evm: "evm_ok evm" "Snapshot (ev_StateDB evm) = (i, s1)" "\<not> read_only evm"
    and rel: "evm_rel (evm\<lparr>ev_StateDB := s1\<rparr>) evm1" and run: "run_ok c evm1 r c' evm'"
  shows "create_ok evm (ct_Gas c) (storeCode i addr (r, c', evm'))"
proof -
  obtain ret err where r: "r = (ret, err)"
    by (cases r)
  have evm': "evm_rel (evm\<lparr>ev_StateDB := s1\<rparr>) evm'" and ret: "length ret < 2 ^ 62"
    and gas: "err \<in> {None, Some errExecutionReverted, Some ErrCodeStoreOutOfGas} \<longrightarrow> ct_Gas c' \<le> ct_Gas c"
    using evm_rel_trans [OF rel] run r by (auto simp: run_ok_def)
  note reverted = revert_ok [OF evm(1,2) evm']
  have keep: "evm_rel evm evm'"
    by (rule evm_rel_trans [OF snapshot_rel(1) [OF evm(1,2)] evm'])
  have core: "evm_core evm' = evm_core evm"
    using keep by (simp add: evm_rel_def)
  have "evolves (ev_db evm') False (ev_StateDB evm') (SetCode (ev_db evm') addr ret (ev_StateDB evm'))"
    by (rule SetCode_evolves [OF evm_state_ok [OF evm_rel_ok [OF keep evm(1)]] ret])
  then have set: "evm_rel evm (upd_state (\<lambda>be. SetCode be addr ret) evm')"
    using evm_rel_state [OF keep] evm(3) by (simp add: upd_state_def evm_coreD(10) [OF core])
  have less: "ct_Gas c' - x \<le> ct_Gas c" if "\<not> ct_Gas c' < x" "ct_Gas c' \<le> ct_Gas c" for x
    using that by (simp add: word_le_nat_alt word_less_nat_alt unat_sub)
  obtain t where t: "RevertToSnapshot (ev_db evm') i (ev_StateDB evm') = Ret t" "evm_rel evm (evm'\<lparr>ev_StateDB := t\<rparr>)"
    using reverted by blast
  define big where "big \<longleftrightarrow> IsEIP158 (ev_chainConfig evm') (ev_number evm') \<and> length ret > MaxCodeSize"
  show ?thesis
    unfolding storeCode_def r prod.case Let_def big_def [symmetric] UseGas_def
    using keep set t gas ret less by (cases err; cases big) (auto simp: create_ok_def)
qed

lemma CreateAddress_ok: "\<exists>a. CreateAddress be b nonce = Ret a"
proof -
  let ?v = "VSlice False [VBytes (Address_Bytes b), VUint nonce]"
  have n: "length (big_Bytes (uint nonce)) \<le> 8"
    using uint_bounded [of nonce] by (intro length_big_Bytes_le) simp
  have "length (rlp_string d) \<le> 1 + length d" if "length d < 56" for d
    using that by (simp add: rlp_string_def headsize_of_nat)
  from this [of "Address_Bytes b"] this [of "big_Bytes (uint nonce)"] n
  have content: "length (concat (map rlp_encode [VBytes (Address_Bytes b), VUint nonce])) \<le> 30"
    by (simp add: Address_Bytes_def)
  then have "length (rlp_encode ?v) < 2 ^ 64"
    using headsize_of_nat [of "length (concat (map rlp_encode [VBytes (Address_Bytes b), VUint nonce]))"]
    by (simp add: rlp_list_def)
  from EncodeToBytes_eq(1) [OF this] show ?thesis
    by (simp add: CreateAddress_def Let_def)
qed

lemma SetNonce_balance:
  assumes "vm_state_ok be s"
  shows "av_balance (view_or_fresh be (SetNonce be a n s) b) = av_balance (view_or_fresh be s b)"
  using SetNonce_ok(2) [OF vm_state_objs_ok [OF assms], of a n] by (auto simp: view_or_fresh_def)

text \<open>The changes of \<open>Create\<close> after its snapshot, before the constructor runs.\<close>

lemma open_contract:
  assumes s: "vm_state_ok be s" and v: "0 \<le> v" "v \<le> av_balance (view_or_fresh be s a)"
  shows "evolves be False s (Transfer be a addr v
    (if b then SetNonce be addr 1 (CreateAccount be addr s) else CreateAccount be addr s))"
proof -
  let ?s1 = "CreateAccount be addr s"
  let ?s2 = "if b then SetNonce be addr 1 ?s1 else ?s1"
  have s1: "evolves be False s ?s1"
    using CreateAccount_evolves [OF s, of False addr] by simp
  note ok1 = evolves_ok [OF s1]
  have s2: "evolves be False ?s1 ?s2"
    using SetNonce_evolves [OF ok1] evolves_refl [OF ok1] by simp
  have "v \<le> av_balance (view_or_fresh be ?s2 a)"
    using v(2) SetNonce_balance [OF ok1] CreateAccount_balance [OF s] by simp
  from evolves_trans [OF evolves_trans [OF s1 s2] Transfer_evolves [OF evolves_ok [OF s2] v(1) this]] show ?thesis
    by simp
qed

text \<open>The changes before it: the nonce of the caller, and the queries.\<close>

lemma create_before:
  assumes evm: "evm_ok evm" "\<not> read_only evm" and can: "CanTransfer (ev_db evm) a v (ev_StateDB evm) = (True, s1)" "0 \<le> v"
    and nonce: "GetNonce (ev_db evm) a s1 = (nonce, s2)"
    and h: "GetCodeHash (ev_db evm) addr (SetNonce (ev_db evm) a m s2) = (h, s4)" and used: "GetNonce (ev_db evm) addr s4 = (used, s5)"
  shows "evolves (ev_db evm) (read_only evm) (ev_StateDB evm) s5" "v \<le> av_balance (view_or_fresh (ev_db evm) s5 a)"
proof -
  note c = canTransfer_rel [OF evm(1) can]
  have s1: "evolves (ev_db evm) False (ev_StateDB evm) s1" "vm_state_ok (ev_db evm) s1"
    using c(1) evm_state_ok [OF c(2)] evm(2) by (simp_all add: evm_rel_def)
  note n = GetNonce_evolves [OF s1(2) nonce]
  note s2 = evolves_ok [OF n(1)]
  note s3 = SetNonce_evolves [OF s2, of a m]
  note h4 = GetCodeHash_evolves [OF evolves_ok [OF s3] h]
  note u = GetNonce_evolves [OF evolves_ok [OF h4(1)] used]
  show "evolves (ev_db evm) (read_only evm) (ev_StateDB evm) s5"
    using evolves_trans [OF evolves_trans [OF evolves_trans [OF evolves_trans [OF s1(1) n(1)] s3] h4(1)] u(1)] evm(2) by simp
  show "v \<le> av_balance (view_or_fresh (ev_db evm) s5 a)"
    using c(4) by (simp add: sim_balance [OF u(2)] sim_balance [OF h4(2)] SetNonce_balance [OF s2] sim_balance [OF n(2)])
qed

lemma create_run:
  assumes cl: "calls_ok cl G (Suc (ev_depth evm))" and evm: "evm_ok evm" "\<not> read_only evm" "Snapshot (ev_StateDB evm) = (i, s1)"
    and s2: "evolves (ev_db evm) False s1 s2" and c: "contract_ok c"
    and gas: "unat (ct_Gas c) \<le> G" "G < n" "G < 2 ^ 60"
  shows "create_ok evm (ct_Gas c) (go_bind (evm_run cl n c [] (evm\<lparr>ev_StateDB := s2\<rparr>)) (storeCode i addr))"
    "evm_rel evm (evm\<lparr>ev_StateDB := s2\<rparr>)"
proof -
  have rel: "evm_rel (evm\<lparr>ev_StateDB := s1\<rparr>) (evm\<lparr>ev_StateDB := s2\<rparr>)"
    using evm_rel_set [OF snapshot_rel(2) [OF evm(1,3)]] s2 evm(2) by simp
  then have ok: "evm_ok (evm\<lparr>ev_StateDB := s2\<rparr>)"
    using evm_rel_ok snapshot_rel(2) [OF evm(1,3)] by blast
  show "evm_rel evm (evm\<lparr>ev_StateDB := s2\<rparr>)"
    by (rule evm_rel_trans [OF snapshot_rel(1) [OF evm(1,3)] rel])
  have "calls_ok cl G (Suc (ev_depth (evm\<lparr>ev_StateDB := s2\<rparr>)))" "length [] < 2 ^ 62"
    using cl by simp_all
  then obtain r c' evm' where "evm_run cl n c [] (evm\<lparr>ev_StateDB := s2\<rparr>) = Ret (r, c', evm')" "run_ok c (evm\<lparr>ev_StateDB := s2\<rparr>) r c' evm'"
    using evm_run_ok [OF _ ok c _ gas] by blast
  then show "create_ok evm (ct_Gas c) (go_bind (evm_run cl n c [] (evm\<lparr>ev_StateDB := s2\<rparr>)) (storeCode i addr))"
    using storeCode_ok [OF evm(1,3,2) rel] by simp
qed

lemma create_ok_ret: "evm_rel evm evm' \<Longrightarrow> g \<le> gas \<Longrightarrow> create_ok evm gas (Ret (([], a, g, e), evm'))"
  by (simp add: create_ok_def)

lemma EVM_Create_ok:
  assumes cl: "ev_depth evm \<le> 1024 \<Longrightarrow> calls_ok cl G (Suc (ev_depth evm))" and evm: "evm_ok evm" "\<not> read_only evm"
    and args: "length code < 2 ^ 62" "0 \<le> value" and gas: "unat gas \<le> G" "G < n" "G < 2 ^ 60"
  shows "create_ok evm gas (EVM_Create cl n caller code gas value evm)"
proof -
  let ?be = "ev_db evm" and ?a = "ref_Address caller"
  obtain enough s1 where can: "CanTransfer ?be ?a value (ev_StateDB evm) = (enough, s1)"
    by (cases "CanTransfer ?be ?a value (ev_StateDB evm)")
  obtain nonce s2 where nonce: "GetNonce ?be ?a s1 = (nonce, s2)"
    by (cases "GetNonce ?be ?a s1")
  obtain addr where addr: "CreateAddress ?be ?a nonce = Ret addr"
    using CreateAddress_ok by blast
  let ?s3 = "SetNonce ?be ?a (nonce + 1) s2"
  obtain h s4 where h: "GetCodeHash ?be addr ?s3 = (h, s4)"
    by (cases "GetCodeHash ?be addr ?s3")
  obtain used s5 where used: "GetNonce ?be addr s4 = (used, s5)"
    by (cases "GetNonce ?be addr s4")
  obtain i s6 where snap: "Snapshot s5 = (i, s6)"
    by (cases "Snapshot s5")
  let ?e158 = "IsEIP158 (ev_chainConfig evm) (ev_number evm)"
  let ?s9 = "Transfer ?be ?a addr value (if ?e158 then SetNonce ?be addr 1 (CreateAccount ?be addr s6) else CreateAccount ?be addr s6)"
  let ?c = "SetCallCode addr (be_keccak ?be code) code (NewContract caller addr value gas)"
  note early = create_ok_ret [OF evm_rel_refl [OF evm(1)], of gas gas] create_ok_ret [OF canTransfer_rel(1) [OF evm(1) can args(2)], of gas gas]
  have run: "evm_rel evm (evm\<lparr>ev_StateDB := s5\<rparr>)" "evm_rel evm (evm\<lparr>ev_StateDB := ?s9\<rparr>)"
    "create_ok evm gas (go_bind (evm_run cl n ?c [] (evm\<lparr>ev_StateDB := ?s9\<rparr>)) (storeCode i addr))"
    if "ev_depth evm \<le> 1024" enough
  proof -
    have can': "CanTransfer ?be ?a value (ev_StateDB evm) = (True, s1)"
      using can that(2) by simp
    note b = create_before [OF evm can' args(2) nonce h used]
    let ?evm = "evm\<lparr>ev_StateDB := s5\<rparr>"
    show rel: "evm_rel evm ?evm"
      by (rule evm_rel_set [OF evm(1) b(1)])
    then have ok: "evm_ok ?evm"
      using evm_rel_ok evm(1) by blast
    have snap': "Snapshot (ev_StateDB ?evm) = (i, s6)"
      using snap by simp
    note sn = snapshot_rel [OF ok snap']
    have "vm_state_ok ?be s6" "value \<le> av_balance (view_or_fresh ?be s6 ?a)"
      using evm_state_ok [OF sn(2)] b(2) sn(3) by (simp_all add: sim_balance [of ?be s6 s5])
    then have "evolves ?be False s6 ?s9"
      using open_contract [OF _ args(2)] by simp
    moreover have "contract_ok ?c" "ct_Gas ?c = gas"
      using args by (simp_all add: contract_ok_def SetCallCode_def)
    ultimately have "create_ok ?evm gas (go_bind (evm_run cl n ?c [] (?evm\<lparr>ev_StateDB := ?s9\<rparr>)) (storeCode i addr))"
      "evm_rel ?evm (?evm\<lparr>ev_StateDB := ?s9\<rparr>)"
      using create_run(1) [OF _ ok _ snap', of cl G ?s9 ?c n addr] create_run(2) [OF _ ok _ snap', of cl G ?s9 ?c n]
        cl [OF that(1)] evm(2) gas by simp_all
    then show "evm_rel evm (evm\<lparr>ev_StateDB := ?s9\<rparr>)"
      "create_ok evm gas (go_bind (evm_run cl n ?c [] (evm\<lparr>ev_StateDB := ?s9\<rparr>)) (storeCode i addr))"
      using evm_rel_trans [OF rel] create_ok_pre [OF rel] by simp_all
  qed
  show ?thesis
    using early run create_ok_ret can nonce addr h used snap
    by (cases ?e158) (simp_all add: EVM_Create_def on_state_def upd_state_def ev_number_def Let_def)
qed

section \<open>All depths\<close>

lemma calls_ok_Suc:
  assumes "D \<le> 1024 \<Longrightarrow> calls_ok (calls_at n d) G (Suc D)" "G < n" "G < 2 ^ 60"
  shows "calls_ok (calls_at n (Suc d)) G D"
  unfolding calls_ok_def
proof (intro allI impI, elim conjE, intro conjI impI)
  fix caller :: ContractRef and addr :: address and input :: bytes and gas :: u64 and v :: int and evm
  assume *: "evm_ok evm" "ev_depth evm = D" "length input < 2 ^ 62" "0 \<le> v" "unat gas \<le> G"
  have cl: "ev_depth evm \<le> 1024 \<Longrightarrow> calls_ok (calls_at n d) G (Suc (ev_depth evm))"
    using assms(1) *(2) by simp
  show "read_only evm \<longrightarrow> v = 0 \<Longrightarrow> call_ok evm gas (cl_Call (calls_at n (Suc d)) caller addr input gas v evm)"
    using EVM_Call_ok [OF cl *(1,3,4) _ *(5) assms(2,3)] by simp
  show "call_ok evm gas (cl_CallCode (calls_at n (Suc d)) caller addr input gas v evm)"
    using EVM_CallCode_ok [OF cl *(1,3,4,5) assms(2,3)] by simp
  show "\<exists>c. caller = ContractOf c \<and> 0 \<le> ct_value c \<Longrightarrow> call_ok evm gas (cl_DelegateCall (calls_at n (Suc d)) caller addr input gas evm)"
    using EVM_DelegateCall_ok [OF cl *(1,3) _ *(5) assms(2,3)] by auto
  show "call_ok evm gas (cl_StaticCall (calls_at n (Suc d)) caller addr input gas evm)"
    using EVM_StaticCall_ok [OF cl *(1,3,5) assms(2,3)] by simp
  show "\<not> read_only evm \<Longrightarrow> create_ok evm gas (cl_Create (calls_at n (Suc d)) caller input gas v evm)"
    using EVM_Create_ok [OF cl *(1) _ *(3,4,5) assms(2,3)] by simp
qed

theorem calls_at_ok:
  assumes "G < n" "G < 2 ^ 60"
  shows "D \<le> 1025 \<Longrightarrow> 1026 \<le> d + D \<Longrightarrow> calls_ok (calls_at n d) G D"
proof (induction d arbitrary: D)
  case (Suc d)
  show ?case
    by (rule calls_ok_Suc [OF _ assms]) (use Suc in simp)
qed simp

end
