(* ===== verification/VM_Properties.thy ===== *)
theory VM_Properties
  imports VM_Safety State_Commit
begin

text \<open>
  What the contracts of the calls mean for a machine: every call of a machine in order
  (\<open>evm_ok\<close>) returns, hands back no more gas than it got, undoes its changes on an error, keeps the
  balances from going negative, and a static call changes nothing. A machine set up by \<open>NewEVM\<close>
  over a well-formed state is in order.
\<close>

section \<open>Machines in order\<close>

lemma evm_ok_NewEVM:
  assumes "vm_state_ok db statedb" "\<not> cfg_DisableGasMetering vmConfig" "0 \<le> ctx_GasPrice ctx" "crypto_ok cr"
  shows "evm_ok (NewEVM ctx statedb chainConfig vmConfig db cr)"
  using assms by (simp add: evm_ok_def NewEVM_def Let_def GasTable_of_def)

text \<open>
  A machine that is about to make a call with \<open>gas\<close>: it is in order, not deeper than the limit, and
  the model has more instructions for each frame than there is gas, and a level of nesting for
  each depth that is left.
\<close>

definition ready :: "nat \<Rightarrow> nat \<Rightarrow> u64 \<Rightarrow> EVM \<Rightarrow> bool" where
  "ready n d gas evm \<longleftrightarrow>
     evm_ok evm \<and> ev_depth evm \<le> 1025 \<and> 1025 \<le> d + ev_depth evm \<and> unat gas < n \<and> unat gas < 2 ^ 60"

lemma readyD:
  assumes "ready n d gas evm"
  shows "evm_ok evm" "unat gas \<le> unat gas" "unat gas < n" "unat gas < 2 ^ 60"
    "ev_depth evm \<le> 1024 \<Longrightarrow> calls_ok (calls_at n d) (unat gas) (Suc (ev_depth evm))"
  using assms calls_at_ok [of "unat gas" n "Suc (ev_depth evm)" d] by (simp_all add: ready_def)

lemma ready_calls:
  assumes "ready n d gas evm" "length input < 2 ^ 62"
  shows "0 \<le> v \<Longrightarrow> read_only evm \<longrightarrow> v = 0 \<Longrightarrow> call_ok evm gas (EVM_Call (calls_at n d) n caller addr input gas v evm)"
    "0 \<le> v \<Longrightarrow> call_ok evm gas (EVM_CallCode (calls_at n d) n caller addr input gas v evm)"
    "0 \<le> ct_value c \<Longrightarrow> call_ok evm gas (EVM_DelegateCall (calls_at n d) n (ContractOf c) addr input gas evm)"
    "call_ok evm gas (EVM_StaticCall (calls_at n d) n caller addr input gas evm)"
    "0 \<le> v \<Longrightarrow> \<not> read_only evm \<Longrightarrow> create_ok evm gas (EVM_Create (calls_at n d) n caller input gas v evm)"
proof -
  note r = readyD [OF assms(1)]
  show "0 \<le> v \<Longrightarrow> read_only evm \<longrightarrow> v = 0 \<Longrightarrow> call_ok evm gas (EVM_Call (calls_at n d) n caller addr input gas v evm)"
    by (rule EVM_Call_ok [OF r(5,1) assms(2) _ _ r(2-4)])
  show "0 \<le> v \<Longrightarrow> call_ok evm gas (EVM_CallCode (calls_at n d) n caller addr input gas v evm)"
    by (rule EVM_CallCode_ok [OF r(5,1) assms(2) _ r(2-4)])
  show "0 \<le> ct_value c \<Longrightarrow> call_ok evm gas (EVM_DelegateCall (calls_at n d) n (ContractOf c) addr input gas evm)"
    by (rule EVM_DelegateCall_ok [OF r(5,1) assms(2) _ r(2-4)])
  show "call_ok evm gas (EVM_StaticCall (calls_at n d) n caller addr input gas evm)"
    by (rule EVM_StaticCall_ok [OF r(5,1) assms(2) r(2-4)])
  show "0 \<le> v \<Longrightarrow> \<not> read_only evm \<Longrightarrow> create_ok evm gas (EVM_Create (calls_at n d) n caller input gas v evm)"
    by (rule EVM_Create_ok [OF r(5,1) _ assms(2) _ r(2-4)])
qed

text \<open>A sample machine: the state of a database without contracts, where account 7 owns 1000.\<close>

definition sample_crypto :: Crypto where
  "sample_crypto =
     \<lparr>cr_ValidateSignatureValues = (\<lambda>_ _ _. False), cr_Ecrecover = (\<lambda>_ _. None), cr_sha256 = (\<lambda>_. replicate 32 0),
      cr_ripemd160 = (\<lambda>_. replicate 20 0), cr_G1_ok = (\<lambda>_. False), cr_G2_ok = (\<lambda>_. False),
      cr_G1_Add = (\<lambda>_ _. replicate 64 0), cr_G1_ScalarMult = (\<lambda>_ _. replicate 64 0), cr_PairingCheck = (\<lambda>_. True)\<rparr>"

definition sample_context :: Context where
  "sample_context =
     \<lparr>ctx_GetHash = (\<lambda>_. 0), ctx_Origin = 7, ctx_GasPrice = 1, ctx_Coinbase = 5, ctx_GasLimit = 4200000,
      ctx_BlockNumber = 40000, ctx_Time = 1, ctx_Difficulty = 1\<rparr>"

definition sample_config :: vm_Config where
  "sample_config = \<lparr>cfg_NoRecursion = False, cfg_DisableGasMetering = False, cfg_EnablePreimageRecording = False\<rparr>"

definition sample_evm :: EVM where
  "sample_evm = NewEVM sample_context (AddBalance sample_backend 7 1000 sample_state) MainnetChainConfig sample_config
     sample_backend sample_crypto"

lemma views_ok_sample: "vm_state_ok sample_backend sample_state"
proof -
  have "view sample_backend sample_state a = (if a = 7 then Some (so_view sample_backend (newObject sample_backend 7 sample_account True)) else None)" for a
    by (simp add: view_def obj_at_def sample_state_def state_New_def)
  then show ?thesis
    using state_ok_New by (auto simp: vm_state_ok_def views_ok_def sample_state_def so_view_def code_of_def newObject_def sample_account_def)
qed

lemma sample_evm_ok: "evm_ok sample_evm"
  unfolding sample_evm_def
proof (rule evm_ok_NewEVM)
  show "vm_state_ok sample_backend (AddBalance sample_backend 7 1000 sample_state)"
    using evolves_ok [OF AddBalance_evolves [OF views_ok_sample, of 1000 False 7]] by simp
qed (simp_all add: sample_config_def sample_context_def sample_crypto_def crypto_ok_def)

lemma sample_ready: "ready 100000 1025 90000 sample_evm"
  using sample_evm_ok by (simp add: ready_def sample_evm_def NewEVM_def Let_def)

lemma sample_read_only: "\<not> read_only sample_evm"
  by (simp add: sample_evm_def NewEVM_def read_only_def Let_def)

section \<open>Properties\<close>

text \<open>
  C3: Type safety of the interpreter. A frame in order holds no negative stack item, at most
  \<open>0xffffffffe0\<close> bytes of memory, and a well-formed state. From such a frame, with the gas of the
  frame below the fuel of the calls, a step of the interpreter always has a result: no index is out
  of range, no slice is cut wrong, no stack is popped empty. If the step does not end the frame, the
  new frame is in order again, its stack has at most 1024 items, it has strictly less gas, and
  neither the contract (but for its gas) nor the depth of the machine has changed.
\<close>

theorem Run_step_type_safe:
  assumes "frame_ok f" and "ev_depth (fr_evm f) \<le> 1025" "1026 \<le> d + ev_depth (fr_evm f)"
    and "unat (ct_Gas (fr_contract f)) < n" "unat (ct_Gas (fr_contract f)) < 2 ^ 60"
  shows "\<exists>r g. Run_step (calls_at n d) f = Ret (r, g) \<and>
    (r = None \<longrightarrow> frame_ok g \<and> length (fr_stack g) \<le> 1024 \<and> ct_Gas (fr_contract g) < ct_Gas (fr_contract f) \<and>
       ct_core (fr_contract g) = ct_core (fr_contract f) \<and> ev_depth (fr_evm g) = ev_depth (fr_evm f))"
proof -
  let ?G = "unat (ct_Gas (fr_contract f))"
  have "step_ends f (Run_step (calls_at n d) f)"
    using Run_step_ok [OF calls_at_ok [OF assms(4,5,2,3)] assms(1)] by (simp add: at_depth_def)
  then obtain r g where g: "Run_step (calls_at n d) f = Ret (r, g)" "r = None \<longrightarrow> goes_on f g"
    by (auto simp: step_ends_def split: option.splits)
  have "ev_depth (fr_evm g) = ev_depth (fr_evm f)" if "goes_on f g"
    using that evm_coreD(2) unfolding goes_on_def frame_rel_def evm_rel_def by blast
  then show ?thesis
    using g by (auto simp: goes_on_def frame_rel_def word_less_nat_alt)
qed

theorem Run_step_type_safe_witness:
  "\<exists>r g. Run_step (calls_at 100 1026) (newframe ((NewContract (AccountRef 7) 8 0 50)\<lparr>ct_Code := [0x60, 1, 0x50]\<rparr>) sample_evm) = Ret (r, g) \<and>
     (r = None \<longrightarrow> length (fr_stack g) \<le> 1024)"
proof -
  let ?f = "newframe ((NewContract (AccountRef 7) 8 0 50)\<lparr>ct_Code := [0x60, 1, 0x50]\<rparr>) sample_evm"
  have "frame_ok ?f"
    using sample_evm_ok by (simp add: frame_ok_def newframe_def contract_ok_def NewContract_def mem_ok_def NewMemory_def)
  moreover have "ev_depth (fr_evm ?f) = 0" "ct_Gas (fr_contract ?f) = 50"
    by (simp_all add: newframe_def sample_evm_def NewEVM_def NewContract_def Let_def)
  ultimately show ?thesis
    using Run_step_type_safe [of ?f 1026 100] by auto
qed

text \<open>
  C1: Calls terminate. A message call and a contract creation of a machine in order return a
  result whatever the code of the accounts does: the interpreter makes fewer steps in each frame
  than the frame got gas, calls nest at most 1025 deep, and no operation panics on the way. The gas
  that is left is at most the gas of the call.
\<close>

theorem calls_terminate:
  assumes "ready n d gas evm" and "length input < 2 ^ 62" and "0 \<le> v" and "\<not> read_only evm"
  shows "(\<exists>ret g err evm'. EVM_Call (calls_at n d) n caller addr input gas v evm = Ret ((ret, g, err), evm') \<and> g \<le> gas) \<and>
    (\<exists>ret a g err evm'. EVM_Create (calls_at n d) n caller input gas v evm = Ret ((ret, a, g, err), evm') \<and> g \<le> gas)"
  using ready_calls(1,5) [OF assms(1,2,3)] assms(4) unfolding call_ok_def create_ok_def by blast

theorem calls_terminate_witness:
  "\<exists>ret g err evm'. EVM_Call (calls_at 100000 1025) 100000 (AccountRef 7) 9 [] 90000 1 sample_evm = Ret ((ret, g, err), evm') \<and> g \<le> 90000"
  using calls_terminate [OF sample_ready _ _ sample_read_only, of "[]" 1 "AccountRef 7" 9] by auto

text \<open>
  C2: A failed call leaves no trace. If one of the four kinds of message calls returns an error
  (out of gas, a revert, an invalid instruction, a failed transfer, ...), no query can tell the state after
  it from the state before: balances, nonces, code, storage, suicides, logs, preimages and the
  refund counter are as they were.
\<close>

theorem failed_call_restores_state:
  assumes "ready n d gas evm" and "length input < 2 ^ 62" and "0 \<le> v" and "\<not> read_only evm" and "0 \<le> ct_value c"
    and "r \<in> {EVM_Call (calls_at n d) n caller addr input gas v evm, EVM_CallCode (calls_at n d) n caller addr input gas v evm,
      EVM_DelegateCall (calls_at n d) n (ContractOf c) addr input gas evm, EVM_StaticCall (calls_at n d) n caller addr input gas evm}"
    and "r = Ret ((ret, g, Some e), evm')"
  shows "sim (ev_db evm) (ev_StateDB evm') (ev_StateDB evm)"
proof -
  have "call_ok evm gas r"
    using ready_calls [OF assms(1,2)] assms(3-6) by blast
  then show ?thesis
    using assms(7) by (simp add: call_ok_def)
qed

theorem failed_call_restores_state_witness:
  "sim sample_backend (ev_StateDB (case EVM_Call (calls_at 100000 1025) 100000 (AccountRef 7) 9 [] 90000 2000 sample_evm of Ret (_, evm') \<Rightarrow> evm'))
     (ev_StateDB sample_evm)"
proof -
  let ?r = "EVM_Call (calls_at 100000 1025) 100000 (AccountRef 7) 9 [] 90000 2000 sample_evm"
  have "fst (CanTransfer sample_backend 7 2000 (AddBalance sample_backend 7 1000 sample_state)) = False"
    by code_simp
  then obtain s where "CanTransfer sample_backend 7 2000 (AddBalance sample_backend 7 1000 sample_state) = (False, s)"
    by (metis fst_conv surj_pair)
  then have r: "?r = Ret (([], 90000, Some ErrInsufficientBalance), sample_evm\<lparr>ev_StateDB := s\<rparr>)"
    by (simp add: EVM_Call_def on_state_def sample_evm_def NewEVM_def Let_def)
  have "ev_db sample_evm = sample_backend"
    by (simp add: sample_evm_def NewEVM_def Let_def)
  then show ?thesis
    using failed_call_restores_state [OF sample_ready _ _ sample_read_only, of "[]" 2000 "NewContract (AccountRef 7) 8 0 50" ?r "AccountRef 7" 9, OF _ _ _ _ r]
    unfolding r by simp
qed

text \<open>
  C4: A static call changes nothing. Under the Byzantium rules \<open>StaticCall\<close>, whether it fails or
  succeeds and whatever code it runs, leaves the balance, nonce, code, storage and suicide mark of
  every account, the logs and the refund counter as they were; the most that may happen is that an
  account that did not exist becomes an empty one.
\<close>

theorem static_call_changes_nothing:
  assumes "ready n d gas evm" and "length input < 2 ^ 62" and "RulesIsByzantium (ev_chainRules evm)"
    and "EVM_StaticCall (calls_at n d) n caller addr input gas evm = Ret (r, evm')"
  shows "quiet (ev_db evm) (ev_StateDB evm) (ev_StateDB evm')"
  using EVM_StaticCall_quiet [OF readyD(5,1) [OF assms(1)] assms(2) readyD(2-4) [OF assms(1)] assms(3,4)] .

theorem static_call_changes_nothing_witness:
  "\<exists>r evm'. EVM_StaticCall (calls_at 100000 1025) 100000 (AccountRef 7) 9 [1, 2] 90000 sample_evm = Ret (r, evm') \<and>
     quiet sample_backend (ev_StateDB sample_evm) (ev_StateDB evm')"
proof -
  have "call_ok sample_evm 90000 (EVM_StaticCall (calls_at 100000 1025) 100000 (AccountRef 7) 9 [1, 2] 90000 sample_evm)"
    by (rule ready_calls(4) [OF sample_ready]) simp
  then obtain r evm' where r: "EVM_StaticCall (calls_at 100000 1025) 100000 (AccountRef 7) 9 [1, 2] 90000 sample_evm = Ret (r, evm')"
    unfolding call_ok_def by blast
  have "RulesIsByzantium (ev_chainRules sample_evm)" "ev_db sample_evm = sample_backend"
    by (simp_all add: sample_evm_def NewEVM_def Let_def) code_simp
  then show ?thesis
    using static_call_changes_nothing [OF sample_ready _ _ r] r by (cases r) simp
qed

text \<open>
  C5: The state a call leaves is well-formed. Whatever a message call or a contract creation did,
  the invariant of the state database holds again, every balance is at least zero, no code is
  longer than a slice can be, and every snapshot taken before the call can still be reverted to.
\<close>

theorem calls_keep_state_ok:
  assumes "ready n d gas evm" and "length input < 2 ^ 62" and "0 \<le> v" and "\<not> read_only evm"
    and "EVM_Call (calls_at n d) n caller addr input gas v evm = Ret (r, evm') \<or>
      EVM_Create (calls_at n d) n caller input gas v evm = Ret (r', evm')"
  shows "state_ok (ev_db evm) (ev_StateDB evm') \<and> views_ok (view (ev_db evm) (ev_StateDB evm')) \<and>
    since (ev_db evm) (ev_StateDB evm) (ev_StateDB evm')"
proof -
  have "call_ok evm gas (EVM_Call (calls_at n d) n caller addr input gas v evm)"
    "create_ok evm gas (EVM_Create (calls_at n d) n caller input gas v evm)"
    using ready_calls(1,5) [OF assms(1,2,3)] assms(4) by blast+
  then have "evm_rel evm evm'"
    using assms(5) by (auto simp: call_ok_def create_ok_def)
  then show ?thesis
    using evolves_ok by (auto simp: evm_rel_def evolves_def vm_state_ok_def)
qed

theorem calls_keep_state_ok_witness:
  "\<exists>r evm'. EVM_Create (calls_at 100000 1025) 100000 (AccountRef 7) [0x60, 1] 90000 10 sample_evm = Ret (r, evm') \<and>
     views_ok (view sample_backend (ev_StateDB evm'))"
proof -
  have "create_ok sample_evm 90000 (EVM_Create (calls_at 100000 1025) 100000 (AccountRef 7) [0x60, 1] 90000 10 sample_evm)"
    by (rule ready_calls(5) [OF sample_ready]) (simp_all add: sample_read_only)
  then obtain r evm' where r: "EVM_Create (calls_at 100000 1025) 100000 (AccountRef 7) [0x60, 1] 90000 10 sample_evm = Ret (r, evm')"
    unfolding create_ok_def by blast
  have "ev_db sample_evm = sample_backend"
    by (simp add: sample_evm_def NewEVM_def Let_def)
  then show ?thesis
    using calls_keep_state_ok [OF sample_ready _ _ sample_read_only disjI2 [OF r]] r by (cases r) simp
qed

end
