(* ===== verification/Trie_Encoding.thy ===== *)
theory Trie_Encoding
  imports Go_Base
begin

unbundle bit_operations_syntax

text \<open>
  The three encodings of trie keys (\<open>trie/encoding.go\<close>): the bytes of the key, one byte for each
  nibble with an optional terminator (HEX), and the packed form stored on disk (COMPACT). An index
  out of range is a panic.
\<close>

section \<open>The conversions\<close>

definition hasTerm :: "bytes \<Rightarrow> bool" where
  "hasTerm s \<longleftrightarrow> length s > 0 \<and> s ! (length s - 1) = 16"

fun prefixLen :: "bytes \<Rightarrow> bytes \<Rightarrow> nat" where
  "prefixLen (x # a) (y # b) = (if x \<noteq> y then 0 else Suc (prefixLen a b))"
| "prefixLen _ _ = 0"

text \<open>\<open>decodeNibbles\<close> writes the nibbles into the given slice.\<close>

fun decodeNibbles :: "bytes \<Rightarrow> bytes \<Rightarrow> bytes go" where
  "decodeNibbles [] bs = Ret bs"
| "decodeNibbles [x] bs = Panic"
| "decodeNibbles (x # y # ns) [] = Panic"
| "decodeNibbles (x # y # ns) (b # bs) = go_bind (decodeNibbles ns bs) (\<lambda>r. Ret ((push_bit 4 x OR y) # r))"

definition hexToCompact :: "bytes \<Rightarrow> bytes go" where
  "hexToCompact hex =
     (let terminator = (if hasTerm hex then 1 else 0);
          hex = (if hasTerm hex then butlast hex else hex);
          flag = push_bit 5 terminator :: byte
      in if odd (length hex)
         then go_bind (decodeNibbles (tl hex) (replicate (length hex div 2) 0)) (\<lambda>r.
           Ret ((flag OR push_bit 4 1 OR hd hex) # r))
         else go_bind (decodeNibbles hex (replicate (length hex div 2) 0)) (\<lambda>r. Ret (flag # r)))"

primrec nibbles :: "bytes \<Rightarrow> bytes" where
  "nibbles [] = []"
| "nibbles (b # bs) = b div 16 # b mod 16 # nibbles bs"

definition keybytesToHex :: "bytes \<Rightarrow> bytes" where
  "keybytesToHex str = nibbles str @ [16]"

definition compactToHex :: "bytes \<Rightarrow> bytes go" where
  "compactToHex compact =
     (let base = butlast (keybytesToHex compact) in
      go_bind (go_index base 0) (\<lambda>b0.
        let base = (if b0 \<ge> 2 then base @ [16] else base);
            chop = 2 - (b0 AND 1)
        in go_slice base (unat chop) (length base)))"

definition hexToKeybytes :: "bytes \<Rightarrow> bytes go" where
  "hexToKeybytes hex =
     (let hex = (if hasTerm hex then butlast hex else hex) in
      if odd (length hex) then Panic else decodeNibbles hex (replicate ((length hex + 1) div 2) 0))"

section \<open>Nibbles\<close>

definition is_nibbles :: "bytes \<Rightarrow> bool" where
  "is_nibbles ns \<longleftrightarrow> list_all (\<lambda>n. n < 16) ns"

lemma is_nibbles_simps [simp]:
  "is_nibbles []" "is_nibbles (x # ns) \<longleftrightarrow> x < 16 \<and> is_nibbles ns" "is_nibbles (as @ bs) \<longleftrightarrow> is_nibbles as \<and> is_nibbles bs"
  by (simp_all add: is_nibbles_def)

lemma nibble_bit:
  fixes x :: byte
  assumes "x < 16" "bit x n"
  shows "n < 4"
proof -
  have "take_bit 4 x = x"
    using assms(1) by (simp add: take_bit_eq_mod word_less_nat_alt flip: unat_arith_simps(3)) (simp add: word_arith_nat_mod)
  then have "bit (take_bit 4 x) n"
    using assms(2) by simp
  then show ?thesis
    by (simp add: bit_take_bit_iff)
qed

lemma nibble_pack:
  fixes x y :: byte
  assumes "x < 16" "y < 16"
  shows "(push_bit 4 x OR y) div 16 = x" "(push_bit 4 x OR y) mod 16 = y"
proof -
  have "drop_bit 4 (push_bit 4 x OR y) = x"
    by (rule bit_eqI) (auto simp: bit_drop_bit_eq bit_or_iff bit_push_bit_iff dest: nibble_bit [OF assms(1)] nibble_bit [OF assms(2)])
  then show "(push_bit 4 x OR y) div 16 = x"
    by (simp add: drop_bit_eq_div)
  have "take_bit 4 (push_bit 4 x OR y) = y"
    by (rule bit_eqI) (auto simp: bit_take_bit_iff bit_or_iff bit_push_bit_iff dest: nibble_bit [OF assms(2)])
  then show "(push_bit 4 x OR y) mod 16 = y"
    by (simp add: take_bit_eq_mod)
qed

lemma nibble_split:
  fixes b :: byte
  shows "b div 16 < 16" "b mod 16 < 16" "push_bit 4 (b div 16) OR (b mod 16) = b"
proof -
  show "b div 16 < 16" "b mod 16 < 16"
    using unsigned_less [of b, where 'a = nat] by (simp_all add: word_less_nat_alt unat_div unat_mod)
  have "push_bit 4 (drop_bit 4 b) OR take_bit 4 b = b"
    by (rule bit_eqI) (auto simp: bit_drop_bit_eq bit_or_iff bit_push_bit_iff bit_take_bit_iff not_less)
  then show "push_bit 4 (b div 16) OR (b mod 16) = b"
    by (simp add: drop_bit_eq_div take_bit_eq_mod)
qed

lemma is_nibbles_nibbles [simp]: "is_nibbles (nibbles bs)"
  by (induction bs) (simp_all add: nibble_split)

lemma length_nibbles [simp]: "length (nibbles bs) = 2 * length bs"
  by (induction bs) simp_all

lemma decodeNibbles_nibbles: "length buf = length bs \<Longrightarrow> decodeNibbles (nibbles bs) buf = Ret bs"
proof (induction bs arbitrary: buf)
  case (Cons b bs)
  then show ?case
    by (cases buf) (simp_all add: nibble_split)
qed simp

lemma nibbles_surj: "is_nibbles ns \<Longrightarrow> even (length ns) \<Longrightarrow> \<exists>bs. ns = nibbles bs"
proof (induction ns rule: induct_list012)
  case 1
  then show ?case
    using nibbles.simps(1) by metis
next
  case (3 x y ns)
  then obtain bs where "ns = nibbles bs"
    by auto
  then have "x # y # ns = nibbles ((push_bit 4 x OR y) # bs)"
    using 3 by (simp add: nibble_pack)
  then show ?case ..
qed simp

lemma nibble_not_term: "is_nibbles ns \<Longrightarrow> \<not> hasTerm ns"
  using list_all_length [of "\<lambda>n. n < 16" ns] by (auto simp: hasTerm_def is_nibbles_def dest!: spec [of _ "length ns - 1"])

lemma hasTerm_snoc [simp]: "hasTerm (ns @ [16])"
  by (simp add: hasTerm_def)

text \<open>A key of nibbles, with or without the terminator.\<close>

definition is_hex :: "bytes \<Rightarrow> bool" where
  "is_hex h \<longleftrightarrow> is_nibbles (if hasTerm h then butlast h else h)"

definition term_of :: "bool \<Rightarrow> bytes" where
  "term_of t = (if t then [16] else [])"

lemma is_hexE:
  assumes "is_hex h"
  obtains ns t where "is_nibbles ns" "h = ns @ term_of t"
proof (cases "hasTerm h")
  case True
  then have "h = butlast h @ [16]"
    by (metis append_butlast_last_id hasTerm_def last_conv_nth length_greater_0_conv)
  then show ?thesis
    using that [of "butlast h" True] assms True by (simp add: is_hex_def term_of_def)
next
  case False
  then show ?thesis
    using that [of h False] assms by (simp add: is_hex_def term_of_def)
qed

lemma hexToCompact_eq:
  assumes "is_nibbles ns"
  shows "even (length ns) \<Longrightarrow> ns = nibbles bs \<Longrightarrow> hexToCompact (ns @ term_of t) = Ret ((if t then 0x20 else 0) # bs)"
    "ns = n # nibbles bs \<Longrightarrow> hexToCompact (ns @ term_of t) = Ret ((push_bit 4 (if t then 3 else 1) OR n) # bs)"
  using assms nibble_not_term [OF assms] hasTerm_snoc [of ns]
  by (auto simp: hexToCompact_def term_of_def decodeNibbles_nibbles Let_def simp flip: or.assoc)

lemma compactToHex_eq:
  "compactToHex (b # bs) =
     Ret ((if odd (b div 16) then [b mod 16] else []) @ nibbles bs @ term_of (b div 16 \<ge> 2))"
proof -
  have "b div 16 AND 1 = (if odd (b div 16) then 1 else 0)"
    by (simp add: and_one_eq odd_iff_mod_2_eq_one)
  then show ?thesis
    by (simp add: compactToHex_def keybytesToHex_def term_of_def Let_def go_slice_def butlast_append)
qed

text \<open>
  C37: The key encodings lose nothing. Packing a key of nibbles, with or without terminator, never
  panics, gives half its length rounded down plus one byte, and unpacking returns the key; the nibbles of a byte string
  pack to the byte string again; and a hex key of odd length is the one case \<open>hexToKeybytes\<close> panics on.
\<close>

theorem key_encodings_roundtrip:
  assumes "is_hex h"
  shows "(\<exists>c. hexToCompact h = Ret c \<and> compactToHex c = Ret h \<and> length c = (length h - (if hasTerm h then 1 else 0)) div 2 + 1) \<and>
    hexToKeybytes (keybytesToHex key) = Ret key \<and>
    (hexToKeybytes h = Panic \<longleftrightarrow> odd (length h - (if hasTerm h then 1 else 0)))"
proof (intro conjI)
  obtain ns t where h: "is_nibbles ns" "h = ns @ term_of t"
    using is_hexE [OF assms] .
  have len: "length h - (if hasTerm h then 1 else 0) = length ns"
    using h nibble_not_term [OF h(1)] by (simp add: term_of_def)
  show "\<exists>c. hexToCompact h = Ret c \<and> compactToHex c = Ret h \<and> length c = (length h - (if hasTerm h then 1 else 0)) div 2 + 1"
    unfolding len
  proof (cases "even (length ns)")
    case True
    then obtain bs where bs: "ns = nibbles bs"
      using nibbles_surj h(1) by blast
    then show "\<exists>c. hexToCompact h = Ret c \<and> compactToHex c = Ret h \<and> length c = length ns div 2 + 1"
      using hexToCompact_eq(1) [OF h(1) True bs, of t] h(2) by (simp add: compactToHex_eq)
  next
    case False
    then obtain n ms where ns: "ns = n # ms" "even (length ms)"
      by (cases ns) auto
    then obtain bs where bs: "ns = n # nibbles bs" "n < 16"
      using nibbles_surj [of ms] h(1) by auto
    then show "\<exists>c. hexToCompact h = Ret c \<and> compactToHex c = Ret h \<and> length c = length ns div 2 + 1"
      using hexToCompact_eq(2) [OF h(1) bs(1), of t] h(2) by (simp add: compactToHex_eq nibble_pack word_le_nat_alt)
  qed
  show "hexToKeybytes (keybytesToHex key) = Ret key"
    by (simp add: hexToKeybytes_def keybytesToHex_def decodeNibbles_nibbles)
  show "hexToKeybytes h = Panic \<longleftrightarrow> odd (length h - (if hasTerm h then 1 else 0))"
    unfolding len
  proof (cases "even (length ns)")
    case True
    then obtain bs where "ns = nibbles bs"
      using nibbles_surj h(1) by blast
    then show "hexToKeybytes h = Panic \<longleftrightarrow> odd (length ns)"
      using h nibble_not_term [OF h(1)] by (simp add: hexToKeybytes_def term_of_def decodeNibbles_nibbles)
  next
    case False
    then show "hexToKeybytes h = Panic \<longleftrightarrow> odd (length ns)"
      using h nibble_not_term [OF h(1)] by (simp add: hexToKeybytes_def term_of_def)
  qed
qed

theorem key_encodings_roundtrip_witness:
  "hexToCompact [1, 2, 3, 16] = Ret [0x31, 0x23] \<and> (\<exists>c. hexToCompact [1, 2, 3, 16] = Ret c \<and> compactToHex c = Ret [1, 2, 3, 16])"
proof -
  have "is_hex [1, 2, 3, 16]"
    by (simp add: is_hex_def hasTerm_def)
  moreover have "hexToCompact [1, 2, 3, 16] = Ret [0x31, 0x23]"
    by code_simp
  ultimately show ?thesis
    using key_encodings_roundtrip [of "[1, 2, 3, 16]"] by auto
qed

end
