(* ===== verification/Trie_Node.thy ===== *)
theory Trie_Node
  imports Trie_Encoding RLP_Raw
begin

text \<open>
  The nodes of a Merkle Patricia trie and their decoding (\<open>trie/node.go\<close>), the node store
  (\<open>trie/database.go\<close>) and the lookup, insertion and deletion of a trie (\<open>trie/trie.go\<close>).

  A nil node is the constructor \<open>NilNode\<close>. Nodes that are not loaded are hash nodes, resolved through
  the store; resolving is not known to come to an end for every store, so the recursive operations
  run on fuel. The operations return the errors of the store; where decoding a stored node fails,
  the code panics. The path of nibbles that errors carry is kept, the decoding context is not.
\<close>

section \<open>Nodes\<close>

record nodeFlag =
  nf_hash :: "bytes option"
  nf_gen :: "16 word"
  nf_dirty :: bool

datatype node =
    NilNode
  | FullNode "node list" nodeFlag
  | ShortNode bytes node nodeFlag
  | HashNode bytes
  | ValueNode bytes

datatype decode_err =
    DecodeEOF
  | DecodeSplit rlp_err
  | DecodeElems nat
  | DecodeOversized nat
  | DecodeRefSize nat

datatype trie_err = MissingNodeError hash bytes

definition loadedFlag :: "bytes option \<Rightarrow> 16 word \<Rightarrow> nodeFlag" where
  "loadedFlag h gen = \<lparr>nf_hash = h, nf_gen = gen, nf_dirty = False\<rparr>"

definition newFlag :: "16 word \<Rightarrow> nodeFlag" where
  "newFlag cachegen = \<lparr>nf_hash = None, nf_gen = cachegen, nf_dirty = True\<rparr>"

section \<open>Decoding\<close>

text \<open>The recursion of \<open>decodeNode\<close> through \<open>decodeRef\<close> is the parameter \<open>dn\<close>.\<close>

type_synonym decoder = "bytes \<Rightarrow> (decode_err + node) go"

definition split_go :: "(rlp_err + 'a) go \<Rightarrow> ('a \<Rightarrow> (decode_err + 'b) go) \<Rightarrow> (decode_err + 'b) go" where
  "split_go r k = go_bind r (\<lambda>x. case x of Inl e \<Rightarrow> Ret (Inl (DecodeSplit e)) | Inr a \<Rightarrow> k a)"

definition decodeRef :: "decoder \<Rightarrow> bytes \<Rightarrow> (decode_err + node \<times> bytes) go" where
  "decodeRef dn buf =
     split_go (Split buf) (\<lambda>(kind, val, rest).
       if kind = Kind_List then
         (if length buf - length rest > 32 then Ret (Inl (DecodeOversized (length buf - length rest)))
          else go_bind (dn buf) (\<lambda>n. case n of Inl e \<Rightarrow> Ret (Inl e) | Inr n \<Rightarrow> Ret (Inr (n, rest))))
       else if kind = Kind_String \<and> val = [] then Ret (Inr (NilNode, rest))
       else if kind = Kind_String \<and> length val = 32 then Ret (Inr (HashNode val, rest))
       else Ret (Inl (DecodeRefSize (length val))))"

definition decodeShort :: "decoder \<Rightarrow> bytes option \<Rightarrow> 16 word \<Rightarrow> bytes \<Rightarrow> (decode_err + node) go" where
  "decodeShort dn h gen elems =
     split_go (SplitString elems) (\<lambda>(kbuf, rest).
       go_bind (compactToHex kbuf) (\<lambda>key.
         if hasTerm key then
           split_go (SplitString rest) (\<lambda>(val, _). Ret (Inr (ShortNode key (ValueNode val) (loadedFlag h gen))))
         else
           go_bind (decodeRef dn rest) (\<lambda>r. case r of
               Inl e \<Rightarrow> Ret (Inl e)
             | Inr (n, _) \<Rightarrow> Ret (Inr (ShortNode key n (loadedFlag h gen))))))"

primrec decodeFull_loop :: "decoder \<Rightarrow> nat \<Rightarrow> bytes \<Rightarrow> node list \<Rightarrow> (decode_err + node list \<times> bytes) go" where
  "decodeFull_loop dn 0 elems cs = Ret (Inr (cs, elems))"
| "decodeFull_loop dn (Suc i) elems cs =
     go_bind (decodeRef dn elems) (\<lambda>r. case r of
         Inl e \<Rightarrow> Ret (Inl e)
       | Inr (cld, rest) \<Rightarrow> decodeFull_loop dn i rest (cs @ [cld]))"

definition decodeFull :: "decoder \<Rightarrow> bytes option \<Rightarrow> 16 word \<Rightarrow> bytes \<Rightarrow> (decode_err + node) go" where
  "decodeFull dn h gen elems =
     go_bind (decodeFull_loop dn 16 elems []) (\<lambda>r. case r of
         Inl e \<Rightarrow> Ret (Inl e)
       | Inr (cs, elems) \<Rightarrow>
           split_go (SplitString elems) (\<lambda>(val, _).
             Ret (Inr (FullNode (cs @ [if length val > 0 then ValueNode val else NilNode]) (loadedFlag h gen)))))"

text \<open>An embedded node is shorter than the node around it, so the length of the buffer is fuel enough.\<close>

primrec decodeNode_fuel :: "nat \<Rightarrow> bytes option \<Rightarrow> bytes \<Rightarrow> 16 word \<Rightarrow> (decode_err + node) go" where
  "decodeNode_fuel 0 h buf gen = NoFuel"
| "decodeNode_fuel (Suc fuel) h buf gen =
     (if length buf = 0 then Ret (Inl DecodeEOF)
      else split_go (SplitList buf) (\<lambda>(elems, _).
        go_bind (CountValues elems) (\<lambda>r.
          let c = (case r of Inl e \<Rightarrow> 0 | Inr n \<Rightarrow> n);
              dn = (\<lambda>buf. decodeNode_fuel fuel None buf gen)
          in if c = 2 then decodeShort dn h gen elems
             else if c = 17 then decodeFull dn h gen elems
             else Ret (Inl (DecodeElems c)))))"

definition decodeNode :: "bytes option \<Rightarrow> bytes \<Rightarrow> 16 word \<Rightarrow> (decode_err + node) go" where
  "decodeNode h buf gen = decodeNode_fuel (Suc (length buf)) h buf gen"

definition mustDecodeNode :: "bytes \<Rightarrow> bytes \<Rightarrow> 16 word \<Rightarrow> node go" where
  "mustDecodeNode h buf gen = go_bind (decodeNode (Some h) buf gen) (\<lambda>r. case r of Inl e \<Rightarrow> Panic | Inr n \<Rightarrow> Ret n)"

text \<open>A node with two elements whose first is the empty string is not refused: decoding it panics.\<close>

lemma decodeNode_empty_key_panics: "decodeNode h [0xc2, 0x80, 0x80] gen = Panic"
  by code_simp

section \<open>The node store\<close>

text \<open>
  The nodes in memory, with the blob of the meta root, which is nil, and the disk behind them.
  Reference counts only concern the garbage collection and are left out.
\<close>

record Database =
  db_diskdb :: "bytes \<Rightarrow> bytes option"
  db_nodes :: "hash \<rightharpoonup> bytes option"

definition NewDatabase :: "(bytes \<Rightarrow> bytes option) \<Rightarrow> Database" where
  "NewDatabase disk = \<lparr>db_diskdb = disk, db_nodes = [0 \<mapsto> None]\<rparr>"

definition db_insert :: "hash \<Rightarrow> bytes \<Rightarrow> Database \<Rightarrow> Database" where
  "db_insert h blob db =
     (if db_nodes db h \<noteq> None then db else db\<lparr>db_nodes := (db_nodes db)(h \<mapsto> Some blob)\<rparr>)"

definition db_Node :: "Database \<Rightarrow> hash \<Rightarrow> bytes option" where
  "db_Node db h = (case db_nodes db h of Some blob \<Rightarrow> blob | None \<Rightarrow> db_diskdb db (Hash_Bytes h))"

section \<open>Resolving nodes\<close>

type_synonym 'a tr = "(trie_err + 'a) go"

definition tr_bind :: "'a tr \<Rightarrow> ('a \<Rightarrow> 'b tr) \<Rightarrow> 'b tr" where
  "tr_bind r k = go_bind r (\<lambda>x. case x of Inl e \<Rightarrow> Ret (Inl e) | Inr a \<Rightarrow> k a)"

lemma tr_bind_simps [simp]: "tr_bind (Ret (Inr a)) k = k a" "tr_bind (Ret (Inl e)) k = Ret (Inl e)"
  by (simp_all add: tr_bind_def)

definition resolveHash :: "Database \<Rightarrow> 16 word \<Rightarrow> bytes \<Rightarrow> bytes \<Rightarrow> node tr" where
  "resolveHash db gen n prefix =
     (let h = BytesToHash n in
      case db_Node db h of
        None \<Rightarrow> Ret (Inl (MissingNodeError h prefix))
      | Some enc \<Rightarrow> go_bind (mustDecodeNode n enc gen) (\<lambda>n. Ret (Inr n)))"

definition trie_resolve :: "Database \<Rightarrow> 16 word \<Rightarrow> node \<Rightarrow> bytes \<Rightarrow> node tr" where
  "trie_resolve db gen n prefix = (case n of HashNode h \<Rightarrow> resolveHash db gen h prefix | _ \<Rightarrow> Ret (Inr n))"

section \<open>Lookup, insertion, deletion\<close>

text \<open>The position in the key splits it into the path so far and the rest.\<close>

definition getChild :: "node list \<Rightarrow> bytes \<Rightarrow> node go" where
  "getChild cs key = go_bind (go_index key 0) (\<lambda>i. go_index cs (unat i))"

definition setChild :: "node list \<Rightarrow> byte \<Rightarrow> node \<Rightarrow> node list go" where
  "setChild cs i n = (if unat i < length cs then Ret (cs[unat i := n]) else Panic)"

definition setGen :: "16 word \<Rightarrow> nodeFlag \<Rightarrow> nodeFlag" where
  "setGen gen fl = fl\<lparr>nf_gen := gen\<rparr>"

primrec tryGet :: "nat \<Rightarrow> Database \<Rightarrow> 16 word \<Rightarrow> node \<Rightarrow> bytes \<Rightarrow> bytes \<Rightarrow> (bytes option \<times> node \<times> bool) tr" where
  "tryGet 0 db gen orig path key = NoFuel"
| "tryGet (Suc fuel) db gen orig path key =
     (case orig of
        NilNode \<Rightarrow> Ret (Inr (None, NilNode, False))
      | ValueNode v \<Rightarrow> Ret (Inr (Some v, orig, False))
      | ShortNode k val fl \<Rightarrow>
          (if length key < length k \<or> k \<noteq> take (length k) key then Ret (Inr (None, orig, False))
           else tr_bind (tryGet fuel db gen val (path @ k) (drop (length k) key)) (\<lambda>(v, nn, res).
             Ret (Inr (v, if res then ShortNode k nn (setGen gen fl) else orig, res))))
      | FullNode cs fl \<Rightarrow>
          go_bind (getChild cs key) (\<lambda>c.
            tr_bind (tryGet fuel db gen c (path @ [hd key]) (tl key)) (\<lambda>(v, nn, res).
              if res then go_bind (setChild cs (hd key) nn) (\<lambda>cs. Ret (Inr (v, FullNode cs (setGen gen fl), res)))
              else Ret (Inr (v, orig, res))))
      | HashNode h \<Rightarrow>
          tr_bind (resolveHash db gen h path) (\<lambda>child.
            tr_bind (tryGet fuel db gen child path key) (\<lambda>(v, nn, _). Ret (Inr (v, nn, True)))))"

primrec trie_insert :: "nat \<Rightarrow> Database \<Rightarrow> 16 word \<Rightarrow> node \<Rightarrow> bytes \<Rightarrow> bytes \<Rightarrow> node \<Rightarrow> (bool \<times> node) tr" where
  "trie_insert 0 db gen n prefix key val = NoFuel"
| "trie_insert (Suc fuel) db gen n prefix key val =
     (if length key = 0 then
        (case n of
           ValueNode v \<Rightarrow> (case val of ValueNode w \<Rightarrow> Ret (Inr (v \<noteq> w, val)) | _ \<Rightarrow> Panic)
         | _ \<Rightarrow> Ret (Inr (True, val)))
      else case n of
        ShortNode k v fl \<Rightarrow>
          (let matchlen = prefixLen key k in
           if matchlen = length k then
             tr_bind (trie_insert fuel db gen v (prefix @ take matchlen key) (drop matchlen key) val) (\<lambda>(dirty, nn).
               Ret (Inr (if \<not> dirty then (False, n) else (True, ShortNode k nn (newFlag gen)))))
           else
             tr_bind (trie_insert fuel db gen NilNode (prefix @ take (matchlen + 1) k) (drop (matchlen + 1) k) v) (\<lambda>(_, c1).
             go_bind (setChild (replicate 17 NilNode) (k ! matchlen) c1) (\<lambda>cs.
             go_bind (go_index key matchlen) (\<lambda>x.
             tr_bind (trie_insert fuel db gen NilNode (prefix @ take (matchlen + 1) key) (drop (matchlen + 1) key) val) (\<lambda>(_, c2).
             go_bind (setChild cs x c2) (\<lambda>cs.
               let branch = FullNode cs (newFlag gen) in
               Ret (Inr (True, if matchlen = 0 then branch else ShortNode (take matchlen key) branch (newFlag gen)))))))))
      | FullNode cs fl \<Rightarrow>
          go_bind (getChild cs key) (\<lambda>c.
          tr_bind (trie_insert fuel db gen c (prefix @ [hd key]) (tl key) val) (\<lambda>(dirty, nn).
            if \<not> dirty then Ret (Inr (False, n))
            else go_bind (setChild cs (hd key) nn) (\<lambda>cs. Ret (Inr (True, FullNode cs (newFlag gen))))))
      | NilNode \<Rightarrow> Ret (Inr (True, ShortNode key val (newFlag gen)))
      | HashNode h \<Rightarrow>
          tr_bind (resolveHash db gen h prefix) (\<lambda>rn.
          tr_bind (trie_insert fuel db gen rn prefix key val) (\<lambda>(dirty, nn).
            Ret (Inr (if \<not> dirty then (False, rn) else (True, nn)))))
      | ValueNode v \<Rightarrow> Panic)"

text \<open>The only child of a full node: its index, \<open>-1\<close> for none, \<open>-2\<close> for several.\<close>

fun onlyChild :: "nat \<Rightarrow> int \<Rightarrow> node list \<Rightarrow> int" where
  "onlyChild i pos [] = pos"
| "onlyChild i pos (c # cs) =
     (if c \<noteq> NilNode then (if pos = -1 then onlyChild (i + 1) (int i) cs else -2) else onlyChild (i + 1) pos cs)"

definition reduceFull :: "Database \<Rightarrow> 16 word \<Rightarrow> bytes \<Rightarrow> node list \<Rightarrow> (bool \<times> node) tr" where
  "reduceFull db gen prefix cs =
     (let pos = onlyChild 0 (-1) cs in
      if pos \<ge> 0 then
        (let child = cs ! nat pos; short = ShortNode [of_int pos] child (newFlag gen) in
         if pos \<noteq> 16 then
           tr_bind (trie_resolve db gen child prefix) (\<lambda>cnode. Ret (Inr (True,
             case cnode of ShortNode k v fl \<Rightarrow> ShortNode (of_int pos # k) v (newFlag gen) | _ \<Rightarrow> short)))
         else Ret (Inr (True, short)))
      else Ret (Inr (True, FullNode cs (newFlag gen))))"

primrec trie_delete :: "nat \<Rightarrow> Database \<Rightarrow> 16 word \<Rightarrow> node \<Rightarrow> bytes \<Rightarrow> bytes \<Rightarrow> (bool \<times> node) tr" where
  "trie_delete 0 db gen n prefix key = NoFuel"
| "trie_delete (Suc fuel) db gen n prefix key =
     (case n of
        ShortNode k v fl \<Rightarrow>
          (let matchlen = prefixLen key k in
           if matchlen < length k then Ret (Inr (False, n))
           else if matchlen = length key then Ret (Inr (True, NilNode))
           else tr_bind (trie_delete fuel db gen v (prefix @ take (length k) key) (drop (length k) key)) (\<lambda>(dirty, child).
             if \<not> dirty then Ret (Inr (False, n))
             else Ret (Inr (True,
               case child of ShortNode k2 v2 fl2 \<Rightarrow> ShortNode (k @ k2) v2 (newFlag gen) | _ \<Rightarrow> ShortNode k child (newFlag gen)))))
      | FullNode cs fl \<Rightarrow>
          go_bind (getChild cs key) (\<lambda>c.
          tr_bind (trie_delete fuel db gen c (prefix @ [hd key]) (tl key)) (\<lambda>(dirty, nn).
            if \<not> dirty then Ret (Inr (False, n))
            else go_bind (setChild cs (hd key) nn) (reduceFull db gen prefix)))
      | ValueNode v \<Rightarrow> Ret (Inr (True, NilNode))
      | NilNode \<Rightarrow> Ret (Inr (False, NilNode))
      | HashNode h \<Rightarrow>
          tr_bind (resolveHash db gen h prefix) (\<lambda>rn.
          tr_bind (trie_delete fuel db gen rn prefix key) (\<lambda>(dirty, nn).
            Ret (Inr (if \<not> dirty then (False, rn) else (True, nn))))))"

section \<open>Tries\<close>

record Trie =
  tr_root :: node
  tr_originalRoot :: hash
  tr_cachegen :: "16 word"
  tr_cachelimit :: "16 word"

definition emptyRoot :: hash where
  "emptyRoot = 0x56e81f171bcc55a6ff8345e692c0f86e5b48e01b996cadc001622fb5e363b421"

definition trie_New :: "hash \<Rightarrow> Database \<Rightarrow> Trie tr" where
  "trie_New root db =
     (let t = \<lparr>tr_root = NilNode, tr_originalRoot = root, tr_cachegen = 0, tr_cachelimit = 0\<rparr> in
      if root \<noteq> 0 \<and> root \<noteq> emptyRoot
      then tr_bind (resolveHash db 0 (Hash_Bytes root) []) (\<lambda>n. Ret (Inr (t\<lparr>tr_root := n\<rparr>)))
      else Ret (Inr t))"

text \<open>Two steps for every nibble, one of them to resolve a hash, and two more.\<close>

definition key_fuel :: "bytes \<Rightarrow> nat" where
  "key_fuel k = 2 * length k + 2"

definition Trie_TryGet :: "Database \<Rightarrow> Trie \<Rightarrow> bytes \<Rightarrow> (bytes option \<times> Trie) tr" where
  "Trie_TryGet db t key =
     (let k = keybytesToHex key in
      tr_bind (tryGet (key_fuel k) db (tr_cachegen t) (tr_root t) [] k) (\<lambda>(v, newroot, didResolve).
        Ret (Inr (v, if didResolve then t\<lparr>tr_root := newroot\<rparr> else t))))"

definition Trie_TryUpdate :: "Database \<Rightarrow> Trie \<Rightarrow> bytes \<Rightarrow> bytes \<Rightarrow> Trie tr" where
  "Trie_TryUpdate db t key val =
     (let k = keybytesToHex key in
      tr_bind (if length val \<noteq> 0 then trie_insert (key_fuel k) db (tr_cachegen t) (tr_root t) [] k (ValueNode val)
               else trie_delete (key_fuel k) db (tr_cachegen t) (tr_root t) [] k) (\<lambda>(_, n).
        Ret (Inr (t\<lparr>tr_root := n\<rparr>))))"

definition Trie_TryDelete :: "Database \<Rightarrow> Trie \<Rightarrow> bytes \<Rightarrow> Trie tr" where
  "Trie_TryDelete db t key =
     (let k = keybytesToHex key in
      tr_bind (trie_delete (key_fuel k) db (tr_cachegen t) (tr_root t) [] k) (\<lambda>(_, n). Ret (Inr (t\<lparr>tr_root := n\<rparr>))))"

end
