(* ===== verification/Trie_Map.thy ===== *)
theory Trie_Map
  imports Trie_Node
begin

text \<open>
  A trie is a finite map. \<open>holds db kd n m\<close>: the node \<open>n\<close>, with the parts that are not loaded taken
  from the store \<open>db\<close>, is in the canonical form of Merkle Patricia tries and stores the map \<open>m\<close> from
  keys (the rest of the path, in nibbles with a terminator) to values; \<open>kd\<close> is the kind of the node
  once it is loaded. Lookup, insertion and deletion compute the lookup and update of this map and
  keep the canonical form; \<open>holds\<close> bounds the fuel they need by the length of the key.
\<close>

section \<open>Canonical tries\<close>

datatype kind = KNil | KVal | KShort | KFull

definition hexkey :: "bytes \<Rightarrow> bool" where
  "hexkey key \<longleftrightarrow> (\<exists>ns. is_nibbles ns \<and> key = ns @ [16])"

definition short_map :: "bytes \<Rightarrow> (bytes \<rightharpoonup> bytes) \<Rightarrow> bytes \<rightharpoonup> bytes" where
  "short_map k m key = (if take (length k) key = k then m (drop (length k) key) else None)"

definition full_map :: "(nat \<Rightarrow> bytes \<rightharpoonup> bytes) \<Rightarrow> bytes \<rightharpoonup> bytes" where
  "full_map ms key = (case key of [] \<Rightarrow> None | x # xs \<Rightarrow> if unat x < 17 then ms (unat x) xs else None)"

lemma short_map_simps [simp]:
  "short_map k m (k @ r) = m r" "take (length k) key \<noteq> k \<Longrightarrow> short_map k m key = None"
  by (simp_all add: short_map_def)

lemma full_map_simps [simp]:
  "full_map ms [] = None" "unat x < 17 \<Longrightarrow> full_map ms (x # xs) = ms (unat x) xs" "\<not> unat x < 17 \<Longrightarrow> full_map ms (x # xs) = None"
  by (simp_all add: full_map_def)

definition is_hash :: "node \<Rightarrow> bool" where
  "is_hash n \<longleftrightarrow> (\<exists>h. n = HashNode h)"

definition child_kinds :: "nat \<Rightarrow> kind set" where
  "child_kinds i = (if i = 16 then {KNil, KVal} else {KNil, KShort, KFull})"

text \<open>The key of a short node ends with the terminator just before a value.\<close>

definition short_key :: "bytes \<Rightarrow> kind \<Rightarrow> bool" where
  "short_key k kd \<longleftrightarrow> kd = KVal \<and> hexkey k \<or> kd = KFull \<and> is_nibbles k \<and> k \<noteq> []"

inductive holds :: "Database \<Rightarrow> kind \<Rightarrow> node \<Rightarrow> (bytes \<rightharpoonup> bytes) \<Rightarrow> bool" for db where
  holds_nil: "holds db KNil NilNode Map.empty"
| holds_value: "v \<noteq> [] \<Longrightarrow> holds db KVal (ValueNode v) [[] \<mapsto> v]"
| holds_short: "holds db kd n m \<Longrightarrow> short_key k kd \<Longrightarrow> holds db KShort (ShortNode k n fl) (short_map k m)"
| holds_full: "length cs = 17 \<Longrightarrow> \<forall>i < 17. ks i \<in> child_kinds i \<and> holds db (ks i) (cs ! i) (ms i) \<Longrightarrow>
    i < 17 \<Longrightarrow> j < 17 \<Longrightarrow> i \<noteq> j \<Longrightarrow> ks i \<noteq> KNil \<Longrightarrow> ks j \<noteq> KNil \<Longrightarrow> holds db KFull (FullNode cs fl) (full_map ms)"
| holds_hash: "kd \<in> {KShort, KFull} \<Longrightarrow>
    \<forall>gen path. \<exists>n. resolveHash db gen h path = Ret (Inr n) \<and> \<not> is_hash n \<and> holds db kd n m \<Longrightarrow> holds db kd (HashNode h) m"

inductive_cases holds_nilE: "holds db kd NilNode m"
inductive_cases holds_valueE: "holds db kd (ValueNode v) m"
inductive_cases holds_shortE: "holds db kd (ShortNode k n fl) m"
inductive_cases holds_fullE: "holds db kd (FullNode cs fl) m"
inductive_cases holds_hashE: "holds db kd (HashNode h) m"

lemma is_hash_simps [simp]:
  "\<not> is_hash NilNode" "\<not> is_hash (FullNode cs fl)" "\<not> is_hash (ShortNode k n fl)" "\<not> is_hash (ValueNode v)" "is_hash (HashNode h)"
  by (simp_all add: is_hash_def)

lemma holds_KNil: "holds db KNil n m \<longleftrightarrow> n = NilNode \<and> m = Map.empty"
  by (auto intro: holds_nil elim: holds.cases)

lemma holds_KVal: "holds db KVal n m \<longleftrightarrow> (\<exists>v. n = ValueNode v \<and> v \<noteq> [] \<and> m = [[] \<mapsto> v])"
  by (auto intro: holds_value elim: holds.cases)

lemma holds_loaded:
  assumes "holds db kd n m" "\<not> is_hash n"
  shows "kd = KShort \<longleftrightarrow> (\<exists>k c fl. n = ShortNode k c fl)" "kd = KFull \<longleftrightarrow> (\<exists>cs fl. n = FullNode cs fl)"
    "kd = KNil \<longleftrightarrow> n = NilNode"
  using assms by (auto elim: holds.cases)

section \<open>Keys\<close>

lemma hexkey_Cons: "hexkey (x # xs) \<longleftrightarrow> (if x = 16 then xs = [] else x < 16 \<and> hexkey xs)"
proof -
  have "hexkey (x # xs) \<longleftrightarrow> (x = 16 \<and> xs = []) \<or> x < 16 \<and> hexkey xs"
    unfolding hexkey_def by (cases xs rule: rev_cases) (auto simp: append_eq_Cons_conv Cons_eq_append_conv)
  then show ?thesis
    by auto
qed

lemma not_hexkey_Nil [simp]: "\<not> hexkey []"
  by (simp add: hexkey_def)

lemma hexkey_nonempty: "hexkey key \<Longrightarrow> 0 < length key"
  by (cases key) auto

lemma hexkey_keybytesToHex [simp]: "hexkey (keybytesToHex key)"
  by (auto simp: hexkey_def keybytesToHex_def)

lemma hexkey_append: "is_nibbles k \<Longrightarrow> hexkey (k @ key) \<longleftrightarrow> hexkey key"
  by (induction k) (auto simp: hexkey_Cons)

lemma hexkey_idx: "hexkey (x # xs) \<Longrightarrow> unat x < 17"
  by (auto simp: hexkey_Cons word_less_nat_alt split: if_splits)

lemma prefixLen_Nil [simp]: "prefixLen a [] = 0"
  by (cases a) simp_all

lemma prefixLen_ex: "\<exists>p a' b'. a = p @ a' \<and> b = p @ b' \<and> prefixLen a b = length p \<and> (a' = [] \<or> b' = [] \<or> hd a' \<noteq> hd b')"
proof (induction a b rule: prefixLen.induct)
  case (1 x a y b)
  show ?case
  proof (cases "x = y")
    case True
    then obtain p a' b' where "a = p @ a'" "b = p @ b'" "prefixLen a b = length p" "a' = [] \<or> b' = [] \<or> hd a' \<noteq> hd b'"
      using "1.IH" by blast
    then show ?thesis
      using True by (intro exI [of _ "x # p"] exI [of _ a'] exI [of _ b']) simp
  qed (rule exI [of _ "[]"], simp)
qed (rule exI [of _ "[]"], simp)+

lemma prefixLen_split:
  obtains p a' b' where "a = p @ a'" "b = p @ b'" "prefixLen a b = length p" "a' = [] \<or> b' = [] \<or> hd a' \<noteq> hd b'"
  using prefixLen_ex by blast

lemma take_eq_append: "take (length k) key = k \<longleftrightarrow> (\<exists>r. key = k @ r)"
  by (metis append_eq_conv_conj append_take_drop_id)

lemma hexkey_prefix: "hexkey k \<Longrightarrow> hexkey (k @ r) \<Longrightarrow> r = []"
  by (induction k) (auto simp: hexkey_Cons split: if_splits)

text \<open>The rest of the key below a short node fits its child.\<close>

definition fits :: "kind \<Rightarrow> bytes \<Rightarrow> bool" where
  "fits kd key \<longleftrightarrow> (if kd = KVal then key = [] else hexkey key)"

lemma fits_short:
  assumes "short_key k kd" "hexkey (k @ r)"
  shows "fits kd r" "length r < length (k @ r)"
  using assms hexkey_nonempty [of k] by (auto simp: short_key_def fits_def hexkey_append dest: hexkey_prefix)

lemma fits_full:
  assumes "hexkey (x # xs)" "kd \<in> child_kinds (unat x)" "kd \<noteq> KNil"
  shows "fits kd xs"
  using assms by (auto simp: fits_def child_kinds_def hexkey_Cons word_less_nat_alt split: if_splits)

section \<open>Lookup\<close>

definition fuel_for :: "node \<Rightarrow> bytes \<Rightarrow> nat" where
  "fuel_for n key = 2 * length key + (if is_hash n then 2 else 1)"

lemma fuel_le: "fuel_for n key \<le> 2 * length key + 2"
  by (simp add: fuel_for_def)

lemma tryGet_nil: "0 < fuel \<Longrightarrow> tryGet fuel db gen NilNode path key = Ret (Inr (None, NilNode, False))"
  by (cases fuel) simp_all

lemma getChild_eq: "hexkey key \<Longrightarrow> length cs = 17 \<Longrightarrow> getChild cs key = Ret (cs ! unat (hd key))"
  by (cases key) (auto simp: getChild_def go_index_def dest: hexkey_idx)

lemma full_update:
  assumes "length cs = 17" "\<forall>i < 17. ks i \<in> child_kinds i \<and> holds db (ks i) (cs ! i) (ms i)"
    "x < 17" "kd \<in> child_kinds x" "holds db kd n m"
  shows "\<forall>i < 17. (ks(x := kd)) i \<in> child_kinds i \<and> holds db ((ks(x := kd)) i) (cs[x := n] ! i) ((ms(x := m)) i)"
  using assms by (auto simp: nth_list_update)

lemma tryGet_holds:
  assumes "holds db kd n m"
  shows "fits kd key \<Longrightarrow> fuel_for n key \<le> fuel \<Longrightarrow>
    \<exists>n' r. tryGet fuel db gen n path key = Ret (Inr (m key, n', r)) \<and> holds db kd n' m"
  using assms
proof (induction arbitrary: key fuel path)
  case holds_nil
  then show ?case
    using holds.holds_nil tryGet_nil by (auto simp: fuel_for_def)
next
  case (holds_value v)
  then obtain f where "fuel = Suc f" "key = []"
    by (cases fuel) (auto simp: fits_def fuel_for_def)
  then show ?case
    by (intro exI [of _ "ValueNode v"] exI [of _ False] conjI holds.holds_value [OF holds_value.hyps]) simp
next
  case (holds_short kd n m k fl)
  obtain f where f: "fuel = Suc f" "2 * length key \<le> f"
    using holds_short.prems by (cases fuel) (auto simp: fuel_for_def)
  have hold: "holds db KShort (ShortNode k n' fl') (short_map k m)" if "holds db kd n' m" for n' fl'
    using that holds_short.hyps by (intro holds.holds_short)
  show ?case
  proof (cases "take (length k) key = k")
    case True
    then obtain r where r: "key = k @ r"
      by (auto simp: take_eq_append)
    have "fits kd r" "length r < length key"
      using fits_short [of k kd r] holds_short r by (auto simp: fits_def)
    then have "fuel_for n r \<le> f"
      using fuel_le [of n r] f(2) by simp
    then obtain n' res where "tryGet f db gen n (path @ k) r = Ret (Inr (m r, n', res))" "holds db kd n' m"
      using holds_short.IH [OF \<open>fits kd r\<close>, of f "path @ k"] by blast
    then show ?thesis
      using hold holds_short.hyps r f(1) by auto
  next
    case False
    then show ?thesis
      using hold [OF holds_short.hyps(1)] f(1) by auto
  qed
next
  case (holds_full cs ks ms i j fl)
  obtain f x xs where f: "fuel = Suc f" "2 * length key \<le> f" and key: "key = x # xs" "hexkey (x # xs)"
    using holds_full.prems by (cases fuel; cases key) (auto simp: fuel_for_def fits_def)
  let ?x = "unat x"
  have x: "?x < 17" "getChild cs key = Ret (cs ! ?x)"
    using key getChild_eq [of key cs] holds_full.hyps(1) hexkey_idx by auto
  have kx: "ks ?x \<in> child_kinds ?x" "holds db (ks ?x) (cs ! ?x) (ms ?x)"
    using holds_full.IH x(1) by auto
  have keep: "holds db KFull (FullNode cs' fl') (full_map ms)"
    if "length cs' = 17" "\<forall>i < 17. ks i \<in> child_kinds i \<and> holds db (ks i) (cs' ! i) (ms i)" for cs' fl'
    using holds.holds_full [OF that holds_full.hyps(2-6)] .
  have all: "\<forall>i < 17. ks i \<in> child_kinds i \<and> holds db (ks i) (cs ! i) (ms i)"
    using holds_full.IH by blast
  have "\<exists>n' r. tryGet f db gen (cs ! ?x) (path @ [x]) xs = Ret (Inr (ms ?x xs, n', r)) \<and> holds db (ks ?x) n' (ms ?x)"
  proof (cases "ks ?x = KNil")
    case True
    then have "cs ! ?x = NilNode" "ms ?x = Map.empty"
      using kx(2) holds_KNil by auto
    then show ?thesis
      using True tryGet_nil [of f] f(2) key holds_nil by auto
  next
    case False
    have "fuel_for (cs ! ?x) xs \<le> f"
      using fuel_le [of "cs ! ?x" xs] f(2) key(1) by simp
    then show ?thesis
      using holds_full.IH x(1) fits_full [OF key(2) kx(1) False] by blast
  qed
  then obtain n' r where r: "tryGet f db gen (cs ! ?x) (path @ [x]) xs = Ret (Inr (ms ?x xs, n', r))" "holds db (ks ?x) n' (ms ?x)"
    by blast
  have "holds db KFull (FullNode (cs[?x := n']) fl') (full_map ms)" for fl'
    using full_update [OF holds_full.hyps(1) all x(1) kx(1) r(2)] holds_full.hyps(1) by (intro keep) auto
  then show ?case
    using r(1) keep [OF holds_full.hyps(1) all] x key f(1) holds_full.hyps(1) by (auto simp: setChild_def)
next
  case (holds_hash kd h m)
  obtain f where f: "fuel = Suc f" "2 * length key + 1 \<le> f"
    using holds_hash.prems by (cases fuel) (auto simp: fuel_for_def)
  obtain n where n: "resolveHash db gen h path = Ret (Inr n)" "\<not> is_hash n"
    "\<forall>key fuel path. fits kd key \<longrightarrow> fuel_for n key \<le> fuel \<longrightarrow>
       (\<exists>n' r. tryGet fuel db gen n path key = Ret (Inr (m key, n', r)) \<and> holds db kd n' m)"
    using holds_hash.IH by metis
  moreover have "fuel_for n key \<le> f"
    using n(2) f(2) by (simp add: fuel_for_def)
  ultimately obtain n' r where "tryGet f db gen n path key = Ret (Inr (m key, n', r))" "holds db kd n' m"
    using holds_hash.prems(1) by blast
  then show ?case
    using n(1) f(1) by auto
qed

section \<open>Insertion\<close>

definition kinds_after_insert :: "kind \<Rightarrow> kind set" where
  "kinds_after_insert kd =
     (case kd of KVal \<Rightarrow> {KVal} | KNil \<Rightarrow> {KShort} | KShort \<Rightarrow> {KShort, KFull} | KFull \<Rightarrow> {KFull})"

definition inserts :: "Database \<Rightarrow> kind \<Rightarrow> (bytes \<rightharpoonup> bytes) \<Rightarrow> bytes \<Rightarrow> bytes \<Rightarrow> (bool \<times> node) tr \<Rightarrow> bool" where
  "inserts db kd m key v r \<longleftrightarrow>
     (\<exists>d n' kd'. r = Ret (Inr (d, n')) \<and> kd' \<in> kinds_after_insert kd \<and> holds db kd' n' (m(key \<mapsto> v)) \<and> (\<not> d \<longrightarrow> m key = Some v))"

lemma insertsI: "r = Ret (Inr (d, n')) \<Longrightarrow> kd' \<in> kinds_after_insert kd \<Longrightarrow> holds db kd' n' (m(key \<mapsto> v)) \<Longrightarrow> (\<not> d \<Longrightarrow> m key = Some v) \<Longrightarrow>
  inserts db kd m key v r"
  by (auto simp: inserts_def)

text \<open>Below a new branch: the node itself, or a short node over the rest of its key.\<close>

definition leaf :: "16 word \<Rightarrow> bytes \<Rightarrow> node \<Rightarrow> node" where
  "leaf gen k n = (if k = [] then n else ShortNode k n (newFlag gen))"

lemma trie_insert_nil: "0 < fuel \<Longrightarrow> trie_insert fuel db gen NilNode path k n = Ret (Inr (True, leaf gen k n))"
  by (cases fuel) (simp_all add: leaf_def)

lemma short_map_Nil [simp]: "short_map [] m = m"
  by (simp add: short_map_def fun_eq_iff)

lemma short_map_append: "short_map (k @ l) m = short_map k (short_map l m)"
proof
  fix key
  show "short_map (k @ l) m key = short_map k (short_map l m) key"
  proof (cases "take (length k) key = k")
    case True
    then obtain r where "key = k @ r"
      by (auto simp: take_eq_append)
    then show ?thesis
      by (simp add: short_map_def)
  next
    case False
    then have "take (length (k @ l)) key \<noteq> k @ l"
      by (metis append_assoc take_eq_append)
    then show ?thesis
      using False by (simp add: short_map_def)
  qed
qed

lemma short_map_upd: "(short_map k m)(k @ r \<mapsto> v) = short_map k (m(r \<mapsto> v))"
  by (auto simp: short_map_def fun_eq_iff take_eq_append)

lemma short_map_del: "(short_map k m)(k @ r := None) = short_map k (m(r := None))"
  by (auto simp: short_map_def fun_eq_iff take_eq_append)

lemma full_map_upd: "unat x < 17 \<Longrightarrow> (full_map ms)(x # xs := y) = full_map (ms(unat x := (ms (unat x))(xs := y)))"
  by (auto simp: full_map_def fun_eq_iff word_unat_eq_iff split: list.split)

text \<open>What a short node keeps after its first nibble.\<close>

lemma leaf_holds:
  assumes "holds db kd n m" "short_key (y # ys) kd"
  shows "\<exists>kd'. kd' \<in> child_kinds (unat y) \<and> kd' \<noteq> KNil \<and> holds db kd' (leaf gen ys n) (short_map ys m)" "unat y < 17"
proof -
  show "unat y < 17"
    using assms(2) hexkey_idx [of y ys] by (auto simp: short_key_def word_less_nat_alt)
  show "\<exists>kd'. kd' \<in> child_kinds (unat y) \<and> kd' \<noteq> KNil \<and> holds db kd' (leaf gen ys n) (short_map ys m)"
  proof (cases "ys = []")
    case True
    then show ?thesis
      using assms by (intro exI [of _ kd]) (auto simp: leaf_def short_key_def child_kinds_def hexkey_Cons word_less_nat_alt split: if_splits)
  next
    case False
    then have "short_key ys kd" "y \<noteq> 16"
      using assms(2) by (auto simp: short_key_def hexkey_Cons split: if_splits)
    then show ?thesis
      using False holds_short [OF assms(1)] by (intro exI [of _ KShort]) (auto simp: leaf_def child_kinds_def unat_arith_simps(3))
  qed
qed

lemma short_map_Cons: "short_map (y # ys) m key = (case key of [] \<Rightarrow> None | x # xs \<Rightarrow> if x = y then short_map ys m xs else None)"
  by (auto simp: short_map_def split: list.split)

lemma short_map_value: "short_map k [[] \<mapsto> v] = [k \<mapsto> v]"
  by (auto simp: short_map_def fun_eq_iff take_eq_append)

lemma holds_full_two:
  assumes "holds db k1 n1 m1" "k1 \<in> child_kinds i" "k1 \<noteq> KNil" "i < 17"
    and "holds db k2 n2 m2" "k2 \<in> child_kinds j" "k2 \<noteq> KNil" "j < 17" "i \<noteq> j"
  shows "holds db KFull (FullNode ((replicate 17 NilNode)[i := n1, j := n2]) fl) (full_map ((\<lambda>_. Map.empty)(i := m1, j := m2)))"
proof (rule holds_full [where ks = "(\<lambda>_. KNil)(i := k1, j := k2)", OF _ _ assms(4,8,9)])
  show "\<forall>l < 17. ((\<lambda>_. KNil)(i := k1, j := k2)) l \<in> child_kinds l \<and>
      holds db (((\<lambda>_. KNil)(i := k1, j := k2)) l) ((replicate 17 NilNode)[i := n1, j := n2] ! l) (((\<lambda>_. Map.empty)(i := m1, j := m2)) l)"
    using assms holds_nil by (auto simp: nth_list_update child_kinds_def)
qed (use assms in simp_all)

lemma branch_holds:
  assumes "holds db kd n m" "short_key (y # ys) kd" "v \<noteq> []" "hexkey (x # xs)" "x \<noteq> y"
  shows "holds db KFull (FullNode ((replicate 17 NilNode)[unat y := leaf gen ys n, unat x := leaf gen xs (ValueNode v)]) fl)
    ((short_map (y # ys) m)(x # xs \<mapsto> v))"
proof -
  obtain k1 where 1: "k1 \<in> child_kinds (unat y)" "k1 \<noteq> KNil" "holds db k1 (leaf gen ys n) (short_map ys m)" "unat y < 17"
    using leaf_holds [OF assms(1,2)] by blast
  have "short_key (x # xs) KVal"
    using assms(4) by (simp add: short_key_def)
  then obtain k2 where 2: "k2 \<in> child_kinds (unat x)" "k2 \<noteq> KNil" "holds db k2 (leaf gen xs (ValueNode v)) [xs \<mapsto> v]" "unat x < 17"
    using leaf_holds [OF holds_value [OF assms(3)], of x xs] by (auto simp: short_map_value)
  have "full_map ((\<lambda>_. Map.empty)(unat y := short_map ys m, unat x := [xs \<mapsto> v])) = (short_map (y # ys) m)(x # xs \<mapsto> v)"
    using assms(5) 1(4) 2(4) by (auto simp: full_map_def fun_eq_iff short_map_Cons word_unat_eq_iff split: list.split)
  then show ?thesis
    using holds_full_two [OF 1(3,1,2,4) 2(3,1,2,4)] assms(5) by (simp add: word_unat_eq_iff)
qed

text \<open>The key leaves the path of a short node.\<close>

lemma insert_branch:
  assumes n: "holds db kd n m" "short_key k kd" and v: "v \<noteq> []" and key: "hexkey key" "prefixLen key k \<noteq> length k" and f: "0 < f"
  shows "inserts db KShort (short_map k m) key v (trie_insert (Suc f) db gen (ShortNode k n fl) path key (ValueNode v))"
proof -
  obtain p a b where split: "key = p @ a" "k = p @ b" "prefixLen key k = length p" "a = [] \<or> b = [] \<or> hd a \<noteq> hd b"
    using prefixLen_split [of key k] .
  have "b \<noteq> []"
    using key(2) split(2,3) by auto
  then obtain y ys where b: "b = y # ys"
    by (cases b) auto
  have pb: "is_nibbles p \<and> short_key b kd"
  proof (cases "kd = KVal")
    case True
    then have "hexkey (p @ b)"
      using n(2) split(2) by (auto simp: short_key_def)
    then have "is_nibbles p"
      using b by (induction p) (auto simp: hexkey_Cons split: if_splits)
    then show ?thesis
      using True \<open>hexkey (p @ b)\<close> by (auto simp: short_key_def hexkey_append)
  qed (use n(2) split(2) b in \<open>auto simp: short_key_def\<close>)
  have a: "hexkey a"
    using key(1) split(1) pb by (simp add: hexkey_append)
  then obtain x xs where x: "a = x # xs" "x \<noteq> y" "unat x < 17"
    using split(4) b hexkey_idx by (cases a) auto
  have y: "unat y < 17"
    using leaf_holds(2) [OF n(1), of y ys] pb b by simp
  let ?br = "FullNode ((replicate 17 NilNode)[unat y := leaf gen ys n, unat x := leaf gen xs (ValueNode v)]) (newFlag gen)"
  have br: "holds db KFull ?br ((short_map (y # ys) m)(x # xs \<mapsto> v))"
    using branch_holds [OF n(1) _ v _ x(2)] pb b a x(1) by simp
  have run: "trie_insert (Suc f) db gen (ShortNode k n fl) path key (ValueNode v) =
      Ret (Inr (True, if p = [] then ?br else ShortNode p ?br (newFlag gen)))"
    using key split b x y f trie_insert_nil [OF f] hexkey_nonempty [OF key(1)]
    by (simp add: Let_def setChild_def go_index_def nth_append)
  have "(short_map k m)(key \<mapsto> v) = short_map p ((short_map (y # ys) m)(x # xs \<mapsto> v))"
    using split(1,2) b x(1) by (simp add: short_map_append short_map_upd)
  moreover have "short_key p KFull" if "p \<noteq> []"
    using pb that by (simp add: short_key_def)
  ultimately show ?thesis
    using br holds_short [OF br, of p "newFlag gen"]
    by (intro insertsI [OF run, of "if p = [] then KFull else KShort"]) (auto simp: kinds_after_insert_def)
qed

lemma holds_full_update:
  assumes cs: "length cs = 17" "\<forall>i < 17. ks i \<in> child_kinds i \<and> holds db (ks i) (cs ! i) (ms i)"
    and ij: "i < 17" "j < 17" "i \<noteq> j" "ks i \<noteq> KNil" "ks j \<noteq> KNil"
    and n: "x < 17" "kd \<in> child_kinds x" "kd \<noteq> KNil" "holds db kd n m"
  shows "holds db KFull (FullNode (cs[x := n]) fl) (full_map (ms(x := m)))"
  by (rule holds_full [OF _ full_update [OF cs n(1,2,4)] ij(1-3)]) (use cs(1) ij(4,5) n(3) in auto)

lemma kinds_child: "kd \<in> child_kinds i \<Longrightarrow> kd \<noteq> KNil \<Longrightarrow> kd' \<in> kinds_after_insert kd \<Longrightarrow> kd' \<in> child_kinds i \<and> kd' \<noteq> KNil"
  by (auto simp: child_kinds_def kinds_after_insert_def split: if_splits)

lemma insert_short_match:
  assumes n: "holds db kd n m" "short_key k kd" and key: "key = k @ r" "hexkey key"
    and ins: "inserts db kd m r v (trie_insert f db gen n (path @ k) r (ValueNode v))"
  shows "inserts db KShort (short_map k m) key v (trie_insert (Suc f) db gen (ShortNode k n fl) path key (ValueNode v))"
proof -
  obtain d n' kd' where i: "trie_insert f db gen n (path @ k) r (ValueNode v) = Ret (Inr (d, n'))" "kd' \<in> kinds_after_insert kd"
    "holds db kd' n' (m(r \<mapsto> v))" "\<not> d \<longrightarrow> m r = Some v"
    using ins by (auto simp: inserts_def)
  have kd': "kd' = kd"
    using i(2) n(2) by (auto simp: kinds_after_insert_def short_key_def)
  have len: "prefixLen key k = length k"
    unfolding key(1) by (induction k) simp_all
  have run: "trie_insert (Suc f) db gen (ShortNode k n fl) path key (ValueNode v) =
      Ret (Inr (if \<not> d then (False, ShortNode k n fl) else (True, ShortNode k n' (newFlag gen))))"
    using i(1) len key hexkey_nonempty [OF key(2)] by (auto simp: Let_def)
  show ?thesis
  proof (cases d)
    case True
    then show ?thesis
      using holds_short [OF i(3), of k "newFlag gen"] kd' n(2) run key(1)
      by (intro insertsI [of _ True "ShortNode k n' (newFlag gen)" KShort]) (simp_all add: kinds_after_insert_def short_map_upd)
  next
    case False
    then have "m(r \<mapsto> v) = m"
      using i(4) by auto
    then show ?thesis
      using False holds_short [OF n] run key(1) i(4)
      by (intro insertsI [of _ False "ShortNode k n fl" KShort]) (simp_all add: kinds_after_insert_def short_map_upd)
  qed
qed

lemma insert_full:
  assumes cs: "length cs = 17" "\<forall>i < 17. ks i \<in> child_kinds i \<and> holds db (ks i) (cs ! i) (ms i)"
    and ij: "i < 17" "j < 17" "i \<noteq> j" "ks i \<noteq> KNil" "ks j \<noteq> KNil"
    and key: "hexkey (x # xs)"
    and ins: "\<exists>kd. kd \<in> child_kinds (unat x) \<and> kd \<noteq> KNil \<and>
      (\<exists>d n'. trie_insert f db gen (cs ! unat x) (path @ [x]) xs (ValueNode v) = Ret (Inr (d, n')) \<and>
        holds db kd n' ((ms (unat x))(xs \<mapsto> v)) \<and> (\<not> d \<longrightarrow> ms (unat x) xs = Some v))"
  shows "inserts db KFull (full_map ms) (x # xs) v (trie_insert (Suc f) db gen (FullNode cs fl) path (x # xs) (ValueNode v))"
proof -
  let ?x = "unat x"
  have x: "?x < 17"
    using hexkey_idx [OF key] .
  obtain kd d n' where i: "kd \<in> child_kinds ?x" "kd \<noteq> KNil"
    "trie_insert f db gen (cs ! ?x) (path @ [x]) xs (ValueNode v) = Ret (Inr (d, n'))"
    "holds db kd n' ((ms ?x)(xs \<mapsto> v))" "\<not> d \<longrightarrow> ms ?x xs = Some v"
    using ins by blast
  have run: "trie_insert (Suc f) db gen (FullNode cs fl) path (x # xs) (ValueNode v) =
      Ret (Inr (if \<not> d then (False, FullNode cs fl) else (True, FullNode (cs[?x := n']) (newFlag gen))))"
    using i(3) getChild_eq [OF key cs(1)] x cs(1) by (simp add: setChild_def)
  show ?thesis
  proof (cases d)
    case True
    then show ?thesis
      using holds_full_update [OF cs ij x i(1,2,4)] run x
      by (intro insertsI [of _ True "FullNode (cs[?x := n']) (newFlag gen)" KFull]) (simp_all add: kinds_after_insert_def full_map_upd)
  next
    case False
    then have "(full_map ms)(x # xs \<mapsto> v) = full_map ms"
      using i(5) x by auto
    then show ?thesis
      using False holds_full [OF cs ij] run x i(5)
      by (intro insertsI [of _ False "FullNode cs fl" KFull]) (simp_all add: kinds_after_insert_def)
  qed
qed

lemma trie_insert_holds:
  assumes "holds db kd n m" "v \<noteq> []"
  shows "fits kd key \<Longrightarrow> fuel_for n key \<le> fuel \<Longrightarrow> inserts db kd m key v (trie_insert fuel db gen n path key (ValueNode v))"
  using assms(1)
proof (induction arbitrary: key fuel path)
  case holds_nil
  then obtain f where "fuel = Suc f" "hexkey key"
    by (cases fuel) (auto simp: fuel_for_def fits_def)
  then show ?case
    using holds_short [OF holds_value [OF assms(2)], of key db "newFlag gen"] hexkey_nonempty [of key]
    by (intro insertsI [of _ True "ShortNode key (ValueNode v) (newFlag gen)" KShort])
      (simp_all add: kinds_after_insert_def short_key_def short_map_value)
next
  case (holds_value w)
  then obtain f where "fuel = Suc f" "key = []"
    by (cases fuel) (auto simp: fits_def fuel_for_def)
  then show ?case
    using assms(2)
    by (intro insertsI [of _ "w \<noteq> v" "ValueNode v" KVal]) (auto simp: kinds_after_insert_def holds_KVal fun_eq_iff)
next
  case (holds_short kd n m k fl)
  obtain f where f: "fuel = Suc f" "2 * length key \<le> f"
    using holds_short.prems by (cases fuel) (auto simp: fuel_for_def)
  have key: "hexkey key"
    using holds_short.prems(1) by (simp add: fits_def)
  show ?case
  proof (cases "prefixLen key k = length k")
    case True
    then obtain r where r: "key = k @ r"
      using prefixLen_split [of key k] by (metis append_eq_append_conv append_Nil2 self_append_conv length_append add_cancel_right_right length_0_conv)
    have "fits kd r" "length r < length key"
      using fits_short [OF holds_short.hyps(2), of r] key r by simp_all
    then have "inserts db kd m r v (trie_insert f db gen n (path @ k) r (ValueNode v))"
      using holds_short.IH fuel_le [of n r] f(2) by simp
    then show ?thesis
      using insert_short_match [OF holds_short.hyps r key] f(1) by simp
  next
    case False
    have "0 < f"
      using f(2) hexkey_nonempty [OF key] by linarith
    then show ?thesis
      unfolding f(1) by (rule insert_branch [OF holds_short.hyps assms(2) key False])
  qed
next
  case (holds_full cs ks ms i j fl)
  obtain f x xs where f: "fuel = Suc f" "2 * length key \<le> f" and key: "key = x # xs" "hexkey (x # xs)"
    using holds_full.prems by (cases fuel; cases key) (auto simp: fuel_for_def fits_def)
  have x: "unat x < 17"
    using hexkey_idx [OF key(2)] .
  have all: "\<forall>i < 17. ks i \<in> child_kinds i \<and> holds db (ks i) (cs ! i) (ms i)"
    using holds_full.IH by blast
  have kx: "ks (unat x) \<in> child_kinds (unat x)" "holds db (ks (unat x)) (cs ! unat x) (ms (unat x))"
    using all x by auto
  show ?case
    unfolding key(1) f(1)
  proof (rule insert_full [OF holds_full.hyps(1) all holds_full.hyps(2-6) key(2)])
    show "\<exists>kd. kd \<in> child_kinds (unat x) \<and> kd \<noteq> KNil \<and>
      (\<exists>d n'. trie_insert f db gen (cs ! unat x) (path @ [x]) xs (ValueNode v) = Ret (Inr (d, n')) \<and>
        holds db kd n' ((ms (unat x))(xs \<mapsto> v)) \<and> (\<not> d \<longrightarrow> ms (unat x) xs = Some v))"
    proof (cases "ks (unat x) = KNil")
      case True
      then have nil: "cs ! unat x = NilNode" "ms (unat x) = Map.empty"
        using kx(2) holds_KNil by auto
      have "short_key (x # xs) KVal"
        using key(2) by (simp add: short_key_def)
      then obtain k2 where "k2 \<in> child_kinds (unat x)" "k2 \<noteq> KNil" "holds db k2 (leaf gen xs (ValueNode v)) [xs \<mapsto> v]"
        using leaf_holds [OF holds_value [OF assms(2)], of x xs] by (auto simp: short_map_value)
      then show ?thesis
        using nil trie_insert_nil [of f] f(2) key(1) by auto
    next
      case False
      have "fuel_for (cs ! unat x) xs \<le> f"
        using fuel_le [of "cs ! unat x" xs] f(2) key(1) by simp
      then have "inserts db (ks (unat x)) (ms (unat x)) xs v (trie_insert f db gen (cs ! unat x) (path @ [x]) xs (ValueNode v))"
        using holds_full.IH x fits_full [OF key(2) kx(1) False] by blast
      then show ?thesis
        using kinds_child [OF kx(1) False] unfolding inserts_def by blast
    qed
  qed
next
  case (holds_hash kd h m)
  obtain f where f: "fuel = Suc f" "2 * length key + 1 \<le> f"
    using holds_hash.prems by (cases fuel) (auto simp: fuel_for_def)
  obtain n where n: "resolveHash db gen h path = Ret (Inr n)" "\<not> is_hash n" "holds db kd n m"
    "\<forall>key fuel path. fits kd key \<longrightarrow> fuel_for n key \<le> fuel \<longrightarrow> inserts db kd m key v (trie_insert fuel db gen n path key (ValueNode v))"
    using holds_hash.IH by metis
  then have "inserts db kd m key v (trie_insert f db gen n path key (ValueNode v))"
    using holds_hash.prems(1) f(2) by (simp add: fuel_for_def)
  then obtain d n' kd' where i: "trie_insert f db gen n path key (ValueNode v) = Ret (Inr (d, n'))" "kd' \<in> kinds_after_insert kd"
    "holds db kd' n' (m(key \<mapsto> v))" "\<not> d \<longrightarrow> m key = Some v"
    by (auto simp: inserts_def)
  have run: "trie_insert fuel db gen (HashNode h) path key (ValueNode v) = Ret (Inr (d, if d then n' else n))"
    using n(1) f(1) i(1) holds_hash.hyps(1) holds_hash.prems(1) hexkey_nonempty [of key] by (auto simp: fits_def)
  show ?case
  proof (cases d)
    case True
    then show ?thesis
      using i run by (intro insertsI [of _ d n' kd']) simp_all
  next
    case False
    then have "m(key \<mapsto> v) = m"
      using i(4) by auto
    then show ?thesis
      using False n(3) i(4) run holds_hash.hyps(1) by (intro insertsI [of _ d n kd]) (auto simp: kinds_after_insert_def)
  qed
qed

section \<open>Deletion\<close>

definition kinds_after_delete :: "kind \<Rightarrow> kind set" where
  "kinds_after_delete kd =
     (case kd of KNil \<Rightarrow> {KNil} | KVal \<Rightarrow> {KNil} | KShort \<Rightarrow> {KShort, KNil} | KFull \<Rightarrow> {KFull, KShort})"

definition deletes :: "Database \<Rightarrow> kind \<Rightarrow> (bytes \<rightharpoonup> bytes) \<Rightarrow> bytes \<Rightarrow> (bool \<times> node) tr \<Rightarrow> bool" where
  "deletes db kd m key r \<longleftrightarrow>
     (\<exists>d n' kd'. r = Ret (Inr (d, n')) \<and> holds db kd' n' (m(key := None)) \<and>
        (if d then kd' \<in> kinds_after_delete kd \<and> \<not> is_hash n' else kd' = kd \<and> m key = None))"

lemma deletesI: "r = Ret (Inr (True, n')) \<Longrightarrow> kd' \<in> kinds_after_delete kd \<Longrightarrow> \<not> is_hash n' \<Longrightarrow> holds db kd' n' (m(key := None)) \<Longrightarrow>
  deletes db kd m key r"
  by (auto simp: deletes_def)

lemma deletesI_clean: "r = Ret (Inr (False, n')) \<Longrightarrow> m key = None \<Longrightarrow> holds db kd n' m \<Longrightarrow> deletes db kd m key r"
  unfolding deletes_def by (metis (mono_tags) fun_upd_triv)

lemma onlyChild_found: "0 \<le> pos \<Longrightarrow> onlyChild i pos cs = (if \<forall>c \<in> set cs. c = NilNode then pos else -2)"
  by (induction cs arbitrary: i) auto

lemma onlyChild_cases:
  obtains (none) "onlyChild i (-1) cs = -1" "\<forall>c \<in> set cs. c = NilNode"
    | (one) p where "onlyChild i (-1) cs = int (i + p)" "p < length cs" "cs ! p \<noteq> NilNode"
        "\<forall>l < length cs. l \<noteq> p \<longrightarrow> cs ! l = NilNode"
    | (many) p q where "onlyChild i (-1) cs = -2" "p < length cs" "q < length cs" "p \<noteq> q" "cs ! p \<noteq> NilNode" "cs ! q \<noteq> NilNode"
proof (induction cs arbitrary: i thesis)
  case (Cons c cs)
  show ?case
  proof (cases "c = NilNode")
    case True
    show ?thesis
    proof (rule Cons.IH [of "Suc i"])
      fix p
      assume "onlyChild (Suc i) (- 1) cs = int (Suc i + p)" "p < length cs" "cs ! p \<noteq> NilNode"
        "\<forall>l < length cs. l \<noteq> p \<longrightarrow> cs ! l = NilNode"
      then show ?thesis
        using Cons.prems(2) [of "Suc p"] True by (auto simp: nth_Cons split: nat.split)
    next
      fix p q
      assume "onlyChild (Suc i) (- 1) cs = - 2" "p < length cs" "q < length cs" "p \<noteq> q" "cs ! p \<noteq> NilNode" "cs ! q \<noteq> NilNode"
      then show ?thesis
        using Cons.prems(3) [of "Suc p" "Suc q"] True by simp
    qed (use Cons.prems(1) True in simp)
  next
    case False
    show ?thesis
    proof (cases "\<forall>c \<in> set cs. c = NilNode")
      case True
      then show ?thesis
        using Cons.prems(2) [of 0] False onlyChild_found [of "int i" "Suc i" cs] by (auto simp: nth_Cons split: nat.split)
    next
      case nonnil: False
      then obtain q where "q < length cs" "cs ! q \<noteq> NilNode"
        by (auto simp: in_set_conv_nth)
      then show ?thesis
        using Cons.prems(3) [of 0 "Suc q"] False nonnil onlyChild_found [of "int i" "Suc i" cs] by auto
    qed
  qed
qed simp

lemma trie_resolve_holds:
  assumes "holds db kd n m"
  shows "\<exists>cn. trie_resolve db gen n path = Ret (Inr cn) \<and> \<not> is_hash cn \<and> holds db kd cn m"
  using assms by (cases n) (auto simp: trie_resolve_def elim: holds_hashE)

lemma full_map_single:
  assumes "p < 17" "\<And>i. i < 17 \<Longrightarrow> i \<noteq> p \<Longrightarrow> ms i = Map.empty"
  shows "full_map ms = short_map [of_int (int p)] (ms p)"
proof
  fix key
  have p: "unat (of_int (int p) :: byte) = p"
    using assms(1) by (simp add: unat_of_nat)
  show "full_map ms key = short_map [of_int (int p)] (ms p) key"
  proof (cases key)
    case (Cons x xs)
    then show ?thesis
      using assms p by (cases "unat x < 17"; cases "unat x = p") (auto simp: short_map_Cons word_unat_eq_iff)
  qed (simp add: short_map_def)
qed

lemma reduceFull_holds:
  assumes cs: "length cs = 17" "\<forall>i < 17. ks i \<in> child_kinds i \<and> holds db (ks i) (cs ! i) (ms i)"
    and some: "i < 17" "ks i \<noteq> KNil"
  shows "\<exists>n' kd'. reduceFull db gen path cs = Ret (Inr (True, n')) \<and> kd' \<in> {KFull, KShort} \<and> \<not> is_hash n' \<and> holds db kd' n' (full_map ms)"
proof (cases rule: onlyChild_cases [of 0 cs])
  case none
  then have "cs ! i = NilNode"
    using some(1) cs(1) by simp
  then show ?thesis
    using cs(2) some holds_loaded(3) [of db "ks i" NilNode "ms i"] by auto
next
  case (many p q)
  have "ks p \<noteq> KNil" "ks q \<noteq> KNil"
    using many cs holds_KNil by auto
  then have "holds db KFull (FullNode cs (newFlag gen)) (full_map ms)"
    using many(2-4) cs(1) by (intro holds_full [OF cs, of p q]) simp_all
  then show ?thesis
    using many(1) by (auto simp: reduceFull_def Let_def)
next
  case (one p)
  have p: "p < 17" "ks p \<in> child_kinds p" "holds db (ks p) (cs ! p) (ms p)" "ks p \<noteq> KNil"
    using one cs holds_KNil by auto
  have "ms l = Map.empty" if "l < 17" "l \<noteq> p" for l
    using that one(4) cs holds_loaded(3) [of db "ks l" NilNode "ms l"] holds_KNil [of db NilNode "ms l"] by auto
  let ?x = "of_int (int p) :: byte"
  have fm: "full_map ms = short_map [?x] (ms p)"
    by (rule full_map_single [OF p(1)]) fact
  have x: "unat ?x = p"
    using p(1) by (simp add: unat_of_nat)
  show ?thesis
  proof (cases "p = 16")
    case True
    then have "ks p = KVal"
      using p(2,4) by (auto simp: child_kinds_def)
    moreover have "short_key [?x] KVal"
      using True by (simp add: short_key_def hexkey_Cons)
    ultimately have "holds db KShort (ShortNode [?x] (cs ! p) (newFlag gen)) (full_map ms)"
      unfolding fm using p(3) by (intro holds_short) auto
    then show ?thesis
      using one(1) True by (auto simp: reduceFull_def Let_def)
  next
    case False
    then have x16: "?x < 16"
      using p(1) x by (simp add: word_less_nat_alt)
    obtain cn where cn: "trie_resolve db gen (cs ! p) path = Ret (Inr cn)" "\<not> is_hash cn" "holds db (ks p) cn (ms p)"
      using trie_resolve_holds [OF p(3)] by blast
    show ?thesis
    proof (cases "ks p = KShort")
      case True
      then obtain k v fl where short: "cn = ShortNode k v fl"
        using holds_loaded(1) [OF cn(3,2)] by blast
      then obtain kd m' where "holds db kd v m'" "short_key k kd" "ms p = short_map k m'"
        using cn(3) by (auto elim: holds_shortE)
      moreover from this have "short_key (?x # k) kd"
        using x16 by (auto simp: short_key_def hexkey_Cons)
      ultimately have "holds db KShort (ShortNode (?x # k) v (newFlag gen)) (full_map ms)"
        unfolding fm using holds_short [of db kd v m' "?x # k"] short_map_append [of "[?x]" k m'] by simp
      then show ?thesis
        using one(1) False cn(1) short by (auto simp: reduceFull_def Let_def)
    next
      case kf: False
      then have "ks p = KFull"
        using p(2,4) False by (auto simp: child_kinds_def)
      then have "holds db KShort (ShortNode [?x] (cs ! p) (newFlag gen)) (full_map ms)"
        unfolding fm using p(3) x16 by (intro holds_short) (auto simp: short_key_def)
      moreover have "\<forall>k v fl. cn \<noteq> ShortNode k v fl"
        using kf holds_loaded(1) [OF cn(3,2)] by blast
      ultimately show ?thesis
        using one(1) False cn(1) by (cases cn) (auto simp: reduceFull_def Let_def)
    qed
  qed
qed

lemma prefixLen_short:
  assumes "short_key k kd" "hexkey key"
  obtains (leaves) "prefixLen key k < length k" "take (length k) key \<noteq> k"
    | (stays) r where "key = k @ r" "prefixLen key k = length k" "fits kd r" "length r < length key"
proof -
  obtain p a b where split: "key = p @ a" "k = p @ b" "prefixLen key k = length p" "a = [] \<or> b = [] \<or> hd a \<noteq> hd b"
    using prefixLen_split [of key k] .
  show ?thesis
  proof (cases "b = []")
    case True
    then show ?thesis
      using stays [of a] split fits_short [OF assms(1), of a] assms(2) by simp
  next
    case False
    have "take (length k) key \<noteq> k"
    proof
      assume "take (length k) key = k"
      then have "take (length b) a = b"
        using split(1,2) by simp
      then show False
        using split(4) False by (cases a; cases b) auto
    qed
    then show ?thesis
      using leaves split False by simp
  qed
qed

lemma delete_short:
  assumes n: "holds db kd n m" "short_key k kd" and key: "hexkey key"
    and del: "\<And>r. key = k @ r \<Longrightarrow> fits kd r \<Longrightarrow> length r < length key \<Longrightarrow> deletes db kd m r (trie_delete f db gen n (path @ k) r)"
  shows "deletes db KShort (short_map k m) key (trie_delete (Suc f) db gen (ShortNode k n fl) path key)"
proof (cases rule: prefixLen_short [OF n(2) key])
  case 1
  then show ?thesis
    using holds_short [OF n] by (intro deletesI_clean [of _ "ShortNode k n fl"]) (simp_all add: Let_def)
next
  case (2 r)
  have upd: "(short_map k m)(key := None) = short_map k (m(r := None))"
    using 2(1) by (simp add: short_map_del)
  show ?thesis
  proof (cases "r = []")
    case True
    then have "kd = KVal"
      using 2(3) by (auto simp: fits_def split: if_splits)
    then have "short_map k (m(r := None)) = Map.empty"
      using n(1) True holds_KVal by (auto simp: short_map_def fun_eq_iff)
    then show ?thesis
      using 2 True holds_nil upd by (intro deletesI [of _ NilNode KNil]) (simp_all add: Let_def kinds_after_delete_def)
  next
    case False
    then have kd: "kd = KFull"
      using 2(3) n(2) by (auto simp: fits_def short_key_def)
    obtain d n' kd' where i: "trie_delete f db gen n (path @ k) r = Ret (Inr (d, n'))" "holds db kd' n' (m(r := None))"
      "if d then kd' \<in> kinds_after_delete kd \<and> \<not> is_hash n' else kd' = kd \<and> m r = None"
      using del [OF 2(1,3,4)] by (auto simp: deletes_def)
    have run: "trie_delete (Suc f) db gen (ShortNode k n fl) path key =
        (if \<not> d then Ret (Inr (False, ShortNode k n fl)) else Ret (Inr (True,
           case n' of ShortNode k2 v2 fl2 \<Rightarrow> ShortNode (k @ k2) v2 (newFlag gen) | _ \<Rightarrow> ShortNode k n' (newFlag gen))))"
      using i(1) 2 False by (simp add: Let_def)
    show ?thesis
    proof (cases d)
      case False
      then show ?thesis
        using i(3) run holds_short [OF n] 2(1) by (intro deletesI_clean [of _ "ShortNode k n fl"]) simp_all
    next
      case True
      then have k': "kd' \<in> {KFull, KShort}" "\<not> is_hash n'"
        using i(3) kd by (simp_all add: kinds_after_delete_def)
      show ?thesis
      proof (cases "kd' = KShort")
        case True
        then obtain k2 v2 fl2 where s: "n' = ShortNode k2 v2 fl2"
          using holds_loaded(1) [OF i(2) k'(2)] by blast
        then obtain kd2 m2 where s2: "holds db kd2 v2 m2" "short_key k2 kd2" "m(r := None) = short_map k2 m2"
          using i(2) by (auto elim: holds_shortE)
        have "short_key (k @ k2) kd2"
          using s2(2) n(2) kd by (auto simp: short_key_def hexkey_append)
        from holds_short [OF s2(1) this, of "newFlag gen"] show ?thesis
          using run \<open>d\<close> s upd s2(3) by (intro deletesI [of _ "ShortNode (k @ k2) v2 (newFlag gen)" KShort])
            (simp_all add: kinds_after_delete_def short_map_append)
      next
        case False
        then have "kd' = KFull" "\<forall>k2 v2 fl2. n' \<noteq> ShortNode k2 v2 fl2"
          using k' holds_loaded(1) [OF i(2) k'(2)] by auto
        then show ?thesis
          using run \<open>d\<close> upd holds_short [OF i(2), of k "newFlag gen"] n(2) kd
          by (intro deletesI [of _ "ShortNode k n' (newFlag gen)" KShort]) (auto simp: kinds_after_delete_def split: node.split)
      qed
    qed
  qed
qed

lemma kinds_child_delete: "kd \<in> child_kinds i \<Longrightarrow> kd' \<in> kinds_after_delete kd \<Longrightarrow> kd' \<in> child_kinds i"
  by (auto simp: child_kinds_def kinds_after_delete_def split: if_splits)

lemma delete_full:
  assumes cs: "length cs = 17" "\<forall>i < 17. ks i \<in> child_kinds i \<and> holds db (ks i) (cs ! i) (ms i)"
    and ij: "i < 17" "j < 17" "i \<noteq> j" "ks i \<noteq> KNil" "ks j \<noteq> KNil" and key: "hexkey (x # xs)"
    and del: "deletes db (ks (unat x)) (ms (unat x)) xs (trie_delete f db gen (cs ! unat x) (path @ [x]) xs)"
  shows "deletes db KFull (full_map ms) (x # xs) (trie_delete (Suc f) db gen (FullNode cs fl) path (x # xs))"
proof -
  let ?x = "unat x"
  have x: "?x < 17"
    using hexkey_idx [OF key] .
  obtain d n' kd' where i: "trie_delete f db gen (cs ! ?x) (path @ [x]) xs = Ret (Inr (d, n'))" "holds db kd' n' ((ms ?x)(xs := None))"
    "if d then kd' \<in> kinds_after_delete (ks ?x) \<and> \<not> is_hash n' else kd' = ks ?x \<and> ms ?x xs = None"
    using del by (auto simp: deletes_def)
  have run: "trie_delete (Suc f) db gen (FullNode cs fl) path (x # xs) =
      (if \<not> d then Ret (Inr (False, FullNode cs fl)) else reduceFull db gen path (cs[?x := n']))"
    using i(1) getChild_eq [OF key cs(1)] x cs(1) by (simp add: setChild_def)
  show ?thesis
  proof (cases d)
    case False
    then show ?thesis
      using i(3) run holds_full [OF cs ij] x by (intro deletesI_clean [of _ "FullNode cs fl"]) simp_all
  next
    case True
    then have kd': "kd' \<in> child_kinds ?x"
      using i(3) cs(2) x kinds_child_delete by auto
    obtain l where l: "l < 17" "l \<noteq> ?x" "ks l \<noteq> KNil"
      using ij by metis
    have "\<exists>n2 k2. reduceFull db gen path (cs[?x := n']) = Ret (Inr (True, n2)) \<and> k2 \<in> {KFull, KShort} \<and> \<not> is_hash n2 \<and>
        holds db k2 n2 (full_map (ms(?x := (ms ?x)(xs := None))))"
      by (rule reduceFull_holds [where ks = "ks(?x := kd')" and i = l, OF _ full_update [OF cs x kd' i(2)]]) (use cs(1) l in auto)
    then obtain n2 k2 where "reduceFull db gen path (cs[?x := n']) = Ret (Inr (True, n2))" "k2 \<in> {KFull, KShort}" "\<not> is_hash n2"
      "holds db k2 n2 (full_map (ms(?x := (ms ?x)(xs := None))))"
      by blast
    then show ?thesis
      using True run x by (intro deletesI [of _ n2 k2]) (auto simp: kinds_after_delete_def full_map_upd)
  qed
qed

lemma trie_delete_nil: "0 < f \<Longrightarrow> trie_delete f db gen NilNode path key = Ret (Inr (False, NilNode))"
  by (cases f) simp_all

lemma trie_delete_holds:
  assumes "holds db kd n m"
  shows "fits kd key \<Longrightarrow> fuel_for n key \<le> fuel \<Longrightarrow> deletes db kd m key (trie_delete fuel db gen n path key)"
  using assms
proof (induction arbitrary: key fuel path)
  case holds_nil
  then show ?case
    using trie_delete_nil [of fuel] holds.holds_nil by (intro deletesI_clean [of _ NilNode]) (simp_all add: fuel_for_def)
next
  case (holds_value v)
  then obtain f where "fuel = Suc f" "key = []"
    by (cases fuel) (auto simp: fits_def fuel_for_def)
  then show ?case
    by (intro deletesI [of _ NilNode KNil]) (auto simp: kinds_after_delete_def holds_KNil fun_eq_iff)
next
  case (holds_short kd n m k fl)
  obtain f where f: "fuel = Suc f" "2 * length key \<le> f"
    using holds_short.prems by (cases fuel) (auto simp: fuel_for_def)
  have key: "hexkey key"
    using holds_short.prems(1) by (simp add: fits_def)
  show ?case
    unfolding f(1)
  proof (rule delete_short [OF holds_short.hyps key])
    fix r
    assume "fits kd r" "length r < length key"
    then show "deletes db kd m r (trie_delete f db gen n (path @ k) r)"
      using holds_short.IH fuel_le [of n r] f(2) by simp
  qed
next
  case (holds_full cs ks ms i j fl)
  obtain f x xs where f: "fuel = Suc f" "2 * length key \<le> f" and key: "key = x # xs" "hexkey (x # xs)"
    using holds_full.prems by (cases fuel; cases key) (auto simp: fuel_for_def fits_def)
  have x: "unat x < 17"
    using hexkey_idx [OF key(2)] .
  have all: "\<forall>i < 17. ks i \<in> child_kinds i \<and> holds db (ks i) (cs ! i) (ms i)"
    using holds_full.IH by blast
  have kx: "ks (unat x) \<in> child_kinds (unat x)" "holds db (ks (unat x)) (cs ! unat x) (ms (unat x))"
    using all x by auto
  show ?case
    unfolding key(1) f(1)
  proof (rule delete_full [OF holds_full.hyps(1) all holds_full.hyps(2-6) key(2)])
    show "deletes db (ks (unat x)) (ms (unat x)) xs (trie_delete f db gen (cs ! unat x) (path @ [x]) xs)"
    proof (cases "ks (unat x) = KNil")
      case True
      then have "cs ! unat x = NilNode" "ms (unat x) = Map.empty"
        using kx(2) holds_KNil by auto
      then show ?thesis
        using True trie_delete_nil [of f] f(2) key(1) holds_nil by (intro deletesI_clean [of _ NilNode]) simp_all
    next
      case False
      have "fuel_for (cs ! unat x) xs \<le> f"
        using fuel_le [of "cs ! unat x" xs] f(2) key(1) by simp
      then show ?thesis
        using holds_full.IH x fits_full [OF key(2) kx(1) False] by blast
    qed
  qed
next
  case (holds_hash kd h m)
  obtain f where f: "fuel = Suc f" "2 * length key + 1 \<le> f"
    using holds_hash.prems by (cases fuel) (auto simp: fuel_for_def)
  obtain n where n: "resolveHash db gen h path = Ret (Inr n)" "\<not> is_hash n" "holds db kd n m"
    "\<forall>key fuel path. fits kd key \<longrightarrow> fuel_for n key \<le> fuel \<longrightarrow> deletes db kd m key (trie_delete fuel db gen n path key)"
    using holds_hash.IH by metis
  then have "deletes db kd m key (trie_delete f db gen n path key)"
    using holds_hash.prems(1) f(2) by (simp add: fuel_for_def)
  then obtain d n' kd' where i: "trie_delete f db gen n path key = Ret (Inr (d, n'))" "holds db kd' n' (m(key := None))"
    "if d then kd' \<in> kinds_after_delete kd \<and> \<not> is_hash n' else kd' = kd \<and> m key = None"
    by (auto simp: deletes_def)
  have run: "trie_delete fuel db gen (HashNode h) path key = Ret (Inr (d, if d then n' else n))"
    using n(1) f(1) i(1) by simp
  show ?case
  proof (cases d)
    case True
    then show ?thesis
      using i run by (intro deletesI [of _ n' kd']) simp_all
  next
    case False
    then show ?thesis
      using n(3) i(3) run by (intro deletesI_clean [of _ n]) simp_all
  qed
qed

section \<open>Tries as stores of keys and values\<close>

text \<open>The trie stores the map \<open>M\<close> from byte strings to values.\<close>

definition trie_is :: "Database \<Rightarrow> Trie \<Rightarrow> (bytes \<rightharpoonup> bytes) \<Rightarrow> bool" where
  "trie_is db t M \<longleftrightarrow> (\<exists>kd m. kd \<noteq> KVal \<and> holds db kd (tr_root t) m \<and> M = (\<lambda>key. m (keybytesToHex key)))"

definition put :: "(bytes \<rightharpoonup> bytes) \<Rightarrow> bytes \<times> bytes \<Rightarrow> bytes \<rightharpoonup> bytes" where
  "put M kv = M(fst kv := if snd kv = [] then None else Some (snd kv))"

text \<open>The contract of a store: what a lookup returns, and what an update changes.\<close>

locale kv_store =
  fixes is_map :: "'s \<Rightarrow> (bytes \<rightharpoonup> bytes) \<Rightarrow> bool"
    and get :: "'s \<Rightarrow> bytes \<Rightarrow> (bytes option \<times> 's) tr"
    and update :: "'s \<Rightarrow> bytes \<Rightarrow> bytes \<Rightarrow> 's tr"
  assumes get_map: "is_map t M \<Longrightarrow> \<exists>t'. get t key = Ret (Inr (M key, t')) \<and> is_map t' M"
    and update_map: "is_map t M \<Longrightarrow> \<exists>t'. update t key v = Ret (Inr t') \<and> is_map t' (put M (key, v))"
begin

lemma updates_map:
  assumes "is_map t M"
  shows "\<exists>t'. foldl (\<lambda>r (k, v). tr_bind r (\<lambda>t. update t k v)) (Ret (Inr t)) kvs = Ret (Inr t') \<and> is_map t' (foldl put M kvs)"
  using assms
proof (induction kvs arbitrary: t M)
  case (Cons kv kvs)
  obtain k v where kv: "kv = (k, v)"
    by (cases kv)
  obtain t1 where t1: "update t k v = Ret (Inr t1)" "is_map t1 (put M kv)"
    using update_map [OF Cons.prems, of k v] kv by blast
  then show ?case
    using Cons.IH [OF t1(2)] kv by simp
qed auto

lemma get_after_updates:
  assumes "is_map t M" "foldl (\<lambda>r (k, v). tr_bind r (\<lambda>t. update t k v)) (Ret (Inr t)) kvs = Ret (Inr t')"
  shows "\<exists>t''. get t' key = Ret (Inr (foldl put M kvs key, t''))"
  using updates_map [OF assms(1), of kvs] assms(2) get_map by force

end

lemma keybytesToHex_inj: "keybytesToHex a = keybytesToHex b \<longleftrightarrow> a = b"
proof
  assume "keybytesToHex a = keybytesToHex b"
  then have "nibbles a = nibbles b"
    by (simp add: keybytesToHex_def)
  then show "a = b"
    by (metis decodeNibbles_nibbles go.inject length_nibbles mult_cancel1 zero_neq_numeral)
qed simp

lemma Trie_TryGet_is:
  assumes "trie_is db t M"
  shows "\<exists>t'. Trie_TryGet db t key = Ret (Inr (M key, t')) \<and> trie_is db t' M"
proof -
  obtain kd m where m: "kd \<noteq> KVal" "holds db kd (tr_root t) m" "M = (\<lambda>key. m (keybytesToHex key))"
    using assms by (auto simp: trie_is_def)
  let ?k = "keybytesToHex key"
  have "fits kd ?k" "fuel_for (tr_root t) ?k \<le> key_fuel ?k"
    using m(1) fuel_le by (simp_all add: fits_def key_fuel_def)
  then obtain n' r where "tryGet (key_fuel ?k) db (tr_cachegen t) (tr_root t) [] ?k = Ret (Inr (m ?k, n', r))" "holds db kd n' m"
    using tryGet_holds [OF m(2)] by blast
  then show ?thesis
    using m assms by (auto simp: Trie_TryGet_def Let_def trie_is_def)
qed

lemma Trie_TryUpdate_is:
  assumes "trie_is db t M"
  shows "\<exists>t'. Trie_TryUpdate db t key v = Ret (Inr t') \<and> trie_is db t' (put M (key, v))"
proof -
  obtain kd m where m: "kd \<noteq> KVal" "holds db kd (tr_root t) m" "M = (\<lambda>key. m (keybytesToHex key))"
    using assms by (auto simp: trie_is_def)
  let ?k = "keybytesToHex key"
  have fits: "fits kd ?k" "fuel_for (tr_root t) ?k \<le> key_fuel ?k"
    using m(1) fuel_le by (simp_all add: fits_def key_fuel_def)
  have *: "trie_is db (t\<lparr>tr_root := n'\<rparr>) (M(key := y))" if "holds db kd' n' (m(?k := y))" "kd' \<noteq> KVal" for kd' n' y
    using that m(3) unfolding trie_is_def by (intro exI [of _ kd'] exI [of _ "m(?k := y)"]) (auto simp: keybytesToHex_inj fun_eq_iff)
  show ?thesis
  proof (cases "v = []")
    case True
    obtain d n' kd' where "trie_delete (key_fuel ?k) db (tr_cachegen t) (tr_root t) [] ?k = Ret (Inr (d, n'))"
      "holds db kd' n' (m(?k := None))" "if d then kd' \<in> kinds_after_delete kd \<and> \<not> is_hash n' else kd' = kd \<and> m ?k = None"
      using trie_delete_holds [OF m(2) fits] unfolding deletes_def by blast
    moreover from this have "kd' \<noteq> KVal"
      using m(1) by (auto simp: kinds_after_delete_def split: if_splits kind.splits)
    ultimately show ?thesis
      using * [of kd' n' None] True by (simp add: Trie_TryUpdate_def Let_def put_def)
  next
    case False
    obtain d n' kd' where "trie_insert (key_fuel ?k) db (tr_cachegen t) (tr_root t) [] ?k (ValueNode v) = Ret (Inr (d, n'))"
      "holds db kd' n' (m(?k \<mapsto> v))" "kd' \<in> kinds_after_insert kd"
      using trie_insert_holds [OF m(2) False fits] unfolding inserts_def by blast
    moreover from this have "kd' \<noteq> KVal"
      using m(1) by (auto simp: kinds_after_insert_def split: kind.splits)
    ultimately show ?thesis
      using * [of kd' n' "Some v"] False by (simp add: Trie_TryUpdate_def Let_def put_def)
  qed
qed

interpretation trie_kv: kv_store "trie_is db" "Trie_TryGet db" "Trie_TryUpdate db" for db
  by unfold_locales (use Trie_TryGet_is Trie_TryUpdate_is in blast)+

text \<open>\<open>Trie_TryDelete\<close> is an update with the empty value.\<close>

lemma Trie_TryDelete_eq: "Trie_TryDelete db t key = Trie_TryUpdate db t key []"
  by (simp add: Trie_TryDelete_def Trie_TryUpdate_def)

lemma trie_is_empty: "tr_root t = NilNode \<Longrightarrow> trie_is db t Map.empty"
  using holds_nil by (auto simp: trie_is_def)

text \<open>
  C9: The trie implements a map. From a trie in canonical form that stores \<open>M\<close>, with parts of it
  possibly not loaded, any sequence of updates (an empty value deletes) succeeds: it neither panics
  nor misses a node nor runs on. Afterwards the trie is in canonical form, and a lookup of any key
  returns the value last written to it, and what \<open>M\<close> has for a key that was not written.
\<close>

theorem trie_implements_map:
  assumes "trie_is db t M"
  shows "\<exists>t'. foldl (\<lambda>r (k, v). tr_bind r (\<lambda>t. Trie_TryUpdate db t k v)) (Ret (Inr t)) kvs = Ret (Inr t') \<and>
    trie_is db t' (foldl put M kvs) \<and> (\<exists>t''. Trie_TryGet db t' key = Ret (Inr (foldl put M kvs key, t'')))"
  using trie_kv.updates_map [OF assms, of kvs] trie_kv.get_after_updates [OF assms, of kvs _ key] by blast

theorem trie_implements_map_witness:
  "\<exists>t' t''. foldl (\<lambda>r (k, v). tr_bind r (\<lambda>t. Trie_TryUpdate (NewDatabase (\<lambda>_. None)) t k v))
      (Ret (Inr \<lparr>tr_root = NilNode, tr_originalRoot = 0, tr_cachegen = 0, tr_cachelimit = 0\<rparr>))
      [([1, 2], [7]), ([1, 3], [8]), ([1, 2], [])] = Ret (Inr t') \<and>
    Trie_TryGet (NewDatabase (\<lambda>_. None)) t' [1, 3] = Ret (Inr (Some [8], t''))"
proof -
  let ?t = "\<lparr>tr_root = NilNode, tr_originalRoot = 0, tr_cachegen = 0, tr_cachelimit = 0\<rparr>"
  have "trie_is (NewDatabase (\<lambda>_. None)) ?t Map.empty"
    by (rule trie_is_empty) simp
  from trie_implements_map [OF this, of "[([1, 2], [7]), ([1, 3], [8]), ([1, 2], [])]" "[1, 3]"] show ?thesis
    by (auto simp: put_def)
qed

end
