(* ===== verification/Types_Block.thy ===== *)
theory Types_Block
  imports Aquahash_Difficulty RLP_Encode State_DB
begin

text \<open>
  Hashes of headers, transactions and blocks (\<open>core/types/block.go\<close>, \<open>core/types/transaction.go\<close>,
  \<open>crypto/crypto.go\<close>) and the bloom filter of logs (\<open>core/types/bloom9.go\<close>).

  The hash functions are parameters: Keccak-256, and Argon2id with its amount of memory. A header
  whose version is not set cannot be hashed: \<open>Hash\<close> panics.
\<close>

section \<open>Hashing\<close>

record Hashes =
  hs_keccak :: "bytes \<Rightarrow> hash"
  hs_argon2id :: "nat \<Rightarrow> bytes \<Rightarrow> hash"

definition VersionHash :: "Hashes \<Rightarrow> byte \<Rightarrow> bytes \<Rightarrow> hash go" where
  "VersionHash hs v data =
     (if v = 1 then Ret (hs_keccak hs data)
      else if v = 2 then Ret (hs_argon2id hs 1 data)
      else if v = 3 then Ret (hs_argon2id hs 16 data)
      else if v = 4 then Ret (hs_argon2id hs 32 data)
      else Panic)"

text \<open>\<open>rlpHash\<close> ignores the error of the encoder, which then has written nothing.\<close>

definition rlpHash :: "Hashes \<Rightarrow> byte \<Rightarrow> rlpval \<Rightarrow> hash go" where
  "rlpHash hs version x =
     (let data = (case Encode x of Inl e \<Rightarrow> [] | Inr b \<Rightarrow> b)
      in if version = 0 \<or> version = 1 then Ret (hs_keccak hs data) else VersionHash hs version data)"

section \<open>Headers\<close>

definition word_bytes :: "nat \<Rightarrow> int \<Rightarrow> bytes" where
  "word_bytes n x = LeftPadBytes (big_Bytes x) n"

definition header_fields :: "Header \<Rightarrow> rlpval list" where
  "header_fields h =
     [VBytes (Hash_Bytes (ParentHash h)), VBytes (Hash_Bytes (UncleHash h)), VBytes (Address_Bytes (Coinbase h)),
      VBytes (Hash_Bytes (Root h)), VBytes (Hash_Bytes (TxHash h)), VBytes (Hash_Bytes (ReceiptHash h)),
      VBytes (word_bytes 256 (uint (Bloom h))), VBigInt (Some (Difficulty h)), VBigInt (Some (Number h)),
      VUint (GasLimit h), VUint (GasUsed h), VBigInt (Some (Time h)), VBytes (Extra h)]"

definition header_rlp :: "Header \<Rightarrow> rlpval" where
  "header_rlp h = VStruct (header_fields h @ [VBytes (Hash_Bytes (MixDigest h)), VBytes (word_bytes 8 (uint (Nonce h)))])"

definition Header_Hash :: "Hashes \<Rightarrow> Header \<Rightarrow> hash go" where
  "Header_Hash hs h = (if Version h = 0 then Panic else rlpHash hs (Version h) (header_rlp h))"

definition Header_SetVersion :: "Hashes \<Rightarrow> byte \<Rightarrow> Header \<Rightarrow> (hash \<times> Header) go" where
  "Header_SetVersion hs version h =
     (let h = h\<lparr>Version := version\<rparr> in go_bind (Header_Hash hs h) (\<lambda>x. Ret (x, h)))"

definition HashNoNonce :: "Hashes \<Rightarrow> Header \<Rightarrow> hash go" where
  "HashNoNonce hs h = rlpHash hs 1 (VSlice False (header_fields h))"

definition CalcUncleHash :: "Hashes \<Rightarrow> Header list \<Rightarrow> hash go" where
  "CalcUncleHash hs uncles = rlpHash hs 1 (VSlice False (map header_rlp uncles))"

section \<open>Transactions\<close>

record txdata =
  AccountNonce :: u64
  Price :: int
  tx_GasLimit :: u64
  Recipient :: "address option"
  Amount :: int
  Payload :: bytes
  tx_V :: int
  tx_R :: int
  tx_S :: int

definition tx_rlp :: "txdata \<Rightarrow> rlpval" where
  "tx_rlp tx = VStruct
     [VUint (AccountNonce tx), VBigInt (Some (Price tx)), VUint (tx_GasLimit tx),
      VBytes (case Recipient tx of None \<Rightarrow> [] | Some a \<Rightarrow> Address_Bytes a), VBigInt (Some (Amount tx)), VBytes (Payload tx),
      VBigInt (Some (tx_V tx)), VBigInt (Some (tx_R tx)), VBigInt (Some (tx_S tx))]"

definition tx_Hash :: "Hashes \<Rightarrow> txdata \<Rightarrow> hash go" where
  "tx_Hash hs tx = rlpHash hs 1 (tx_rlp tx)"

definition tx_Cost :: "txdata \<Rightarrow> int" where
  "tx_Cost tx = Price tx * uint (tx_GasLimit tx) + Amount tx"

section \<open>Blocks\<close>

record Block =
  block_header :: Header
  block_uncles :: "Header list"
  block_transactions :: "txdata list"
  block_hash :: "hash option"

definition Block_Hash :: "Hashes \<Rightarrow> Block \<Rightarrow> (hash \<times> Block) go" where
  "Block_Hash hs b =
     (case block_hash b of
        Some h \<Rightarrow> Ret (h, b)
      | None \<Rightarrow> go_bind (Header_Hash hs (block_header b)) (\<lambda>v. Ret (v, b\<lparr>block_hash := Some v\<rparr>)))"

text \<open>\<open>SetVersion\<close> panics when the version is already the given one.\<close>

definition Block_SetVersion :: "Hashes \<Rightarrow> byte \<Rightarrow> Block \<Rightarrow> (hash \<times> Block) go" where
  "Block_SetVersion hs version b =
     (if Version (block_header b) = version then Panic
      else
        let b = b\<lparr>block_uncles := map (\<lambda>u. u\<lparr>Version := version\<rparr>) (block_uncles b),
                  block_header := (block_header b)\<lparr>Version := version\<rparr>\<rparr>
        in go_bind (Header_Hash hs (block_header b)) (\<lambda>v. Ret (v, b\<lparr>block_hash := Some v\<rparr>)))"

definition WithSeal :: "Block \<Rightarrow> Header \<Rightarrow> Block" where
  "WithSeal b header = b\<lparr>block_header := header, block_hash := None\<rparr>"

definition WithBody :: "Block \<Rightarrow> txdata list \<Rightarrow> Header list \<Rightarrow> Block" where
  "WithBody b transactions uncles = b\<lparr>block_transactions := transactions, block_uncles := uncles, block_hash := None\<rparr>"

definition NewBlockWithHeader :: "Header \<Rightarrow> Block" where
  "NewBlockWithHeader header = \<lparr>block_header = header, block_uncles = [], block_transactions = [], block_hash = None\<rparr>"

section \<open>Bloom filters\<close>

text \<open>A filter of 256 bytes, as the integer of these bytes.\<close>

type_synonym Bloom = "2048 word"

text \<open>\<open>SetBytes\<close> writes the last bytes and leaves the ones before them.\<close>

definition Bloom_SetBytes :: "bytes \<Rightarrow> Bloom \<Rightarrow> Bloom go" where
  "Bloom_SetBytes d b =
     (if 256 < length d then Panic
      else Ret (word_of_int (uint b div 256 ^ length d * 256 ^ length d + SetBytes d)))"

definition BytesToBloom :: "bytes \<Rightarrow> Bloom go" where
  "BytesToBloom b = Bloom_SetBytes b 0"

definition bloomBit :: "byte \<Rightarrow> byte \<Rightarrow> nat" where
  "bloomBit hi lo = (unat lo + 256 * unat hi) mod 2048"

definition bloom9 :: "Hashes \<Rightarrow> bytes \<Rightarrow> int" where
  "bloom9 hs b =
     (let b = Hash_Bytes (hs_keccak hs b) in
      foldl (\<lambda>r i. or r (push_bit (bloomBit (b ! i) (b ! (i + 1))) 1)) 0 [0, 2, 4])"

definition Bloom_Add :: "Hashes \<Rightarrow> int \<Rightarrow> Bloom \<Rightarrow> Bloom go" where
  "Bloom_Add hs d b = Bloom_SetBytes (big_Bytes (or (uint b) (bloom9 hs (big_Bytes d)))) b"

definition BloomLookup :: "Hashes \<Rightarrow> Bloom \<Rightarrow> bytes \<Rightarrow> bool" where
  "BloomLookup hs bin topic = (let cmp = bloom9 hs topic in and (uint bin) cmp = cmp)"

definition Bloom_Test :: "Hashes \<Rightarrow> Bloom \<Rightarrow> int \<Rightarrow> bool" where
  "Bloom_Test hs b test = BloomLookup hs b (big_Bytes test)"

definition TestBytes :: "Hashes \<Rightarrow> Bloom \<Rightarrow> bytes \<Rightarrow> bool" where
  "TestBytes hs b test = Bloom_Test hs b (SetBytes test)"

definition LogsBloom :: "Hashes \<Rightarrow> Log list \<Rightarrow> int" where
  "LogsBloom hs logs =
     foldl (\<lambda>bin log. foldl (\<lambda>bin t. or bin (bloom9 hs (Hash_Bytes t))) (or bin (bloom9 hs (Address_Bytes (log_Address log)))) (log_Topics log))
       0 logs"

section \<open>Receipts\<close>

record Receipt =
  rc_PostState :: bytes
  rc_Status :: nat
  rc_CumulativeGasUsed :: u64
  rc_Bloom :: Bloom
  rc_Logs :: "Log list"
  rc_TxHash :: hash
  rc_ContractAddress :: address
  rc_GasUsed :: u64

definition NewReceipt :: "bytes \<Rightarrow> bool \<Rightarrow> u64 \<Rightarrow> Receipt" where
  "NewReceipt root failed cumulativeGasUsed =
     \<lparr>rc_PostState = root, rc_Status = (if failed then 0 else 1), rc_CumulativeGasUsed = cumulativeGasUsed, rc_Bloom = 0, rc_Logs = [],
      rc_TxHash = 0, rc_ContractAddress = 0, rc_GasUsed = 0\<rparr>"

definition statusEncoding :: "Receipt \<Rightarrow> bytes" where
  "statusEncoding r = (if length (rc_PostState r) = 0 then if rc_Status r = 0 then [] else [1] else rc_PostState r)"

definition setStatus :: "bytes \<Rightarrow> Receipt \<Rightarrow> Receipt option" where
  "setStatus postStateOrStatus r =
     (if postStateOrStatus = [1] then Some (r\<lparr>rc_Status := 1\<rparr>)
      else if postStateOrStatus = [] then Some (r\<lparr>rc_Status := 0\<rparr>)
      else if length postStateOrStatus = 32 then Some (r\<lparr>rc_PostState := postStateOrStatus\<rparr>)
      else None)"

definition CreateBloom :: "Hashes \<Rightarrow> Receipt list \<Rightarrow> Bloom go" where
  "CreateBloom hs receipts = BytesToBloom (big_Bytes (foldl (\<lambda>bin r. or bin (LogsBloom hs (rc_Logs r))) 0 receipts))"

section \<open>Bloom filters have no false negatives\<close>

lemma bit_foldl_or: "bit (foldl (\<lambda>bin x. or bin (f x)) a xs) n \<longleftrightarrow> bit (a :: int) n \<or> (\<exists>x \<in> set xs. bit (f x) n)"
  by (induction xs arbitrary: a) (auto simp: bit_simps)

lemma bloom9_bits: "bit (bloom9 hs b) n \<Longrightarrow> n < 2048"
  by (auto simp: bloom9_def Let_def bit_simps bloomBit_def)

lemma bit_LogsBloom:
  "bit (LogsBloom hs logs) n \<longleftrightarrow>
     (\<exists>log \<in> set logs. bit (bloom9 hs (Address_Bytes (log_Address log))) n \<or> (\<exists>t \<in> set (log_Topics log). bit (bloom9 hs (Hash_Bytes t)) n))"
proof -
  have "bit (foldl (\<lambda>bin log. foldl (\<lambda>bin t. or bin (bloom9 hs (Hash_Bytes t))) (or bin (bloom9 hs (Address_Bytes (log_Address log)))) (log_Topics log)) a logs) n \<longleftrightarrow>
    bit a n \<or> (\<exists>log \<in> set logs. bit (bloom9 hs (Address_Bytes (log_Address log))) n \<or> (\<exists>t \<in> set (log_Topics log). bit (bloom9 hs (Hash_Bytes t)) n))" for a
    by (induction logs arbitrary: a) (auto simp: bit_foldl_or bit_simps)
  from this [of 0] show ?thesis
    by (simp add: LogsBloom_def)
qed

lemma bloom_bounded:
  assumes "\<And>n. bit (x :: int) n \<Longrightarrow> n < 2048"
  shows "0 \<le> x \<and> x < 2 ^ 2048"
proof -
  have "take_bit 2048 x = x"
    by (rule bit_eqI) (use assms in \<open>auto simp: bit_simps\<close>)
  then show ?thesis
    by (metis take_bit_nonnegative take_bit_int_less_exp)
qed

lemma BytesToBloom_big:
  assumes "0 \<le> x" "x < 2 ^ 2048"
  shows "\<exists>b. BytesToBloom (big_Bytes x) = Ret b \<and> uint b = x"
proof -
  have "(2 :: int) ^ 2048 = 256 ^ 256"
    using power_mult [of "2 :: int" 8 256] by simp
  then have "length (big_Bytes x) \<le> 256"
    using assms length_big_Bytes_le [of x 256] by simp
  then show ?thesis
    using assms by (simp add: BytesToBloom_def Bloom_SetBytes_def uint_word_of_int_eq take_bit_int_eq_self)
qed

lemma BloomLookup_iff: "BloomLookup hs b topic \<longleftrightarrow> (\<forall>n. bit (bloom9 hs topic) n \<longrightarrow> bit (uint b) n)"
  by (auto simp: BloomLookup_def Let_def bit_eq_iff bit_simps)

text \<open>
  C14: The bloom filter of a block never hides a log. \<open>CreateBloom\<close> does not panic, and looking up the
  address or a topic of any log of any receipt in the filter it makes succeeds.
\<close>

theorem CreateBloom_no_false_negatives:
  "\<exists>b. CreateBloom hs receipts = Ret b \<and>
     (\<forall>r \<in> set receipts. \<forall>log \<in> set (rc_Logs r).
        BloomLookup hs b (Address_Bytes (log_Address log)) \<and> (\<forall>t \<in> set (log_Topics log). BloomLookup hs b (Hash_Bytes t)))"
proof -
  let ?x = "foldl (\<lambda>bin r. or bin (LogsBloom hs (rc_Logs r))) 0 receipts"
  have bits: "bit ?x n \<longleftrightarrow> (\<exists>r \<in> set receipts. bit (LogsBloom hs (rc_Logs r)) n)" for n
    by (simp add: bit_foldl_or)
  have "bit ?x n \<Longrightarrow> n < 2048" for n
    using bloom9_bits by (auto simp: bits bit_LogsBloom)
  then obtain b where "BytesToBloom (big_Bytes ?x) = Ret b" "uint b = ?x"
    using BytesToBloom_big bloom_bounded by blast
  then show ?thesis
    by (auto simp: CreateBloom_def BloomLookup_iff bits bit_LogsBloom)
qed

definition sample_hashes :: Hashes where
  "sample_hashes = \<lparr>hs_keccak = (\<lambda>bs. if length bs = 20 then 0 else - 1), hs_argon2id = (\<lambda>m bs. of_nat m)\<rparr>"

definition sample_log :: Log where
  "sample_log = \<lparr>log_Address = 5, log_Topics = [7, 9], log_Data = [], log_BlockNumber = 3, log_TxHash = 1, log_TxIndex = 0, log_BlockHash = 2,
     log_Index = 0, log_Removed = False\<rparr>"

theorem CreateBloom_no_false_negatives_witness:
  "\<exists>b. CreateBloom sample_hashes [(NewReceipt [] False 21000)\<lparr>rc_Logs := [sample_log]\<rparr>] = Ret b \<and>
     BloomLookup sample_hashes b (Address_Bytes 5) \<and> BloomLookup sample_hashes b (Hash_Bytes 9)"
  using CreateBloom_no_false_negatives [of sample_hashes "[(NewReceipt [] False 21000)\<lparr>rc_Logs := [sample_log]\<rparr>]"]
  by (auto simp: sample_log_def)

text \<open>
  \<open>TestBytes\<close> goes through an integer and loses the leading zero bytes of its argument: it misses an
  address that starts with a zero byte although the filter contains it.
\<close>

lemma be_bytes_0: "be_bytes n 0 = replicate n 0"
  by (induction n) (simp_all flip: replicate_append_same)

lemma sample_bloom9: "length b = 20 \<Longrightarrow> bloom9 sample_hashes b = 1" "length b \<noteq> 20 \<Longrightarrow> bit (bloom9 sample_hashes b) 2047"
proof -
  show "length b = 20 \<Longrightarrow> bloom9 sample_hashes b = 1"
    by (simp add: bloom9_def sample_hashes_def Hash_Bytes_def be_bytes_0 bloomBit_def)
  have "be_bytes n (256 ^ n - 1) = replicate n (- 1)" for n
  proof (induction n)
    case (Suc n)
    have "(256 :: byte) = 0"
      by simp
    then have "((256 :: int) ^ Suc n - 1) div 256 = 256 ^ n - 1" "word_of_int (256 ^ Suc n - 1) = (- 1 :: byte)"
      by (simp_all only: power_Suc of_int_diff of_int_mult of_int_numeral mult_zero_left of_int_1 diff_0)
    then show ?case
      using Suc by (simp flip: replicate_append_same del: power_Suc)
  qed simp
  from this [of 32] have "Hash_Bytes (- 1) = replicate 32 (- 1)"
    by (simp add: Hash_Bytes_def unsigned_minus_1_eq_mask mask_eq_exp_minus_1)
  then show "length b \<noteq> 20 \<Longrightarrow> bit (bloom9 sample_hashes b) 2047"
    by (simp add: bloom9_def sample_hashes_def bloomBit_def bit_simps unsigned_minus_1_eq_mask mask_eq_exp_minus_1)
qed

lemma TestBytes_misses_address:
  "\<exists>b. CreateBloom sample_hashes [(NewReceipt [] False 21000)\<lparr>rc_Logs := [sample_log\<lparr>log_Topics := []\<rparr>]\<rparr>] = Ret b \<and>
     BloomLookup sample_hashes b (Address_Bytes 5) \<and> \<not> TestBytes sample_hashes b (Address_Bytes 5)"
proof -
  have b9: "bloom9 sample_hashes (Address_Bytes 5) = 1"
    by (simp add: sample_bloom9 Address_Bytes_def)
  have "SetBytes (Address_Bytes 5) = 5"
    by (simp add: Address_Bytes_def SetBytes_be_bytes)
  moreover have "length (big_Bytes 5) \<noteq> 20"
    using length_big_Bytes_le [of 5 1] by simp
  ultimately have "bit (bloom9 sample_hashes (big_Bytes (SetBytes (Address_Bytes 5)))) 2047"
    by (simp add: sample_bloom9)
  moreover obtain b where "BytesToBloom (big_Bytes 1) = Ret b" "uint b = 1"
    using BytesToBloom_big [of 1] by auto
  moreover have "\<not> bit (1 :: int) 2047"
    by (simp add: bit_1_iff)
  ultimately show ?thesis
    using b9 by (auto simp: CreateBloom_def LogsBloom_def sample_log_def BloomLookup_iff TestBytes_def Bloom_Test_def)
qed

text \<open>The status of a receipt survives its encoding.\<close>

lemma setStatus_statusEncoding:
  assumes "length (rc_PostState r) \<in> {0, 32}" "rc_Status r \<le> 1" "rc_PostState r0 = []" "rc_Status r0 = 0" "rc_PostState r \<noteq> [] \<longrightarrow> rc_Status r = 0"
  shows "\<exists>r'. setStatus (statusEncoding r) r0 = Some r' \<and> rc_PostState r' = rc_PostState r \<and> rc_Status r' = rc_Status r"
  using assms by (auto simp: setStatus_def statusEncoding_def)

end
