(* ===== verification/Aquahash_Engine.thy ===== *)
theory Aquahash_Engine
  imports Types_Block State_Commit
begin

text \<open>
  The consensus engine (\<open>consensus/aquahash/consensus.go\<close>): verification of headers, uncles and
  seals, and the rewards of a block.

  The chain is seen through \<open>ChainReader\<close>. The clock, Hashimoto and the hash functions are parameters;
  the delay of the fake mode is not modelled. A nil parent header is dereferenced by \<open>verifyHeader\<close>, a
  panic of the model. The special cases of blocks before height 15000 are kept.
\<close>

section \<open>The chain and the engine\<close>

record ChainReader =
  ch_Config :: ChainConfig
  ch_GetHeader :: "hash \<Rightarrow> u64 \<Rightarrow> Header option"
  ch_GetBlock :: "hash \<Rightarrow> u64 \<Rightarrow> Block option"

datatype PowMode = ModeNormal | ModeShared | ModeTest | ModeFake | ModeFullFake

text \<open>The mode, the block number whose seal the fake mode refuses, and the shared engine.\<close>

datatype Aquahash = Aquahash (PowMode_of: PowMode) (fakeFail: u64) (shared_of: "Aquahash option")

text \<open>What the engine takes from outside: the hashes, Hashimoto for the epoch of a block, and the clock in seconds.\<close>

record Env =
  env_hashes :: Hashes
  env_EmptyUncleHash :: hash
  env_hashimotoLight :: "PowMode \<Rightarrow> u64 \<Rightarrow> hash \<Rightarrow> u64 \<Rightarrow> hash \<times> bytes"
  env_now :: int

datatype engine_err =
    errLargeBlockTime
  | errZeroBlockTime
  | errTooManyUncles
  | errDuplicateUncle
  | errUncleIsAncestor
  | errDanglingUncle
  | errNonceOutOfRange
  | errInvalidDifficulty
  | errInvalidMixDigest
  | errInvalidPoW
  | errUnknownGrandparent
  | ErrUnknownAncestor
  | ErrFutureBlock
  | ErrInvalidNumber
  | NilGrandparent u64
  | ExtraTooLong nat
  | WrongDifficulty int int
  | GasLimitTooBig u64
  | GasUsedTooBig u64
  | WrongGasLimit u64 u64
  | VersionNotSet

type_synonym verdict = "engine_err option go"

abbreviation (input) epochLength :: u64 where "epochLength \<equiv> 30000"
abbreviation (input) maxEpoch :: u64 where "maxEpoch \<equiv> 2048"
abbreviation (input) MaximumExtraDataSize :: nat where "MaximumExtraDataSize \<equiv> 32"
abbreviation (input) GasLimitBoundDivisor :: u64 where "GasLimitBoundDivisor \<equiv> 1024"
abbreviation (input) MinGasLimit :: u64 where "MinGasLimit \<equiv> 5000"
text \<open>\<open>maxUint256\<close> is one more than its comment in the code says.\<close>

abbreviation (input) maxUint256 :: int where "maxUint256 \<equiv> 2 ^ 256"
abbreviation (input) allowedFutureBlockTime :: int where "allowedFutureBlockTime \<equiv> 15"

section \<open>Headers\<close>

text \<open>The method of the engine that looks up a missing grandparent.\<close>

definition engine_CalcDifficulty :: "Env \<Rightarrow> ChainReader \<Rightarrow> u64 \<Rightarrow> Header \<Rightarrow> Header option \<Rightarrow> int go" where
  "engine_CalcDifficulty env chain time parent grandparent =
     CalcDifficulty (env_EmptyUncleHash env) (Some (ch_Config chain)) time parent
       (if grandparent = None \<and> Uint64 (Number parent) \<noteq> 0
        then ch_GetHeader chain (ParentHash parent) (Uint64 (Number parent) - 1) else grandparent)"

fun VerifySeal :: "Env \<Rightarrow> Aquahash \<Rightarrow> Header \<Rightarrow> verdict" where
  "VerifySeal env (Aquahash mode fail shared) header =
     (if mode = ModeFake \<or> mode = ModeFullFake then
        Ret (if fail = Uint64 (Number header) then Some errInvalidPoW else None)
      else case shared of
        Some e \<Rightarrow> VerifySeal env e header
      | None \<Rightarrow>
          let number = Uint64 (Number header) in
          if number div epochLength \<ge> maxEpoch then Ret (Some errNonceOutOfRange)
          else if Difficulty header \<le> 0 then Ret (Some errInvalidDifficulty)
          else
            go_bind (if Version header = 0 then Panic
                     else if Version header = 1 then
                       go_bind (HashNoNonce (env_hashes env) header) (\<lambda>h. Ret (env_hashimotoLight env mode number h (Nonce header)))
                     else
                       go_bind (HashNoNonce (env_hashes env) header) (\<lambda>h.
                         go_bind (VersionHash (env_hashes env) (Version header) (Hash_Bytes h @ rev (be_bytes 8 (uint (Nonce header)))))
                           (\<lambda>r. Ret (0, Hash_Bytes r))))
              (\<lambda>(digest, result).
                 if MixDigest header \<noteq> digest then Ret (Some errInvalidMixDigest)
                 else if SetBytes result > big_Div maxUint256 (Difficulty header) then Ret (Some errInvalidPoW)
                 else Ret None))"

definition verifyHeader :: "Env \<Rightarrow> Aquahash \<Rightarrow> ChainReader \<Rightarrow> Header \<Rightarrow> Header option \<Rightarrow> Header option \<Rightarrow> bool \<Rightarrow> bool \<Rightarrow> verdict" where
  "verifyHeader env engine chain header par grandparent uncle seal =
     (if length (Extra header) > MaximumExtraDataSize then Ret (Some (ExtraTooLong (length (Extra header))))
      else if uncle \<and> Time header > 2 ^ 256 - 1 then Ret (Some errLargeBlockTime)
      else if \<not> uncle \<and> Time header > env_now env + allowedFutureBlockTime then Ret (Some ErrFutureBlock)
      else case par of None \<Rightarrow> Panic | Some parent \<Rightarrow>
        if Time header \<le> Time parent then Ret (Some errZeroBlockTime)
        else go_bind (engine_CalcDifficulty env chain (Uint64 (Time header)) parent grandparent) (\<lambda>expected.
          if expected \<noteq> Difficulty header then Ret (Some (WrongDifficulty (Difficulty header) expected))
          else if GasLimit header > 0x7fffffffffffffff then Ret (Some (GasLimitTooBig (GasLimit header)))
          else if GasUsed header > GasLimit header then Ret (Some (GasUsedTooBig (GasUsed header)))
          else
            let diff = GasLimit parent - GasLimit header;
                diff = (if sint diff < 0 then - diff else diff);
                limit = GasLimit parent div GasLimitBoundDivisor
            in if diff \<ge> limit \<or> GasLimit header < MinGasLimit then Ret (Some (WrongGasLimit (GasLimit header) limit))
               else if Number header - Number parent \<noteq> 1 then Ret (Some ErrInvalidNumber)
               else if seal then VerifySeal env engine header
               else Ret None))"

definition VerifyHeader :: "Env \<Rightarrow> Aquahash \<Rightarrow> ChainReader \<Rightarrow> Header \<Rightarrow> bool \<Rightarrow> verdict" where
  "VerifyHeader env engine chain header seal =
     (if PowMode_of engine = ModeFullFake then Ret None
      else
        let number = Uint64 (Number header) in
        go_bind (Header_Hash (env_hashes env) header) (\<lambda>h.
          if ch_GetHeader chain h number \<noteq> None then Ret None
          else case ch_GetHeader chain (ParentHash header) (number - 1) of
              None \<Rightarrow> Ret (Some ErrUnknownAncestor)
            | Some parent \<Rightarrow>
                if number > 2 then
                  (case ch_GetHeader chain (ParentHash parent) (number - 2) of
                     None \<Rightarrow> Ret (Some (NilGrandparent (number - 2)))
                   | Some g \<Rightarrow> verifyHeader env engine chain header (Some parent) (Some g) False seal)
                else verifyHeader env engine chain header (Some parent) None False seal))"

text \<open>The parent and grandparent a worker of \<open>VerifyHeaders\<close> finds for the header at an index.\<close>

definition workerParents :: "Env \<Rightarrow> ChainReader \<Rightarrow> Header list \<Rightarrow> nat \<Rightarrow> (Header option \<times> Header option) go" where
  "workerParents env chain headers index =
     (if index = 0 then
        let h = headers ! 0; parent = ch_GetHeader chain (ParentHash h) (Uint64 (Number h) - 1)
        in Ret (parent, case parent of None \<Rightarrow> None
             | Some p \<Rightarrow> if Uint64 (Number h) > 2 then ch_GetHeader chain (ParentHash p) (Uint64 (Number h) - 2) else None)
      else if index = 1 then
        let p = headers ! 0
        in Ret (Some p, if Uint64 (Number p) > 1 then ch_GetHeader chain (ParentHash p) (Uint64 (Number p) - 1) else None)
      else
        go_bind (Header_Hash (env_hashes env) (headers ! (index - 1))) (\<lambda>h.
          if h = ParentHash (headers ! index) then Ret (Some (headers ! (index - 1)), Some (headers ! (index - 2)))
          else Ret (None, None)))"

definition verifyHeaderWorker :: "Env \<Rightarrow> Aquahash \<Rightarrow> ChainReader \<Rightarrow> Header list \<Rightarrow> bool list \<Rightarrow> nat \<Rightarrow> verdict" where
  "verifyHeaderWorker env engine chain headers seals index =
     go_bind (workerParents env chain headers index) (\<lambda>(parent, grandparent).
       if parent = None \<and> Uint64 (Number (headers ! 0)) \<noteq> 0 then Ret (Some ErrUnknownAncestor)
       else if grandparent = None \<and> (case parent of None \<Rightarrow> False | Some p \<Rightarrow> Uint64 (Number p) > 1) then Ret (Some errUnknownGrandparent)
       else go_bind (Header_Hash (env_hashes env) (headers ! index)) (\<lambda>h.
         if ch_GetHeader chain h (Uint64 (Number (headers ! index))) \<noteq> None then Ret None
         else go_bind (go_index seals index) (verifyHeader env engine chain (headers ! index) parent grandparent False)))"

definition engine_Prepare :: "Env \<Rightarrow> ChainReader \<Rightarrow> Header \<Rightarrow> (engine_err option \<times> Header) go" where
  "engine_Prepare env chain header =
     (let number = Uint64 (Number header);
          set = (\<lambda>parent g. go_bind (engine_CalcDifficulty env chain (Uint64 (Time header)) parent g) (\<lambda>d. Ret (None, header\<lparr>Difficulty := d\<rparr>)))
      in case ch_GetHeader chain (ParentHash header) (number - 1) of
          None \<Rightarrow> Ret (Some ErrUnknownAncestor, header)
        | Some parent \<Rightarrow>
            if number > 2 then
              (case ch_GetHeader chain (ParentHash parent) (number - 2) of
                 None \<Rightarrow> Ret (Some errUnknownGrandparent, header)
               | Some g \<Rightarrow> set parent (Some g))
            else set parent None)"

section \<open>Uncles\<close>

type_synonym ancestry = "(hash \<rightharpoonup> Header) \<times> hash list"

definition uncleHash :: "Env \<Rightarrow> ChainReader \<Rightarrow> Header \<Rightarrow> (hash \<times> Header) go" where
  "uncleHash env chain uncle =
     go_bind (GetBlockVersion (ch_Config chain) (Some (Number uncle))) (\<lambda>v. Header_SetVersion (env_hashes env) v uncle)"

primrec addUncles :: "Env \<Rightarrow> ChainReader \<Rightarrow> Header list \<Rightarrow> hash list \<Rightarrow> hash list go" where
  "addUncles env chain [] uncles = Ret uncles"
| "addUncles env chain (u # us) uncles = go_bind (uncleHash env chain u) (\<lambda>(h, _). addUncles env chain us (h # uncles))"

text \<open>The loop over the last seven ancestors; the last component is the variable \<open>number\<close> after it.\<close>

primrec gatherAncestors :: "Env \<Rightarrow> ChainReader \<Rightarrow> nat \<Rightarrow> hash \<Rightarrow> u64 \<Rightarrow> ancestry \<Rightarrow> (ancestry \<times> u64) go" where
  "gatherAncestors env chain 0 parent number acc = Ret (acc, number)"
| "gatherAncestors env chain (Suc i) parent number acc =
     (case ch_GetBlock chain parent number of
        None \<Rightarrow> Ret (acc, number)
      | Some ancestor \<Rightarrow>
          go_bind (Block_Hash (env_hashes env) ancestor) (\<lambda>(h, _).
            go_bind (addUncles env chain (block_uncles ancestor) (snd acc)) (\<lambda>uncles.
              gatherAncestors env chain i (ParentHash (block_header ancestor)) (number - 1)
                ((fst acc)(h \<mapsto> block_header ancestor), uncles))))"

definition knownDuplicate :: "hash \<Rightarrow> u64 \<Rightarrow> bool" where
  "knownDuplicate h n \<longleftrightarrow>
     h = 0xbac2283407b519ffbb8c47772d1b7cf740646dddf69744ff44219cb868b00548 \<and> n = 13313 \<or>
     h = 0xa955c8499ce9c4fb00700a8d97db8600dc50c8a81275627a18e30cfb82c19ac2 \<and> n = 13315 \<or>
     h = 0x7da0315b99e059f17b18bfd7f07c57b8e3be3aac261dbf470fb2d6cb0acb9899 \<and> n = 13998"

definition weirdUncle :: "hash \<Rightarrow> hash \<Rightarrow> u64 \<Rightarrow> bool" where
  "weirdUncle parentHash h n \<longleftrightarrow>
     parentHash = 0x6b818656fb5059ab4dd070e2c2822a7774065090e74ff31515764212c88e2923 \<and> n = 14003 \<or>
     parentHash = 0x0afd1b00b8e1a49652beeb860e3b58dacc865dd3e3d9d303374ed3ffdfef8eea \<and> n = 14001 \<or>
     h = 0xed6dae6d2d4f599d78429e127e8a654fe96c30f4b6c9bacb01cfa45d8a57b45e \<and> n = 14004 \<or>
     h = 0x13cb01d5d3566d076b5e128e5733f17968f95329fb1777ff38db53abdcca3e4c \<and> n = 14008 \<or>
     h = 0x822735d89d8493434d3ec1f504c9f103d7bb4761cd358370b00dd234621cf1b9 \<and> n = 14009"

primrec checkUncles :: "Env \<Rightarrow> Aquahash \<Rightarrow> ChainReader \<Rightarrow> Block \<Rightarrow> hash \<Rightarrow> u64 \<Rightarrow> (hash \<rightharpoonup> Header) \<Rightarrow> Header list \<Rightarrow> hash list \<Rightarrow> verdict" where
  "checkUncles env engine chain block ancestorhash number ancestors [] uncles = Ret None"
| "checkUncles env engine chain block ancestorhash number ancestors (u # us) uncles =
     go_bind (uncleHash env chain u) (\<lambda>(h, uncle).
       let unum = Uint64 (Number uncle) in
       if h \<in> set uncles \<and> (number > 15000 \<or> \<not> knownDuplicate ancestorhash unum) then Ret (Some errDuplicateUncle)
       else if ancestors h \<noteq> None then Ret (Some errUncleIsAncestor)
       else if ancestors (ParentHash uncle) = None \<or> ParentHash uncle = ParentHash (block_header block) then
         (if number > 15000 then Ret (Some errDanglingUncle)
          else if weirdUncle (ParentHash uncle) h unum then Ret None
          else Ret (Some errDanglingUncle))
       else
         let parent = the (ancestors (ParentHash uncle)); grandparent = ancestors (ParentHash parent) in
         go_bind (verifyHeader env engine chain uncle (Some parent) grandparent True True) (\<lambda>e.
           case e of Some e \<Rightarrow> Ret (Some e)
           | None \<Rightarrow> checkUncles env engine chain block ancestorhash number ancestors us (h # uncles)))"

definition VerifyUncles :: "Env \<Rightarrow> Aquahash \<Rightarrow> ChainReader \<Rightarrow> Block \<Rightarrow> verdict" where
  "VerifyUncles env engine chain block =
     (if PowMode_of engine = ModeFullFake then Ret None
      else if length (block_uncles block) > 2 then Ret (Some errTooManyUncles)
      else if length (block_uncles block) > 1 \<and> IsHF (ch_Config chain) 5 (Some (Number (block_header block))) then Ret (Some errTooManyUncles)
      else
        go_bind (gatherAncestors env chain 7 (ParentHash (block_header block)) (Uint64 (Number (block_header block)) - 1) (Map.empty, []))
          (\<lambda>((ancestors, uncles), number).
             if Version (block_header block) = 0 then Ret (Some VersionNotSet)
             else go_bind (Block_Hash (env_hashes env) block) (\<lambda>(ancestorhash, _).
               checkUncles env engine chain block ancestorhash number (ancestors(ancestorhash \<mapsto> block_header block))
                 (block_uncles block) (ancestorhash # uncles))))"

section \<open>Rewards\<close>

abbreviation (input) MaxMoney :: int where "MaxMoney \<equiv> 42000000"
abbreviation (input) BlockReward :: int where "BlockReward \<equiv> 1000000000000000000"

definition blockReward :: "ChainConfig \<Rightarrow> Header \<Rightarrow> int" where
  "blockReward config header =
     (if config_addr config = config_addr EthnetChainConfig then ethReward config header else BlockReward)"

primrec rewardUncles :: "Backend \<Rightarrow> int \<Rightarrow> Header \<Rightarrow> Header list \<Rightarrow> int \<Rightarrow> StateDB \<Rightarrow> int \<times> StateDB" where
  "rewardUncles be R header [] reward s = (reward, s)"
| "rewardUncles be R header (uncle # uncles) reward s =
     rewardUncles be R header uncles (reward + big_Div R 32)
       (AddBalance be (Coinbase uncle) (big_Div ((Number uncle + 8 - Number header) * R) 8) s)"

definition accumulateRewards :: "Backend \<Rightarrow> ChainConfig \<Rightarrow> Header \<Rightarrow> Header list \<Rightarrow> StateDB \<Rightarrow> StateDB" where
  "accumulateRewards be config header uncles s =
     (if \<not> Number header < MaxMoney then s
      else let R = blockReward config header; (reward, s) = rewardUncles be R header uncles R s
           in AddBalance be (Coinbase header) reward s)"

text \<open>The effect of \<open>Finalize\<close> on state, header and uncles; assembling the block is left to the caller.\<close>

definition Finalize :: "Backend \<Rightarrow> Env \<Rightarrow> ChainReader \<Rightarrow> Header \<Rightarrow> StateDB \<Rightarrow> Header list \<Rightarrow> (Header \<times> Header list \<times> StateDB) go" where
  "Finalize be env chain header s uncles =
     go_bind (GetBlockVersion (ch_Config chain) (Some (Number header))) (\<lambda>v.
       go_bind (Header_SetVersion (env_hashes env) v header) (\<lambda>(_, header).
         let uncles = map (\<lambda>u. u\<lparr>Version := Version header\<rparr>) uncles;
             s = accumulateRewards be (ch_Config chain) header uncles s
         in go_bind (IntermediateRoot be (IsEIP158 (ch_Config chain) (Some (Number header))) s) (\<lambda>(root, s).
              Ret (header\<lparr>Root := root\<rparr>, uncles, s))))"

section \<open>Accepted headers\<close>

text \<open>The distance of two gas limits, computed in 64-bit arithmetic with a sign, is exact.\<close>

lemma mod_neighbour:
  "- m \<le> x \<Longrightarrow> x < 0 \<Longrightarrow> x mod m = x + m" "0 \<le> x \<Longrightarrow> x < m \<Longrightarrow> x mod m = x" "m \<le> x \<Longrightarrow> x < 2 * m \<Longrightarrow> x mod m = x - m" for x m :: int
  using mod_pos_pos_trivial [of "x + m" m] mod_pos_pos_trivial [of "x - m" m] by (simp_all add: minus_mod_self2)

lemma sint_cases: "sint (w :: u64) = (if uint w < 2 ^ 63 then uint w else uint w - 2 ^ 64)"
proof -
  have "0 \<le> uint w" "uint w < 2 ^ 64"
    using uint_bounded [of w] by simp_all
  moreover have "sint w = signed_take_bit 63 (uint w)"
    by (simp add: sint_uint)
  ultimately show ?thesis
    using mod_neighbour(2) [of "uint w + 2 ^ 63" "2 ^ 64"] mod_neighbour(3) [of "2 ^ 64" "uint w + 2 ^ 63"] by (simp add: signed_take_bit_eq_take_bit_shift take_bit_eq_mod)
qed

lemma gas_distance:
  assumes "uint (p :: u64) < 2 ^ 63" "uint h < 2 ^ 63"
  shows "uint (if sint (p - h) < 0 then - (p - h) else p - h) = \<bar>uint p - uint h\<bar>"
proof -
  have b: "0 \<le> uint p" "0 \<le> uint h"
    by simp_all
  have m: "(a - b) mod 2 ^ 64 = (if b \<le> a then a - b else 2 ^ 64 - (b - a))" if "0 \<le> a" "a < 2 ^ 63" "0 \<le> b" "b < 2 ^ 63" for a b :: int
    using that mod_neighbour(1) [of "2 ^ 64" "a - b"] mod_neighbour(2) [of "a - b" "2 ^ 64"] by auto
  have d: "uint (p - h) = (if uint h \<le> uint p then uint p - uint h else 2 ^ 64 - (uint h - uint p))"
    "uint h \<ge> uint p \<Longrightarrow> uint (h - p) = uint h - uint p"
    using m [OF b(1) assms(1) b(2) assms(2)] m [OF b(2) assms(2) b(1) assms(1)] by (simp_all add: uint_word_ariths)
  have "sint (p - h) < 0 \<longleftrightarrow> uint p < uint h"
  proof (cases "uint h \<le> uint p")
    case True
    then have "uint (p - h) = uint p - uint h"
      using d(1) by simp
    then have "uint (p - h) < 2 ^ 63"
      using assms b by linarith
    then show ?thesis
      using True unfolding sint_cases by simp
  next
    case False
    then have "uint (p - h) = 2 ^ 64 - (uint h - uint p)"
      using d(1) by simp
    moreover have "uint h - uint p < 2 ^ 63" "0 < uint h - uint p"
      using False assms b by linarith+
    ultimately have "\<not> uint (p - h) < 2 ^ 63" "uint (p - h) < 2 ^ 64"
      by simp_all
    then show ?thesis
      using False unfolding sint_cases by simp
  qed
  then show ?thesis
    using d by auto
qed

text \<open>What the rules demand of a header, in exact arithmetic.\<close>

definition valid_header :: "Env \<Rightarrow> ChainReader \<Rightarrow> Header \<Rightarrow> Header \<Rightarrow> Header option \<Rightarrow> bool \<Rightarrow> bool" where
  "valid_header env chain header parent grandparent uncle \<longleftrightarrow>
     length (Extra header) \<le> 32 \<and> Time parent < Time header \<and>
     (if uncle then Time header < 2 ^ 256 else Time header \<le> env_now env + 15) \<and>
     engine_CalcDifficulty env chain (Uint64 (Time header)) parent grandparent = Ret (Difficulty header) \<and>
     GasUsed header \<le> GasLimit header \<and> 5000 \<le> uint (GasLimit header) \<and> uint (GasLimit header) < 2 ^ 63 \<and>
     \<bar>uint (GasLimit parent) - uint (GasLimit header)\<bar> < uint (GasLimit parent) div 1024 \<and>
     Number header = Number parent + 1"

lemma if_verdict: "(if c then Ret (Some e) else r) = Ret None \<longleftrightarrow> \<not> c \<and> r = Ret None"
  by simp

lemma bind_verdict: "go_bind m (\<lambda>x. if x \<noteq> d then Ret (Some (g x)) else r) = Ret None \<longleftrightarrow> m = Ret d \<and> r = Ret None"
  by auto

lemma verifyHeader_iff:
  assumes "uint (GasLimit parent) < 2 ^ 63"
  shows "verifyHeader env engine chain header (Some parent) grandparent uncle seal = Ret None \<longleftrightarrow>
    valid_header env chain header parent grandparent uncle \<and> (seal \<longrightarrow> VerifySeal env engine header = Ret None)"
proof (cases "uint (GasLimit header) < 2 ^ 63")
  case True
  have lim: "(if sint (GasLimit parent - GasLimit header) < 0 then - (GasLimit parent - GasLimit header) else GasLimit parent - GasLimit header) \<ge>
      GasLimit parent div 1024 \<longleftrightarrow> \<not> \<bar>uint (GasLimit parent) - uint (GasLimit header)\<bar> < uint (GasLimit parent) div 1024"
    unfolding word_le_def gas_distance [OF assms True] by (simp add: uint_div not_less)
  have small: "\<not> GasLimit header > 0x7fffffffffffffff" "GasLimit header < 5000 \<longleftrightarrow> \<not> 5000 \<le> uint (GasLimit header)"
    using True by (simp_all add: word_less_def not_le)
  show ?thesis
    unfolding verifyHeader_def Let_def lim small option.case if_verdict bind_verdict
    using True small(1) by (auto simp only: valid_header_def not_less if_True if_False not_le split: if_split)
next
  case False
  then have "GasLimit header > 0x7fffffffffffffff"
    by (simp add: word_less_def)
  then show ?thesis
    unfolding verifyHeader_def option.case if_verdict bind_verdict valid_header_def using False by simp
qed

lemma verifyHeader_number:
  "verifyHeader env engine chain header (Some parent) grandparent uncle seal = Ret None \<Longrightarrow> Number header = Number parent + 1"
  unfolding verifyHeader_def Let_def option.case if_verdict bind_verdict by auto

section \<open>Accepted uncles\<close>

text \<open>What the engine relies on: \<open>GetBlock\<close> returns the block with the hash and number asked for.\<close>

definition chain_ok :: "Env \<Rightarrow> ChainReader \<Rightarrow> bool" where
  "chain_ok env chain \<longleftrightarrow>
     (\<forall>h n b. ch_GetBlock chain h n = Some b \<longrightarrow> Number (block_header b) = uint n \<and> (\<exists>b'. Block_Hash (env_hashes env) b = Ret (h, b')))"

primrec last_blocks :: "ChainReader \<Rightarrow> nat \<Rightarrow> hash \<Rightarrow> u64 \<Rightarrow> Block list" where
  "last_blocks chain 0 parent number = []"
| "last_blocks chain (Suc i) parent number =
     (case ch_GetBlock chain parent number of
        None \<Rightarrow> []
      | Some b \<Rightarrow> b # last_blocks chain i (ParentHash (block_header b)) (number - 1))"

lemma addUncles_ok:
  assumes "addUncles env chain us uncles = Ret uncles'"
  shows "set uncles \<subseteq> set uncles' \<and> (\<forall>u \<in> set us. \<exists>h u'. uncleHash env chain u = Ret (h, u') \<and> h \<in> set uncles')"
  using assms
proof (induction us arbitrary: uncles)
  case (Cons u us)
  then obtain h u' where u: "uncleHash env chain u = Ret (h, u')" "addUncles env chain us (h # uncles) = Ret uncles'"
    by auto
  show ?case
    using Cons.IH [OF u(2)] u(1) by auto
qed simp

text \<open>What the loop has gathered: the headers by hash, the uncles of the blocks seen, and the counter.\<close>

definition gathered :: "Env \<Rightarrow> ChainReader \<Rightarrow> nat \<Rightarrow> hash \<Rightarrow> u64 \<Rightarrow> ancestry \<Rightarrow> ancestry \<Rightarrow> u64 \<Rightarrow> bool" where
  "gathered env chain i parent number acc acc' n' \<longleftrightarrow>
     unat number - i \<le> unat n' \<and> set (snd acc) \<subseteq> set (snd acc') \<and> dom (fst acc) \<subseteq> dom (fst acc') \<and>
     (\<forall>k hd. fst acc' k = Some hd \<longrightarrow> fst acc k = Some hd \<or> (\<exists>j < i. Number hd = uint number - int j \<and> (j = 0 \<longrightarrow> k = parent))) \<and>
     (\<forall>b \<in> set (last_blocks chain i parent number).
        (\<exists>h b'. Block_Hash (env_hashes env) b = Ret (h, b') \<and> h \<in> dom (fst acc')) \<and>
        (\<forall>u \<in> set (block_uncles b). \<exists>h u'. uncleHash env chain u = Ret (h, u') \<and> h \<in> set (snd acc')))"

lemma gatheredD:
  assumes "gathered env chain i parent number (A, U) acc' n'"
  shows "unat number - i \<le> unat n'" "set U \<subseteq> set (snd acc')" "dom A \<subseteq> dom (fst acc')"
    "\<And>k hd. fst acc' k = Some hd \<Longrightarrow> A k = Some hd \<or> (\<exists>j < i. Number hd = uint number - int j \<and> (j = 0 \<longrightarrow> k = parent))"
    "\<And>b. b \<in> set (last_blocks chain i parent number) \<Longrightarrow>
       (\<exists>h b'. Block_Hash (env_hashes env) b = Ret (h, b') \<and> h \<in> dom (fst acc')) \<and>
       (\<forall>u \<in> set (block_uncles b). \<exists>h u'. uncleHash env chain u = Ret (h, u') \<and> h \<in> set (snd acc'))"
  using assms unfolding gathered_def fst_conv snd_conv by - (elim conjE, (assumption | (erule allE)+, erule mp, assumption | erule bspec, assumption))+

lemma gathered_step:
  assumes g: "gathered env chain i (ParentHash (block_header b)) (number - 1) (A(parent \<mapsto> block_header b), U1) acc' n'"
    and b: "ch_GetBlock chain parent number = Some b" "Number (block_header b) = uint number" "Block_Hash (env_hashes env) b = Ret (parent, b')"
    and U1: "addUncles env chain (block_uncles b) U = Ret U1" and le: "Suc i \<le> unat number"
  shows "gathered env chain (Suc i) parent number (A, U) acc' n'"
  unfolding gathered_def
proof (intro conjI allI impI ballI)
  note g = gatheredD [OF g]
  have n1: "unat (number - 1) = unat number - 1"
    using le by (simp add: unat_sub word_le_nat_alt)
  then have n1': "uint (number - 1) = uint number - 1"
    unfolding uint_nat using le by linarith
  show "unat number - Suc i \<le> unat n'"
    using g(1) n1 by simp
  show "set (snd (A, U)) \<subseteq> set (snd acc')"
    using g(2) addUncles_ok [OF U1] by simp blast
  show "dom (fst (A, U)) \<subseteq> dom (fst acc')"
    using g(3) by auto
  show "fst (A, U) k = Some hd \<or> (\<exists>j < Suc i. Number hd = uint number - int j \<and> (j = 0 \<longrightarrow> k = parent))" if "fst acc' k = Some hd" for k hd
  proof -
    note hd = g(4) [OF that]
    consider "(A(parent \<mapsto> block_header b)) k = Some hd" | j where "j < i" "Number hd = uint (number - 1) - int j"
      using hd by blast
    then show ?thesis
    proof cases
      case 1
      then show ?thesis
        using b(2) by (cases "k = parent") auto
    next
      case 2
      then show ?thesis
        using n1' by (intro disjI2 exI [of _ "Suc j"]) simp
    qed
  qed
  fix b1
  assume b1: "b1 \<in> set (last_blocks chain (Suc i) parent number)"
  then consider "b1 = b" | "b1 \<in> set (last_blocks chain i (ParentHash (block_header b)) (number - 1))"
    using b(1) by auto
  then have "(\<exists>h b'. Block_Hash (env_hashes env) b1 = Ret (h, b') \<and> h \<in> dom (fst acc')) \<and>
      (\<forall>u \<in> set (block_uncles b1). \<exists>h u'. uncleHash env chain u = Ret (h, u') \<and> h \<in> set (snd acc'))"
  proof cases
    case 1
    have "parent \<in> dom (fst acc')" "set U1 \<subseteq> set (snd acc')"
      using g(2,3) by auto
    then show ?thesis
      using 1 b(3) addUncles_ok [OF U1] by blast
  next
    case 2
    then show ?thesis
      by (rule g(5))
  qed
  then show "\<exists>h b'. Block_Hash (env_hashes env) b1 = Ret (h, b') \<and> h \<in> dom (fst acc')"
    "\<And>u. u \<in> set (block_uncles b1) \<Longrightarrow> \<exists>h u'. uncleHash env chain u = Ret (h, u') \<and> h \<in> set (snd acc')"
    by blast+
qed

lemma gatherAncestors_ok:
  assumes "gatherAncestors env chain i parent number acc = Ret (acc', n')" "chain_ok env chain" "i \<le> unat number"
  shows "gathered env chain i parent number acc acc' n'"
  using assms
proof (induction i arbitrary: parent number acc)
  case (Suc i)
  obtain A U where acc: "acc = (A, U)"
    by (cases acc)
  show ?case
  proof (cases "ch_GetBlock chain parent number")
    case None
    then show ?thesis
      using Suc.prems by (auto simp: gathered_def)
  next
    case (Some b)
    then obtain b' where b: "Number (block_header b) = uint number" "Block_Hash (env_hashes env) b = Ret (parent, b')"
      using Suc.prems(2) unfolding chain_ok_def by blast
    then obtain U1 where U1: "addUncles env chain (block_uncles b) U = Ret U1"
      and rec: "gatherAncestors env chain i (ParentHash (block_header b)) (number - 1) (A(parent \<mapsto> block_header b), U1) = Ret (acc', n')"
      using Suc.prems(1) Some acc by auto
    have "i \<le> unat (number - 1)"
      using Suc.prems(3) by (simp add: unat_sub word_le_nat_alt)
    then show ?thesis
      unfolding acc using gathered_step [OF Suc.IH [OF rec Suc.prems(2)] Some b U1 Suc.prems(3)] by blast
  qed
qed (auto simp: gathered_def)

text \<open>The header of the block with the hash \<open>h\<close>, the first such block of a list.\<close>

definition known :: "Env \<Rightarrow> Block list \<Rightarrow> hash \<Rightarrow> Header option" where
  "known env bs h = map_option block_header (find (\<lambda>b. \<exists>b'. Block_Hash (env_hashes env) b = Ret (h, b')) bs)"

lemma known_simps [simp]:
  "known env [] h = None"
  "Block_Hash (env_hashes env) b = Ret (k, b') \<Longrightarrow> known env (b # bs) h = (if h = k then Some (block_header b) else known env bs h)"
  by (auto simp: known_def)

lemma known_append: "known env (bs @ cs) h = (case known env bs h of Some x \<Rightarrow> Some x | None \<Rightarrow> known env cs h)"
  by (induction bs) (simp_all add: known_def)

lemma gatherAncestors_known:
  assumes "gatherAncestors env chain i parent number acc = Ret (acc', n')"
  shows "fst acc' h = (case known env (rev (last_blocks chain i parent number)) h of Some x \<Rightarrow> Some x | None \<Rightarrow> fst acc h)"
  using assms
proof (induction i arbitrary: parent number acc)
  case (Suc i)
  show ?case
  proof (cases "ch_GetBlock chain parent number")
    case None
    then show ?thesis
      using Suc.prems by simp
  next
    case (Some b)
    then obtain k b' U where b: "Block_Hash (env_hashes env) b = Ret (k, b')"
      and rec: "gatherAncestors env chain i (ParentHash (block_header b)) (number - 1) ((fst acc)(k \<mapsto> block_header b), U) = Ret (acc', n')"
      using Suc.prems by auto
    show ?thesis
      using Suc.IH [OF rec] Some b by (simp add: known_append split: option.split)
  qed
qed simp

text \<open>
  The last seven ancestors of a block, the nearest first, and the family an uncle must belong to:
  these ancestors and the block itself.
\<close>

definition ancestors_of :: "ChainReader \<Rightarrow> Block \<Rightarrow> Block list" where
  "ancestors_of chain block = last_blocks chain 7 (ParentHash (block_header block)) (Uint64 (Number (block_header block)) - 1)"

definition family :: "ChainReader \<Rightarrow> Block \<Rightarrow> Block list" where
  "family chain block = block # rev (ancestors_of chain block)"

text \<open>
  What the checks demand of an uncle with hash \<open>h\<close>: it is not the block, no ancestor and no uncle
  of an ancestor; its parent hash is that of a block of the family, but not of the parent of the block; and its
  header is valid as the child of that block, with the block of the family that is its grandparent.
\<close>

definition valid_uncle :: "Env \<Rightarrow> Aquahash \<Rightarrow> ChainReader \<Rightarrow> Block \<Rightarrow> hash \<Rightarrow> hash \<Rightarrow> Header \<Rightarrow> bool" where
  "valid_uncle env engine chain block bh h uncle \<longleftrightarrow>
     h \<noteq> bh \<and>
     (\<forall>b \<in> set (ancestors_of chain block). (\<forall>b'. Block_Hash (env_hashes env) b \<noteq> Ret (h, b')) \<and>
        (\<forall>u \<in> set (block_uncles b). \<forall>u'. uncleHash env chain u \<noteq> Ret (h, u'))) \<and>
     ParentHash uncle \<noteq> ParentHash (block_header block) \<and>
     (\<exists>parent. known env (family chain block) (ParentHash uncle) = Some parent \<and>
        verifyHeader env engine chain uncle (Some parent) (known env (family chain block) (ParentHash parent)) True True = Ret None \<and>
        (ParentHash uncle = bh \<or> Number (block_header block) - 7 \<le> Number parent \<and> Number parent \<le> Number (block_header block) - 2))"

lemma checkUncles_ok:
  assumes "checkUncles env engine chain block bh number A us U = Ret None" "15000 < number"
  shows "\<exists>hus. list_all2 (\<lambda>u hu. uncleHash env chain u = Ret hu) us hus \<and> distinct (map fst hus) \<and>
    (\<forall>(h, u) \<in> set hus. h \<notin> set U \<and> A h = None \<and> ParentHash u \<noteq> ParentHash (block_header block) \<and>
       (\<exists>parent. A (ParentHash u) = Some parent \<and> verifyHeader env engine chain u (Some parent) (A (ParentHash parent)) True True = Ret None))"
  using assms(1)
proof (induction us arbitrary: U)
  case (Cons x us)
  obtain h u where hu: "uncleHash env chain x = Ret (h, u)"
    using Cons.prems by auto
  then have c: "h \<notin> set U" "A h = None" "A (ParentHash u) \<noteq> None" "ParentHash u \<noteq> ParentHash (block_header block)"
    using Cons.prems assms(2) by (auto simp: Let_def split: if_splits)
  then obtain parent where parent: "A (ParentHash u) = Some parent"
    by blast
  have v: "verifyHeader env engine chain u (Some parent) (A (ParentHash parent)) True True = Ret None"
    and rec: "checkUncles env engine chain block bh number A us (h # U) = Ret None"
    using Cons.prems hu c parent by (auto simp: Let_def split: option.splits)
  obtain hus where "list_all2 (\<lambda>u hu. uncleHash env chain u = Ret hu) us hus" "distinct (map fst hus)"
    "\<forall>(h', u) \<in> set hus. h' \<notin> set (h # U) \<and> A h' = None \<and> ParentHash u \<noteq> ParentHash (block_header block) \<and>
       (\<exists>parent. A (ParentHash u) = Some parent \<and> verifyHeader env engine chain u (Some parent) (A (ParentHash parent)) True True = Ret None)"
    using Cons.IH [OF rec] by blast
  then show ?case
    using hu c parent v by (intro exI [of _ "(h, u) # hus"]) fastforce
qed simp

lemma VerifyUncles_ok:
  assumes "VerifyUncles env engine chain block = Ret None" "PowMode_of engine \<noteq> ModeFullFake" "chain_ok env chain"
    and N: "15008 < Number (block_header block)" "Number (block_header block) < 2 ^ 64"
  shows "length (block_uncles block) \<le> 2 \<and> (IsHF (ch_Config chain) 5 (Some (Number (block_header block))) \<longrightarrow> length (block_uncles block) \<le> 1) \<and>
    (\<exists>bh b' hus. Block_Hash (env_hashes env) block = Ret (bh, b') \<and> list_all2 (\<lambda>u hu. uncleHash env chain u = Ret hu) (block_uncles block) hus \<and>
       distinct (map fst hus) \<and> (\<forall>(h, u) \<in> set hus. valid_uncle env engine chain block bh h u))"
proof -
  let ?p = "ParentHash (block_header block)" and ?n = "Uint64 (Number (block_header block)) - 1"
  have un: "uint (Uint64 (Number (block_header block))) = Number (block_header block)"
    using N by (simp add: Uint64_def uint_word_of_int_eq take_bit_int_eq_self)
  then have "15008 < unat (Uint64 (Number (block_header block)))"
    using N(1) by (simp add: unat_eq_nat_uint)
  then have n: "unat ?n = unat (Uint64 (Number (block_header block))) - 1" "15007 < unat ?n"
    by (simp_all add: unat_sub word_le_nat_alt)
  then have un1: "uint ?n = Number (block_header block) - 1"
    using un \<open>15008 < unat (Uint64 (Number (block_header block)))\<close> unfolding uint_nat by linarith
  obtain A U number bh b' where g: "gatherAncestors env chain 7 ?p ?n (Map.empty, []) = Ret ((A, U), number)"
    and bh: "Block_Hash (env_hashes env) block = Ret (bh, b')"
    and run: "checkUncles env engine chain block bh number (A(bh \<mapsto> block_header block)) (block_uncles block) (bh # U) = Ret None"
    and len: "length (block_uncles block) \<le> 2" "IsHF (ch_Config chain) 5 (Some (Number (block_header block))) \<longrightarrow> length (block_uncles block) \<le> 1"
    using assms(1,2) unfolding VerifyUncles_def by (auto split: if_splits)
  have "7 \<le> unat ?n"
    using n by simp
  note G = gatheredD [OF gatherAncestors_ok [OF g assms(3) this]]
  have "15000 < number"
    using G(1) n(2) by (simp add: word_less_nat_alt)
  then obtain hus where hus: "list_all2 (\<lambda>u hu. uncleHash env chain u = Ret hu) (block_uncles block) hus" "distinct (map fst hus)"
    "\<forall>(h, u) \<in> set hus. h \<notin> set (bh # U) \<and> (A(bh \<mapsto> block_header block)) h = None \<and> ParentHash u \<noteq> ?p \<and>
       (\<exists>parent. (A(bh \<mapsto> block_header block)) (ParentHash u) = Some parent \<and>
          verifyHeader env engine chain u (Some parent) ((A(bh \<mapsto> block_header block)) (ParentHash parent)) True True = Ret None)"
    using checkUncles_ok [OF run] by blast
  have A: "known env (family chain block) k = (A(bh \<mapsto> block_header block)) k" for k
    using gatherAncestors_known [OF g, of k] bh by (simp add: family_def ancestors_of_def split: option.splits)
  have "valid_uncle env engine chain block bh h u" if "(h, u) \<in> set hus" for h u
  proof -
    note hu = bspec [OF hus(3) that, unfolded prod.case]
    then have h: "h \<notin> set (bh # U)" "(A(bh \<mapsto> block_header block)) h = None" "ParentHash u \<noteq> ?p"
      by blast+
    obtain parent where p: "(A(bh \<mapsto> block_header block)) (ParentHash u) = Some parent"
      "verifyHeader env engine chain u (Some parent) ((A(bh \<mapsto> block_header block)) (ParentHash parent)) True True = Ret None"
      using hu by blast
    have "ParentHash u = bh \<or> Number (block_header block) - 7 \<le> Number parent \<and> Number parent \<le> Number (block_header block) - 2"
    proof (cases "ParentHash u = bh")
      case False
      then have "A (ParentHash u) = Some parent"
        using p(1) by simp
      then obtain j where "j < 7" "Number parent = uint ?n - int j" "j = 0 \<longrightarrow> ParentHash u = ?p"
        using G(4) by auto
      then show ?thesis
        using un1 h(3) by auto
    qed simp
    moreover have "A h = None" "h \<notin> set U" "h \<noteq> bh"
      using h by (auto split: if_splits)
    moreover have "(\<forall>b'. Block_Hash (env_hashes env) b \<noteq> Ret (h, b')) \<and> (\<forall>u \<in> set (block_uncles b). \<forall>u'. uncleHash env chain u \<noteq> Ret (h, u'))"
      if "b \<in> set (ancestors_of chain block)" for b
      using G(5) [OF that [unfolded ancestors_of_def]] \<open>A h = None\<close> \<open>h \<notin> set U\<close> by (fastforce simp: dom_def)
    ultimately show ?thesis
      unfolding valid_uncle_def A using p h(3) by blast
  qed
  then show ?thesis
    using len bh hus(1,2) by blast
qed

section \<open>Credited rewards\<close>

text \<open>The amounts a block mints: one for each uncle, and one for the block.\<close>

definition credits :: "int \<Rightarrow> Header \<Rightarrow> Header list \<Rightarrow> (address \<times> int) list" where
  "credits R header uncles =
     map (\<lambda>u. (Coinbase u, big_Div ((Number u + 8 - Number header) * R) 8)) uncles @
     [(Coinbase header, R + int (length uncles) * big_Div R 32)]"

lemma rewardUncles_eq:
  "rewardUncles be R header uncles reward s =
     (reward + int (length uncles) * big_Div R 32,
      foldl (\<lambda>s (a, x). AddBalance be a x s) s (map (\<lambda>u. (Coinbase u, big_Div ((Number u + 8 - Number header) * R) 8)) uncles))"
  by (induction uncles arbitrary: reward s) (simp_all add: algebra_simps)

lemma accumulateRewards_eq:
  "accumulateRewards be config header uncles s =
     (if Number header < 42000000 then foldl (\<lambda>s (a, x). AddBalance be a x s) s (credits (blockReward config header) header uncles) else s)"
  by (simp add: accumulateRewards_def rewardUncles_eq credits_def Let_def)

lemma blockReward_cases: "blockReward config header \<in> {1000000000000000000, 3000000000000000000, 5000000000000000000}"
  by (simp add: blockReward_def ethReward_def)

lemma uncle_credit:
  assumes "8 dvd R" "0 < R" "n - 6 \<le> u" "u \<le> n - 1"
  shows "R div 4 \<le> big_Div ((u + 8 - n) * R) 8" "big_Div ((u + 8 - n) * R) 8 \<le> 7 * (R div 8)"
proof -
  obtain k where k: "R = 8 * k" "0 < k"
    using assms(1,2) by (auto elim: dvdE)
  have e: "big_Div ((u + 8 - n) * R) 8 = (u + 8 - n) * k"
    using k by (simp add: big_Div_def)
  have "2 * k \<le> (u + 8 - n) * k" "(u + 8 - n) * k \<le> 7 * k"
    using assms(3,4) k(2) by (simp_all add: mult_right_mono)
  then show "R div 4 \<le> big_Div ((u + 8 - n) * R) 8" "big_Div ((u + 8 - n) * R) 8 \<le> 7 * (R div 8)"
    using e k by simp_all
qed

lemma sum_credits:
  assumes "\<And>u. u \<in> set uncles \<Longrightarrow> Number header - 6 \<le> Number u \<and> Number u \<le> Number header - 1" "32 dvd R" "0 < R"
  shows "\<forall>(a, x) \<in> set (credits R header uncles). 0 < x"
    "sum_list (map snd (credits R header uncles)) \<le> R + int (length uncles) * (R div 32 + 7 * (R div 8))"
proof -
  have d: "8 dvd R" "big_Div R 32 = R div 32"
    using assms(2,3) by (auto simp: big_Div_def intro: dvd_trans [of 8 32])
  note c = uncle_credit [OF d(1) assms(3)]
  have "0 < R div 4"
    using assms(2,3) by (auto elim: dvdE)
  moreover have "0 \<le> R div 32"
    using assms(3) by simp
  ultimately show "\<forall>(a, x) \<in> set (credits R header uncles). 0 < x"
    using c(1) assms(1,3) d(2) by (fastforce simp: credits_def intro: add_pos_nonneg)
  have "sum_list (map (\<lambda>u. big_Div ((Number u + 8 - Number header) * R) 8) uncles) \<le> int (length uncles) * (7 * (R div 8))"
    using assms(1)
  proof (induction uncles)
    case (Cons u us)
    then show ?case
      using c(2) [of "Number header" "Number u"] by (simp add: algebra_simps)
  qed simp
  then show "sum_list (map snd (credits R header uncles)) \<le> R + int (length uncles) * (R div 32 + 7 * (R div 8))"
    by (simp add: credits_def d(2) comp_def algebra_simps)
qed

section \<open>Properties\<close>

text \<open>
  C13: Header verification implements the header rules. For a parent whose gas limit is below 2^63, as
  it is for every accepted header, \<open>verifyHeader\<close> accepts a header exactly when its extra data has at
  most 32 bytes, its time is later than the parent's and not more than 15 seconds ahead, its
  difficulty is the one \<open>CalcDifficulty\<close> demands, it uses no more gas than its limit, the limit is between
  5000 and 2^63 - 1 and less than a 1024th of the parent's away from it (the signed 64-bit difference in
  the code is exact), its number follows the parent's, and its seal is valid if that is to be checked.
\<close>

theorem verifyHeader_implements_rules:
  assumes "uint (GasLimit parent) < 2 ^ 63"
  shows "verifyHeader env engine chain header (Some parent) grandparent False seal = Ret None \<longleftrightarrow>
    length (Extra header) \<le> 32 \<and> Time parent < Time header \<and> Time header \<le> env_now env + 15 \<and>
    engine_CalcDifficulty env chain (Uint64 (Time header)) parent grandparent = Ret (Difficulty header) \<and>
    GasUsed header \<le> GasLimit header \<and> 5000 \<le> uint (GasLimit header) \<and> uint (GasLimit header) < 2 ^ 63 \<and>
    \<bar>uint (GasLimit parent) - uint (GasLimit header)\<bar> < uint (GasLimit parent) div 1024 \<and>
    Number header = Number parent + 1 \<and> (seal \<longrightarrow> VerifySeal env engine header = Ret None)"
  unfolding verifyHeader_iff [OF assms] valid_header_def by auto

definition sample_env :: Env where
  "sample_env = \<lparr>env_hashes = sample_hashes, env_EmptyUncleHash = 0, env_hashimotoLight = (\<lambda>_ _ _ _. (0, [])), env_now = 2000\<rparr>"

definition sample_header :: Header where
  "sample_header =
     \<lparr>ParentHash = 1, UncleHash = 2, Coinbase = 3, Root = 4, TxHash = 5, ReceiptHash = 6, Bloom = 0,
      Difficulty = 100000000, Number = 1, GasLimit = 4200000, GasUsed = 0, Time = 1000, Extra = [], MixDigest = 0, Nonce = 0, Version = 1\<rparr>"

definition sample_chain :: ChainReader where
  "sample_chain = \<lparr>ch_Config = MainnetChainConfig, ch_GetHeader = (\<lambda>_ _. None), ch_GetBlock = (\<lambda>_ _. None)\<rparr>"

theorem verifyHeader_implements_rules_witness:
  "verifyHeader sample_env (Aquahash ModeFake 0 None) sample_chain
     (sample_header\<lparr>Number := 2, GasLimit := 4200000 + 5000, Time := 1500\<rparr>) (Some sample_header) None False False \<noteq> Ret None"
proof
  assume *: "verifyHeader sample_env (Aquahash ModeFake 0 None) sample_chain
     (sample_header\<lparr>Number := 2, GasLimit := 4200000 + 5000, Time := 1500\<rparr>) (Some sample_header) None False False = Ret None"
  have "uint (GasLimit sample_header) < 2 ^ 63"
    by (simp add: sample_header_def)
  from verifyHeader_implements_rules [OF this, THEN iffD1, OF *] show False
    by (simp add: sample_header_def)
qed

text \<open>
  C10: A block is rewarded for each uncle once, and only for recent ones. If \<open>VerifyUncles\<close> accepts a
  block above height 15008, it has at most two uncles, one from hard fork 5 on; they have distinct hashes;
  and each is neither the block itself, nor one of the last seven ancestors, nor an uncle of
  one of them, and is no sibling of the block. The parent hash of an uncle is the hash of one of the last seven ancestors (or of the
  block itself), two to seven generations back, and the header of the uncle, seal included, passes \<open>verifyHeader\<close> as
  the child of just that ancestor, with the ancestor its parent names as the grandparent.
\<close>

theorem VerifyUncles_sound:
  assumes "VerifyUncles env engine chain block = Ret None" and "PowMode_of engine \<noteq> ModeFullFake" and "chain_ok env chain"
    and "15008 < Number (block_header block)" and "Number (block_header block) < 2 ^ 64"
  shows "length (block_uncles block) \<le> 2 \<and> (IsHF (ch_Config chain) 5 (Some (Number (block_header block))) \<longrightarrow> length (block_uncles block) \<le> 1) \<and>
    (\<exists>bh b' hus. Block_Hash (env_hashes env) block = Ret (bh, b') \<and> list_all2 (\<lambda>u hu. uncleHash env chain u = Ret hu) (block_uncles block) hus \<and>
       distinct (map fst hus) \<and> (\<forall>(h, u) \<in> set hus. valid_uncle env engine chain block bh h u))"
  by (rule VerifyUncles_ok [OF assms])

text \<open>A chain of two blocks on the main network, and a block on top of it with an uncle, the child of the first.\<close>

definition sample_grandparent :: Block where
  "sample_grandparent = \<lparr>block_header = sample_header\<lparr>Number := 49998, Version := 2, ParentHash := 74\<rparr>, block_uncles = [],
     block_transactions = [], block_hash = Some 75\<rparr>"

definition sample_parent_block :: Block where
  "sample_parent_block = \<lparr>block_header = sample_header\<lparr>Number := 49999, Version := 2, ParentHash := 75\<rparr>, block_uncles = [],
     block_transactions = [], block_hash = Some 76\<rparr>"

definition sample_uncle :: Header where
  "sample_uncle = sample_header\<lparr>Number := 49999, Version := 2, ParentHash := 75, Time := 1100, Difficulty := 100781250\<rparr>"

definition sample_block :: Block where
  "sample_block = \<lparr>block_header = sample_header\<lparr>Number := 50000, Version := 2, ParentHash := 76\<rparr>, block_uncles = [sample_uncle],
     block_transactions = [], block_hash = Some 77\<rparr>"

definition sample_uncle_chain :: ChainReader where
  "sample_uncle_chain = \<lparr>ch_Config = MainnetChainConfig, ch_GetHeader = (\<lambda>_ _. None),
     ch_GetBlock = (\<lambda>h n. if h = 76 \<and> n = 49999 then Some sample_parent_block else if h = 75 \<and> n = 49998 then Some sample_grandparent else None)\<rparr>"

lemma sample_uncleHash: "uncleHash sample_env sample_uncle_chain sample_uncle = Ret (1, sample_uncle)"
proof -
  have "GetBlockVersion (ch_Config sample_uncle_chain) (Some (Number sample_uncle)) = Ret 2"
    by code_simp
  then show ?thesis
    by (simp add: uncleHash_def Header_SetVersion_def Header_Hash_def rlpHash_def VersionHash_def sample_env_def sample_hashes_def sample_uncle_def sample_header_def)
qed

lemma sample_uncle_verified:
  "verifyHeader sample_env (Aquahash ModeFake 0 None) sample_uncle_chain sample_uncle (Some (block_header sample_grandparent)) None True True = Ret None"
proof -
  have "engine_CalcDifficulty sample_env sample_uncle_chain (Uint64 (Time sample_uncle)) (block_header sample_grandparent) None = Ret 100781250"
    by code_simp
  then show ?thesis
    by (simp add: verifyHeader_def Let_def) (simp add: sample_uncle_def sample_grandparent_def sample_header_def Uint64_def)
qed

lemma sample_uncles_accepted: "VerifyUncles sample_env (Aquahash ModeFake 0 None) sample_uncle_chain sample_block = Ret None"
proof -
  have "gatherAncestors sample_env sample_uncle_chain 7 76 49999 (Map.empty, []) =
      Ret (([76 \<mapsto> block_header sample_parent_block, 75 \<mapsto> block_header sample_grandparent], []), 49997)"
    by (simp add: numeral_eq_Suc sample_uncle_chain_def sample_parent_block_def sample_grandparent_def Block_Hash_def)
  moreover have "ParentHash (block_header sample_block) = 76" "Uint64 (Number (block_header sample_block)) = 50000"
    "block_uncles sample_block = [sample_uncle]" "Block_Hash (env_hashes sample_env) sample_block = Ret (77, sample_block)"
    "Version (block_header sample_block) = 2"
    by (simp_all add: sample_block_def sample_header_def Uint64_def Block_Hash_def)
  ultimately show ?thesis
    using sample_uncleHash sample_uncle_verified by (simp add: VerifyUncles_def Let_def) (simp add: sample_uncle_def sample_grandparent_def)
qed

lemma sample_uncle_chain_ok: "chain_ok sample_env sample_uncle_chain"
  by (simp add: chain_ok_def sample_uncle_chain_def sample_parent_block_def sample_grandparent_def sample_header_def Block_Hash_def)

theorem VerifyUncles_sound_witness:
  "VerifyUncles sample_env (Aquahash ModeFake 0 None) sample_uncle_chain sample_block = Ret None \<and> length (block_uncles sample_block) = 1 \<and>
   valid_uncle sample_env (Aquahash ModeFake 0 None) sample_uncle_chain sample_block 77 1 sample_uncle"
proof -
  have b: "Block_Hash (env_hashes sample_env) sample_block = Ret (77, sample_block)" "block_uncles sample_block = [sample_uncle]"
    "Number (block_header sample_block) = 50000"
    by (simp_all add: sample_block_def sample_header_def Block_Hash_def)
  from VerifyUncles_sound [OF sample_uncles_accepted _ sample_uncle_chain_ok] show ?thesis
    using sample_uncles_accepted sample_uncleHash b by (auto simp: list_all2_Cons1)
qed

text \<open>
  C11: The coins a block mints are bounded. If the uncles of a block above height 15008 (below it some
  uncles were let through) were accepted and
  none of them claims the block itself as its parent (its reward would not be bounded by the distance), every amount \<open>accumulateRewards\<close> credits is
  positive and their sum is at most the block reward plus 29/32 of it for each uncle; from block 42000000 on
  nothing is credited.
\<close>

theorem rewards_bounded:
  assumes "VerifyUncles env engine chain block = Ret None" and "PowMode_of engine \<noteq> ModeFullFake" and "chain_ok env chain"
    and "15008 < Number (block_header block)" and "Number (block_header block) < 2 ^ 64"
    and "\<forall>u \<in> set (block_uncles block). \<forall>bh b'. Block_Hash (env_hashes env) block = Ret (bh, b') \<longrightarrow> ParentHash u \<noteq> bh"
    and "R = blockReward (ch_Config chain) (block_header block)" and "cs = credits R (block_header block) (block_uncles block)"
  shows "accumulateRewards be (ch_Config chain) (block_header block) (block_uncles block) s =
      (if Number (block_header block) < 42000000 then foldl (\<lambda>s (a, x). AddBalance be a x s) s cs else s) \<and>
    (\<forall>(a, x) \<in> set cs. 0 < x) \<and> 32 * sum_list (map snd cs) \<le> R * (32 + 29 * int (length (block_uncles block)))"
proof -
  have R: "32 dvd R" "0 < R"
    using blockReward_cases [of "ch_Config chain" "block_header block"] assms(7) by auto
  obtain bh b' hus where v: "Block_Hash (env_hashes env) block = Ret (bh, b')" "list_all2 (\<lambda>u hu. uncleHash env chain u = Ret hu) (block_uncles block) hus"
    "\<forall>(h, u) \<in> set hus. valid_uncle env engine chain block bh h u"
    using VerifyUncles_ok [OF assms(1-5)] by blast
  have "Number (block_header block) - 6 \<le> Number u \<and> Number u \<le> Number (block_header block) - 1" if "u \<in> set (block_uncles block)" for u
  proof -
    obtain i where "i < length (block_uncles block)" "block_uncles block ! i = u"
      using \<open>u \<in> set (block_uncles block)\<close> by (auto simp: in_set_conv_nth)
    then have i: "i < length hus" "uncleHash env chain u = Ret (hus ! i)"
      using v(2) by (auto simp: list_all2_conv_all_nth)
    obtain h u' where "hus ! i = (h, u')"
      by (cases "hus ! i")
    then have hu: "(h, u') \<in> set hus" "uncleHash env chain u = Ret (h, u')"
      using i nth_mem [of i hus] by simp_all
    then have "Number u' = Number u" "ParentHash u' = ParentHash u"
      by (auto simp: uncleHash_def Header_SetVersion_def Let_def)
    moreover have "valid_uncle env engine chain block bh h u'"
      using v(3) hu(1) by blast
    ultimately show ?thesis
      using assms(6) that v(1) verifyHeader_number unfolding valid_uncle_def Let_def by fastforce
  qed
  then show ?thesis
    using sum_credits [OF _ R, of "block_uncles block" "block_header block"] R(1) assms(7,8) accumulateRewards_eq [of be "ch_Config chain" "block_header block"]
    by (auto elim!: dvdE simp: algebra_simps)
qed

theorem rewards_bounded_witness:
  "\<exists>cs. cs = credits 1000000000000000000 (block_header sample_block) [sample_uncle] \<and> cs = [(3, 875000000000000000), (3, 1031250000000000000)] \<and>
     32 * sum_list (map snd cs) \<le> 1000000000000000000 * (32 + 29) \<and>
     accumulateRewards sample_backend MainnetChainConfig (block_header sample_block) [sample_uncle] sample_state =
       foldl (\<lambda>s (a, x). AddBalance sample_backend a x s) sample_state cs"
proof -
  have "blockReward MainnetChainConfig (block_header sample_block) = 1000000000000000000"
    by code_simp
  moreover have "credits 1000000000000000000 (block_header sample_block) [sample_uncle] = [(3, 875000000000000000), (3, 1031250000000000000)]"
    by code_simp
  moreover have "ParentHash sample_uncle = 75" "Number (block_header sample_block) = 50000" "block_uncles sample_block = [sample_uncle]"
    "Block_Hash (env_hashes sample_env) sample_block = Ret (77, sample_block)" "ch_Config sample_uncle_chain = MainnetChainConfig"
    by (simp_all add: sample_uncle_def sample_block_def sample_header_def Block_Hash_def sample_uncle_chain_def)
  ultimately show ?thesis
    using rewards_bounded [OF sample_uncles_accepted _ sample_uncle_chain_ok _ _ _ refl refl, of sample_backend sample_state] by simp
qed

end
