(* ===== verification/Aquahash_Headers.thy ===== *)
theory Aquahash_Headers
  imports Aquahash_Engine "HOL-Library.Multiset"
begin

text \<open>
  The concurrent verification of a batch of headers (\<open>VerifyHeaders\<close> of \<open>consensus/aquahash/consensus.go\<close>)
  as a step relation: workers take indices from an unbuffered channel, verify, and report on a
  channel with as many places as there are workers; the coordinator hands out indices, collects the
  reports and delivers the results in the order of the headers. The order of the steps is the
  scheduler's. The channel of results has a place for every header, so that delivering never waits.

  Without an abort every run ends after at most four steps for each header, with all results delivered in
  order; after an abort a worker may be left waiting for ever.
\<close>

section \<open>The scheduler\<close>

datatype worker = Idle | Busy nat | Reporting nat

record scheduler =
  vh_in :: nat
  vh_out :: nat
  vh_checked :: "bool list"
  vh_done :: "nat list"
  vh_errors :: "engine_err option list"
  vh_workers :: "worker list"
  vh_results :: "engine_err option list"
  vh_running :: bool

text \<open>The loop that delivers the results that are due; it ends the coordinator after the last one.\<close>

function deliver :: "nat \<Rightarrow> scheduler \<Rightarrow> scheduler" where
  "deliver n s =
     (if vh_out s < n \<and> vh_checked s ! vh_out s then
        let s = s\<lparr>vh_results := vh_results s @ [vh_errors s ! vh_out s]\<rparr> in
        if vh_out s = n - 1 then s\<lparr>vh_running := False\<rparr> else deliver n (s\<lparr>vh_out := Suc (vh_out s)\<rparr>)
      else s)"
  by pat_completeness auto
termination
  by (relation "measure (\<lambda>(n, s). n - vh_out s)") auto

declare deliver.simps [simp del]

definition receive :: "nat \<Rightarrow> scheduler \<Rightarrow> scheduler" where
  "receive n s =
     (case vh_done s of
        [] \<Rightarrow> s
      | i # q \<Rightarrow> deliver n (s\<lparr>vh_done := q, vh_checked := (vh_checked s)[i := True]\<rparr>))"

text \<open>
  The steps: handing out an index, verifying, reporting, collecting a report, and an abort by the
  caller, which is possible only if \<open>ab\<close>. \<open>f\<close> is the verification of an index, \<open>n\<close> the number of headers.
\<close>

inductive vh_step :: "(nat \<Rightarrow> verdict) \<Rightarrow> nat \<Rightarrow> bool \<Rightarrow> scheduler \<Rightarrow> scheduler \<Rightarrow> bool" for f n ab where
  vh_send: "vh_running s \<Longrightarrow> vh_in s < n \<Longrightarrow> w < length (vh_workers s) \<Longrightarrow> vh_workers s ! w = Idle \<Longrightarrow>
    vh_step f n ab s (s\<lparr>vh_in := Suc (vh_in s), vh_workers := (vh_workers s)[w := Busy (vh_in s)]\<rparr>)"
| vh_verify: "w < length (vh_workers s) \<Longrightarrow> vh_workers s ! w = Busy i \<Longrightarrow> f i = Ret e \<Longrightarrow>
    vh_step f n ab s (s\<lparr>vh_errors := (vh_errors s)[i := e], vh_workers := (vh_workers s)[w := Reporting i]\<rparr>)"
| vh_report: "w < length (vh_workers s) \<Longrightarrow> vh_workers s ! w = Reporting i \<Longrightarrow> length (vh_done s) < length (vh_workers s) \<Longrightarrow>
    vh_step f n ab s (s\<lparr>vh_done := vh_done s @ [i], vh_workers := (vh_workers s)[w := Idle]\<rparr>)"
| vh_receive: "vh_running s \<Longrightarrow> vh_done s \<noteq> [] \<Longrightarrow> vh_step f n ab s (receive n s)"
| vh_abort: "ab \<Longrightarrow> vh_running s \<Longrightarrow> vh_step f n ab s (s\<lparr>vh_running := False\<rparr>)"

text \<open>
  The state in which \<open>VerifyHeaders\<close> returns to its caller; \<open>procs\<close> is the number of threads. A header without
  version is a panic.
\<close>

definition VerifyHeaders :: "Aquahash \<Rightarrow> Header list \<Rightarrow> nat \<Rightarrow> scheduler go" where
  "VerifyHeaders engine headers procs =
     (let n = length headers;
          s = \<lparr>vh_in = 0, vh_out = 0, vh_checked = replicate n False, vh_done = [], vh_errors = replicate n None,
               vh_workers = replicate (if n < procs then n else procs) Idle, vh_results = [], vh_running = True\<rparr>
      in if PowMode_of engine = ModeFullFake \<or> n = 0 then
           Ret (s\<lparr>vh_results := replicate n None, vh_workers := [], vh_running := False\<rparr>)
         else if list_ex (\<lambda>h. Version h = 0) headers then Panic
         else Ret s)"

section \<open>Runs of bounded length\<close>

text \<open>A system whose steps raise a weight with a bound, and that can go on until it is final.\<close>

locale bounded_run =
  fixes step :: "'s \<Rightarrow> 's \<Rightarrow> bool" and inv :: "'s \<Rightarrow> bool" and weight :: "'s \<Rightarrow> nat" and bound :: nat and final :: "'s \<Rightarrow> bool"
  assumes inv_step: "inv s \<Longrightarrow> step s s' \<Longrightarrow> inv s'"
    and weight_step: "inv s \<Longrightarrow> step s s' \<Longrightarrow> weight s < weight s'"
    and weight_bound: "inv s \<Longrightarrow> weight s \<le> bound"
    and progress: "inv s \<Longrightarrow> \<not> final s \<Longrightarrow> \<exists>s'. step s s'"
begin

lemma run_weight: "(step ^^ k) s s' \<Longrightarrow> inv s \<Longrightarrow> inv s' \<and> weight s + k \<le> weight s'"
proof (induction k arbitrary: s')
  case (Suc k)
  then obtain t where t: "(step ^^ k) s t" "step t s'"
    by auto
  then have "inv t \<and> weight s + k \<le> weight t"
    using Suc by blast
  then show ?case
    using inv_step weight_step t(2) by fastforce
qed auto

lemma run_length: "(step ^^ k) s s' \<Longrightarrow> inv s \<Longrightarrow> k \<le> bound"
  using run_weight weight_bound by fastforce

lemma stuck_final: "(step ^^ k) s s' \<Longrightarrow> inv s \<Longrightarrow> \<nexists>t. step s' t \<Longrightarrow> final s'"
  using run_weight progress by blast

lemma reaches_final: "inv s \<Longrightarrow> \<exists>s'. step\<^sup>*\<^sup>* s s' \<and> final s'"
proof (induction "bound - weight s" arbitrary: s rule: less_induct)
  case less
  show ?case
  proof (cases "final s")
    case False
    then obtain t where t: "step s t"
      using progress less.prems by blast
    then have "bound - weight t < bound - weight s"
      using weight_step [OF less.prems t] weight_bound [OF inv_step [OF less.prems t]] by linarith
    then show ?thesis
      using less.hyps [OF _ inv_step [OF less.prems t]] t converse_rtranclp_into_rtranclp [of step] by blast
  qed blast
qed

end

section \<open>The invariant\<close>

fun holding :: "worker \<Rightarrow> nat list" where
  "holding Idle = []"
| "holding (Busy i) = [i]"
| "holding (Reporting i) = [i]"

fun reporting :: "worker \<Rightarrow> nat list" where
  "reporting (Reporting i) = [i]"
| "reporting _ = []"

definition checked_set :: "scheduler \<Rightarrow> nat set" where
  "checked_set s = {i. i < length (vh_checked s) \<and> vh_checked s ! i}"

text \<open>Where the indices handed out are: with a worker, in the channel of reports, or checked off.\<close>

definition placed :: "scheduler \<Rightarrow> nat multiset" where
  "placed s = mset (concat (map holding (vh_workers s))) + mset (vh_done s) + mset_set (checked_set s)"

definition verified :: "scheduler \<Rightarrow> nat set" where
  "verified s = set (concat (map reporting (vh_workers s))) \<union> set (vh_done s) \<union> checked_set s"

definition results_upto :: "(nat \<Rightarrow> verdict) \<Rightarrow> scheduler \<Rightarrow> nat \<Rightarrow> bool" where
  "results_upto f s k \<longleftrightarrow> map Ret (vh_results s) = map f [0..<k]"

definition vh_inv :: "(nat \<Rightarrow> verdict) \<Rightarrow> nat \<Rightarrow> bool \<Rightarrow> scheduler \<Rightarrow> bool" where
  "vh_inv f n ab s \<longleftrightarrow>
     length (vh_checked s) = n \<and> length (vh_errors s) = n \<and> vh_workers s \<noteq> [] \<and>
     vh_in s \<le> n \<and> placed s = mset [0..<vh_in s] \<and> (\<forall>i \<in> verified s. f i = Ret (vh_errors s ! i)) \<and>
     (\<forall>i < vh_out s. vh_checked s ! i) \<and>
     (if vh_running s then vh_out s < n \<and> \<not> vh_checked s ! vh_out s \<and> results_upto f s (vh_out s)
      else \<exists>k \<le> n. results_upto f s k \<and> (k = n \<or> ab))"

lemma results_upto_update [simp]:
  "results_upto f (s\<lparr>vh_in := a\<rparr>) k = results_upto f s k" "results_upto f (s\<lparr>vh_out := a\<rparr>) k = results_upto f s k"
  "results_upto f (s\<lparr>vh_workers := ws\<rparr>) k = results_upto f s k" "results_upto f (s\<lparr>vh_errors := es\<rparr>) k = results_upto f s k"
  "results_upto f (s\<lparr>vh_done := q\<rparr>) k = results_upto f s k" "results_upto f (s\<lparr>vh_checked := cs\<rparr>) k = results_upto f s k"
  "results_upto f (s\<lparr>vh_running := r\<rparr>) k = results_upto f s k"
  by (simp_all add: results_upto_def)

lemma concat_update:
  assumes "w < length ws"
  shows "mset (concat (map g (ws[w := x]))) + mset (g (ws ! w)) = mset (concat (map g ws)) + mset (g x)"
  using assms
proof (induction ws arbitrary: w)
  case (Cons a ws)
  then show ?case
    by (cases w) (simp_all add: ac_simps)
qed simp

lemmas concat_update_size = arg_cong [OF concat_update, where f = size, simplified size_union size_mset]
lemmas concat_update_set = arg_cong [OF concat_update, where f = set_mset, simplified set_mset_union set_mset_mset]

lemma checked_finite [simp]: "finite (checked_set s)"
  by (simp add: checked_set_def)

lemma checked_update:
  assumes "i < length (vh_checked s)"
  shows "checked_set (s\<lparr>vh_done := q, vh_checked := (vh_checked s)[i := True]\<rparr>) = insert i (checked_set s)"
  using assms by (auto simp: checked_set_def nth_list_update)

text \<open>An index is in one place only.\<close>

lemma placed_count: "vh_inv f n ab s \<Longrightarrow> count (placed s) i = (if i < vh_in s then 1 else 0)"
  by (auto simp: vh_inv_def count_mset_set atLeast0LessThan simp flip: mset_set_upto_eq_mset_upto)

lemma deliver_ok:
  assumes "vh_out s < n" "length (vh_checked s) = n" "vh_running s" "\<forall>i < vh_out s. vh_checked s ! i" "results_upto f s (vh_out s)"
    and "\<forall>i < n. vh_checked s ! i \<longrightarrow> f i = Ret (vh_errors s ! i)"
  shows "\<exists>out res run. deliver n s = s\<lparr>vh_out := out, vh_results := res, vh_running := run\<rparr> \<and> (\<forall>i < out. vh_checked s ! i) \<and>
    (if run then out < n \<and> \<not> vh_checked s ! out \<and> map Ret res = map f [0..<out] else map Ret res = map f [0..<n])"
  using assms
proof (induction "n - vh_out s" arbitrary: s rule: less_induct)
  case less
  let ?s = "s\<lparr>vh_results := vh_results s @ [vh_errors s ! vh_out s]\<rparr>"
  show ?case
  proof (cases "vh_checked s ! vh_out s")
    case False
    then have "deliver n s = s\<lparr>vh_out := vh_out s, vh_results := vh_results s, vh_running := True\<rparr>"
      using less.prems(3) by (simp add: deliver.simps)
    then show ?thesis
      using less.prems False by (intro exI [of _ "vh_out s"] exI [of _ "vh_results s"] exI [of _ True]) (simp add: results_upto_def)
  next
    case checked: True
    then have res: "map Ret (vh_results ?s) = map f [0..<Suc (vh_out s)]"
      using less.prems by (simp add: results_upto_def)
    show ?thesis
    proof (cases "vh_out s = n - 1")
      case True
      then have "deliver n s = s\<lparr>vh_out := vh_out s, vh_results := vh_results ?s, vh_running := False\<rparr>" "Suc (vh_out s) = n"
        using less.prems(1) checked by (simp_all add: deliver.simps Let_def)
      then show ?thesis
        using less.prems(4) res by metis
    next
      case False
      then have run: "deliver n s = deliver n (?s\<lparr>vh_out := Suc (vh_out s)\<rparr>)"
        using less.prems(1) checked by (subst deliver.simps) simp
      have "\<exists>out res run. deliver n (?s\<lparr>vh_out := Suc (vh_out s)\<rparr>) = (?s\<lparr>vh_out := Suc (vh_out s)\<rparr>)\<lparr>vh_out := out, vh_results := res, vh_running := run\<rparr> \<and>
          (\<forall>i < out. vh_checked (?s\<lparr>vh_out := Suc (vh_out s)\<rparr>) ! i) \<and>
          (if run then out < n \<and> \<not> vh_checked (?s\<lparr>vh_out := Suc (vh_out s)\<rparr>) ! out \<and> map Ret res = map f [0..<out] else map Ret res = map f [0..<n])"
        by (rule less.hyps) (use less.prems checked False res in \<open>auto simp: results_upto_def less_Suc_eq\<close>)
      then obtain out res r where d: "deliver n (?s\<lparr>vh_out := Suc (vh_out s)\<rparr>) = (?s\<lparr>vh_out := Suc (vh_out s)\<rparr>)\<lparr>vh_out := out, vh_results := res, vh_running := r\<rparr>"
        "\<forall>i < out. vh_checked (?s\<lparr>vh_out := Suc (vh_out s)\<rparr>) ! i"
        "if r then out < n \<and> \<not> vh_checked (?s\<lparr>vh_out := Suc (vh_out s)\<rparr>) ! out \<and> map Ret res = map f [0..<out] else map Ret res = map f [0..<n]"
        by blast
      show ?thesis
        unfolding run d(1) using d(2,3) by (intro exI [of _ out] exI [of _ res] exI [of _ r]) (cases r; simp)
    qed
  qed
qed

lemma vh_inv_send:
  assumes "vh_inv f n ab s" "vh_running s" "vh_in s < n" "w < length (vh_workers s)" "vh_workers s ! w = Idle"
  shows "vh_inv f n ab (s\<lparr>vh_in := Suc (vh_in s), vh_workers := (vh_workers s)[w := Busy (vh_in s)]\<rparr>)"
proof -
  have "placed (s\<lparr>vh_in := Suc (vh_in s), vh_workers := (vh_workers s)[w := Busy (vh_in s)]\<rparr>) = add_mset (vh_in s) (placed s)"
    using concat_update [OF assms(4), of holding "Busy (vh_in s)"] assms(5) by (simp add: placed_def checked_set_def)
  moreover have "verified (s\<lparr>vh_in := Suc (vh_in s), vh_workers := (vh_workers s)[w := Busy (vh_in s)]\<rparr>) = verified s"
    using concat_update_set [OF assms(4), of reporting "Busy (vh_in s)"] assms(5) by (simp add: verified_def checked_set_def)
  ultimately show ?thesis
    using assms by (simp add: vh_inv_def)
qed

lemma vh_inv_verify:
  assumes "vh_inv f n ab s" "w < length (vh_workers s)" "vh_workers s ! w = Busy i" "f i = Ret e"
  shows "vh_inv f n ab (s\<lparr>vh_errors := (vh_errors s)[i := e], vh_workers := (vh_workers s)[w := Reporting i]\<rparr>)"
proof -
  let ?s = "s\<lparr>vh_errors := (vh_errors s)[i := e], vh_workers := (vh_workers s)[w := Reporting i]\<rparr>"
  have "placed ?s = placed s"
    using concat_update [OF assms(2), of holding "Reporting i"] assms(3) by (simp add: placed_def checked_set_def)
  moreover have "verified ?s = insert i (verified s)"
    using concat_update_set [OF assms(2), of reporting "Reporting i"] assms(3) by (simp add: verified_def checked_set_def)
  moreover have "i \<in># placed s"
    using assms(2,3) nth_mem [OF assms(2)] by (force simp: placed_def)
  then have "i < n"
    using placed_count [OF assms(1), of i] assms(1) by (auto simp: vh_inv_def count_eq_zero_iff [symmetric] split: if_splits)
  then have "f j = Ret ((vh_errors s)[i := e] ! j)" if "j \<in> insert i (verified s)" for j
    using that assms by (cases "j = i") (auto simp: vh_inv_def)
  ultimately show ?thesis
    using assms(1) by (simp add: vh_inv_def)
qed

lemma vh_inv_report:
  assumes "vh_inv f n ab s" "w < length (vh_workers s)" "vh_workers s ! w = Reporting i"
  shows "vh_inv f n ab (s\<lparr>vh_done := vh_done s @ [i], vh_workers := (vh_workers s)[w := Idle]\<rparr>)"
proof -
  let ?s = "s\<lparr>vh_done := vh_done s @ [i], vh_workers := (vh_workers s)[w := Idle]\<rparr>"
  have "placed ?s = placed s"
    using concat_update [OF assms(2), of holding Idle] assms(3) by (simp add: placed_def checked_set_def)
  moreover have "verified ?s = verified s"
    using concat_update_set [OF assms(2), of reporting Idle] assms(3) by (auto simp: verified_def checked_set_def)
  ultimately show ?thesis
    using assms(1) by (simp add: vh_inv_def)
qed

lemma vh_inv_receive:
  assumes inv: "vh_inv f n ab s" and run: "vh_running s" and q: "vh_done s = i # q"
  shows "vh_inv f n ab (receive n s)" "i < n" "i \<notin> checked_set s"
    "\<exists>out res r. receive n s = s\<lparr>vh_done := q, vh_checked := (vh_checked s)[i := True], vh_out := out, vh_results := res, vh_running := r\<rparr>"
proof -
  have "i \<in># placed s"
    using q by (simp add: placed_def)
  then show i: "i < n"
    using placed_count [OF inv, of i] inv by (auto simp: vh_inv_def count_eq_zero_iff [symmetric] split: if_splits)
  show notin: "i \<notin> checked_set s"
  proof
    assume "i \<in> checked_set s"
    then have "2 \<le> count (placed s) i"
      using q by (simp add: placed_def count_mset_set)
    then show False
      using placed_count [OF inv, of i] by (simp split: if_splits)
  qed
  let ?s = "s\<lparr>vh_done := q, vh_checked := (vh_checked s)[i := True]\<rparr>"
  have len: "length (vh_checked s) = n"
    using inv by (simp add: vh_inv_def)
  have c: "checked_set ?s = insert i (checked_set s)"
    by (rule checked_update) (use i len in simp)
  have placed: "placed ?s = placed s"
    using q notin unfolding placed_def c by (simp add: ac_simps)
  have verified: "verified ?s = verified s"
    using q unfolding verified_def c by auto
  have ver: "\<forall>j \<in> verified s. f j = Ret (vh_errors s ! j)"
    using inv by (simp add: vh_inv_def)
  have checked: "\<forall>j < n. vh_checked ?s ! j \<longrightarrow> f j = Ret (vh_errors ?s ! j)"
  proof (intro allI impI)
    fix j
    assume "j < n" "vh_checked ?s ! j"
    then have "j \<in> checked_set ?s"
      using len by (simp add: checked_set_def)
    then have "f j = Ret (vh_errors s ! j)"
      using ver verified unfolding verified_def [of ?s] by blast
    then show "f j = Ret (vh_errors ?s ! j)"
      by simp
  qed
  have pre: "vh_out ?s < n" "length (vh_checked ?s) = n" "vh_running ?s" "\<forall>j < vh_out ?s. vh_checked ?s ! j" "results_upto f ?s (vh_out ?s)"
    using inv run i len by (auto simp: vh_inv_def results_upto_def nth_list_update)
  obtain out res r where d: "deliver n ?s = ?s\<lparr>vh_out := out, vh_results := res, vh_running := r\<rparr>" "\<forall>j < out. vh_checked ?s ! j"
    "if r then out < n \<and> \<not> vh_checked ?s ! out \<and> map Ret res = map f [0..<out] else map Ret res = map f [0..<n]"
    using deliver_ok [OF pre checked] by blast
  have rec: "receive n s = ?s\<lparr>vh_out := out, vh_results := res, vh_running := r\<rparr>"
    using q d(1) by (simp add: receive_def)
  then show "\<exists>out res r. receive n s = s\<lparr>vh_done := q, vh_checked := (vh_checked s)[i := True], vh_out := out, vh_results := res, vh_running := r\<rparr>"
    by blast
  have "placed (receive n s) = placed ?s" "verified (receive n s) = verified ?s"
    unfolding rec by (simp_all add: placed_def verified_def checked_set_def)
  then show "vh_inv f n ab (receive n s)"
    using inv d(2,3) placed verified unfolding vh_inv_def by (auto simp: rec results_upto_def)
qed

lemma vh_inv_step:
  assumes "vh_step f n ab s s'" "vh_inv f n ab s"
  shows "vh_inv f n ab s'"
  using assms
proof cases
  case vh_receive
  then show ?thesis
    using vh_inv_receive(1) [OF assms(2)] by (cases "vh_done s") auto
next
  case vh_abort
  then show ?thesis
    using assms(2) unfolding vh_inv_def by (auto simp: placed_def verified_def checked_set_def results_upto_def intro: less_imp_le)
qed (use assms(2) vh_inv_send vh_inv_verify vh_inv_report in blast)+

section \<open>Weight and progress\<close>

definition vh_weight :: "scheduler \<Rightarrow> nat" where
  "vh_weight s =
     vh_in s + (length (concat (map reporting (vh_workers s))) + length (vh_done s) + card (checked_set s)) +
     (length (vh_done s) + card (checked_set s)) + card (checked_set s)"

lemma placed_size:
  assumes "vh_inv f n ab s"
  shows "length (concat (map holding (vh_workers s))) + length (vh_done s) + card (checked_set s) = vh_in s"
proof -
  have "placed s = mset [0..<vh_in s]"
    using assms unfolding vh_inv_def by blast
  then have "size (placed s) = vh_in s"
    by (simp only: size_mset length_upt diff_zero)
  then show ?thesis
    unfolding placed_def by (simp only: size_union size_mset size_mset_set)
qed

lemma reporting_le: "length (concat (map reporting ws)) \<le> length (concat (map holding ws))"
proof (induction ws)
  case (Cons w ws)
  then show ?case
    by (cases w) simp_all
qed simp

lemma vh_weight_bound:
  assumes "vh_inv f n ab s"
  shows "vh_weight s \<le> 4 * n"
proof -
  have "vh_in s \<le> n"
    using assms unfolding vh_inv_def by blast
  then show ?thesis
    using placed_size [OF assms] reporting_le [of "vh_workers s"] unfolding vh_weight_def by linarith
qed

lemma vh_weight_step:
  assumes "vh_step f n False s s'" "vh_inv f n False s"
  shows "vh_weight s < vh_weight s'"
  using assms
proof cases
  case (vh_send w)
  then show ?thesis
    using concat_update_size [of w "vh_workers s" reporting "Busy (vh_in s)"] by (simp add: vh_weight_def checked_set_def)
next
  case (vh_verify w i e)
  then show ?thesis
    using concat_update_size [of w "vh_workers s" reporting "Reporting i"] by (simp add: vh_weight_def checked_set_def)
next
  case (vh_report w i)
  then show ?thesis
    using concat_update_size [of w "vh_workers s" reporting Idle] by (simp add: vh_weight_def checked_set_def)
next
  case vh_receive
  then obtain i q where q: "vh_done s = i # q"
    by (cases "vh_done s") auto
  note r = vh_inv_receive [OF assms(2) vh_receive(2) q]
  obtain out res t where s': "s' = s\<lparr>vh_done := q, vh_checked := (vh_checked s)[i := True], vh_out := out, vh_results := res, vh_running := t\<rparr>"
    using r(4) vh_receive(1) by blast
  have "checked_set s' = insert i (checked_set s)"
    using r(2) assms(2) unfolding s' by (auto simp: checked_set_def vh_inv_def nth_list_update)
  then show ?thesis
    using r(3) q by (simp add: vh_weight_def) (simp add: s')
qed simp

lemma vh_progress:
  assumes "vh_inv f n ab s" "\<forall>i < n. \<exists>e. f i = Ret e" "vh_running s"
  shows "\<exists>s'. vh_step f n False s s'"
proof (rule ccontr)
  assume stuck: "\<nexists>s'. vh_step f n False s s'"
  then have d: "vh_done s = []"
    using vh_receive assms(3) by blast
  have W: "0 < length (vh_workers s)"
    using assms(1) by (simp add: vh_inv_def)
  have "vh_workers s ! w = Idle" if "w < length (vh_workers s)" for w
  proof (cases "vh_workers s ! w")
    case (Busy i)
    then have "i \<in># placed s"
      using that nth_mem [OF that] by (force simp: placed_def)
    then have "i < n"
      using placed_count [OF assms(1), of i] assms(1) by (auto simp: vh_inv_def count_eq_zero_iff [symmetric] split: if_splits)
    then show ?thesis
      using stuck vh_verify [OF that Busy] assms(2) by blast
  next
    case (Reporting i)
    then show ?thesis
      using stuck vh_report [OF that Reporting, of f n False] d W by (auto simp del: not_ex)
  qed simp
  then have idle: "concat (map holding (vh_workers s)) = []" and "vh_workers s ! 0 = Idle"
    using W by (auto simp: in_set_conv_nth)
  then have "\<not> vh_in s < n" "vh_in s \<le> n"
    using stuck vh_send [OF assms(3) _ W, of n f False] assms(1) by (blast, simp add: vh_inv_def)
  then have "vh_in s = n"
    by simp
  then have "mset_set (checked_set s) = mset_set {0..<n}"
    using assms(1) idle d by (simp add: vh_inv_def placed_def)
  then have "checked_set s = {0..<n}"
    by (metis checked_finite finite_atLeastLessThan finite_set_mset_mset_set)
  then show False
    using assms(1,3) by (auto simp: vh_inv_def checked_set_def)
qed

definition no_panic :: "(nat \<Rightarrow> verdict) \<Rightarrow> nat \<Rightarrow> bool" where
  "no_panic f n \<longleftrightarrow> (\<forall>i < n. \<exists>e. f i = Ret e)"

interpretation vh: bounded_run "vh_step f n False" "\<lambda>s. vh_inv f n False s \<and> no_panic f n" vh_weight "4 * n"
    "\<lambda>s. map Ret (vh_results s) = map f [0..<n]" for f n
proof unfold_locales
  fix s
  assume *: "vh_inv f n False s \<and> no_panic f n" "map Ret (vh_results s) \<noteq> map f [0..<n]"
  then have "vh_running s"
    by (auto simp: vh_inv_def results_upto_def split: if_splits)
  then show "\<exists>s'. vh_step f n False s s'"
    using vh_progress * by (auto simp: no_panic_def)
qed (use vh_inv_step vh_weight_step vh_weight_bound in blast)+

lemma vh_inv_VerifyHeaders:
  assumes "VerifyHeaders engine headers procs = Ret s" "0 < procs" "PowMode_of engine \<noteq> ModeFullFake" "headers \<noteq> []"
  shows "vh_inv f (length headers) ab s"
proof -
  let ?w = "if length headers < procs then length headers else procs"
  have c: "concat (map holding (replicate ?w Idle)) = []" "concat (map reporting (replicate ?w Idle)) = []" "replicate ?w Idle \<noteq> []"
    using assms(2,4) by simp_all
  have s: "s = \<lparr>vh_in = 0, vh_out = 0, vh_checked = replicate (length headers) False, vh_done = [], vh_errors = replicate (length headers) None,
               vh_workers = replicate ?w Idle, vh_results = [], vh_running = True\<rparr>"
    using assms(1,3,4) by (simp add: VerifyHeaders_def Let_def split: if_split_asm)
  have "checked_set s = {}"
    by (auto simp: s checked_set_def)
  then have "placed s = {#}" "verified s = {}"
    using c unfolding placed_def verified_def by (simp_all only: s scheduler.simps) simp_all
  then show ?thesis
    using assms(4) c(3) by (simp add: vh_inv_def s results_upto_def)
qed

section \<open>Properties\<close>

text \<open>
  C7: Verifying a batch of headers ends, whatever the scheduler does. If the caller does not abort, a run of
  the coordinator and the workers has at most four steps for each header; it cannot get stuck before all results
  are delivered; from every state it reaches all results can be delivered; and they are the results of the
  headers, in their order.
\<close>

theorem VerifyHeaders_delivers:
  assumes "VerifyHeaders engine headers procs = Ret s" and "0 < procs" and "PowMode_of engine \<noteq> ModeFullFake" and "headers \<noteq> []"
    and "\<forall>i < length headers. \<exists>e. verifyHeaderWorker env engine chain headers seals i = Ret e"
    and "(vh_step (verifyHeaderWorker env engine chain headers seals) (length headers) False ^^ k) s s'"
  shows "k \<le> 4 * length headers \<and>
    ((\<nexists>t. vh_step (verifyHeaderWorker env engine chain headers seals) (length headers) False s' t) \<longrightarrow>
       map Ret (vh_results s') = map (verifyHeaderWorker env engine chain headers seals) [0..<length headers]) \<and>
    (\<exists>t. (vh_step (verifyHeaderWorker env engine chain headers seals) (length headers) False)\<^sup>*\<^sup>* s' t \<and>
       map Ret (vh_results t) = map (verifyHeaderWorker env engine chain headers seals) [0..<length headers])"
proof -
  let ?f = "verifyHeaderWorker env engine chain headers seals"
  have inv: "vh_inv ?f (length headers) False s \<and> no_panic ?f (length headers)"
    using vh_inv_VerifyHeaders [OF assms(1-4)] assms(5) by (simp add: no_panic_def)
  then have inv': "vh_inv ?f (length headers) False s' \<and> no_panic ?f (length headers)"
    using vh.run_weight [OF assms(6)] by blast
  show ?thesis
    using vh.run_length [OF assms(6) inv] vh.stuck_final [OF assms(6) inv] vh.reaches_final [OF inv'] by blast
qed

definition known_chain :: ChainReader where
  "known_chain = \<lparr>ch_Config = MainnetChainConfig, ch_GetHeader = (\<lambda>_ _. Some sample_header), ch_GetBlock = (\<lambda>_ _. None)\<rparr>"

lemma known_worker:
  "verifyHeaderWorker sample_env (Aquahash ModeNormal 0 None) known_chain [sample_header\<lparr>Number := 2\<rparr>] [True] 0 = Ret None"
  by (simp add: verifyHeaderWorker_def workerParents_def known_chain_def sample_header_def Header_Hash_def rlpHash_def Uint64_def Let_def)

theorem VerifyHeaders_delivers_witness:
  "\<exists>s t. VerifyHeaders (Aquahash ModeNormal 0 None) [sample_header\<lparr>Number := 2\<rparr>] 2 = Ret s \<and>
     (vh_step (verifyHeaderWorker sample_env (Aquahash ModeNormal 0 None) known_chain [sample_header\<lparr>Number := 2\<rparr>] [True]) (Suc 0) False)\<^sup>*\<^sup>* s t \<and> vh_results t = [None]"
proof -
  let ?f = "verifyHeaderWorker sample_env (Aquahash ModeNormal 0 None) known_chain [sample_header\<lparr>Number := 2\<rparr>] [True]"
  obtain s where s: "VerifyHeaders (Aquahash ModeNormal 0 None) [sample_header\<lparr>Number := 2\<rparr>] 2 = Ret s"
    by (simp add: VerifyHeaders_def sample_header_def)
  have p: "(0 :: nat) < 2" "PowMode_of (Aquahash ModeNormal 0 None) \<noteq> ModeFullFake" "[sample_header\<lparr>Number := 2\<rparr>] \<noteq> []"
    "\<forall>i < length [sample_header\<lparr>Number := 2\<rparr>]. \<exists>e. ?f i = Ret e"
    using known_worker by simp_all
  have "(vh_step ?f (length [sample_header\<lparr>Number := 2\<rparr>]) False ^^ 0) s s"
    by simp
  from VerifyHeaders_delivers [OF s p this]
  obtain t where "(vh_step ?f (length [sample_header\<lparr>Number := 2\<rparr>]) False)\<^sup>*\<^sup>* s t" "map Ret (vh_results t) = map ?f [0..<length [sample_header\<lparr>Number := 2\<rparr>]]"
    by blast
  then show ?thesis
    using s known_worker by (intro exI [of _ s] exI [of _ t]) auto
qed

text \<open>
  C12: The results of a batch come in the order of the headers. Whatever the scheduler does, and whether or not the
  caller aborts, what has been delivered at any moment are the results of the first headers of the batch.
\<close>

theorem VerifyHeaders_in_order:
  assumes "VerifyHeaders engine headers procs = Ret s" and "0 < procs" and "PowMode_of engine \<noteq> ModeFullFake" and "headers \<noteq> []"
    and "(vh_step (verifyHeaderWorker env engine chain headers seals) (length headers) ab)\<^sup>*\<^sup>* s s'"
  shows "\<exists>k \<le> length headers. map Ret (vh_results s') = map (verifyHeaderWorker env engine chain headers seals) [0..<k]"
proof -
  let ?f = "verifyHeaderWorker env engine chain headers seals"
  have "vh_inv ?f (length headers) ab s'"
    using assms(5)
  proof induction
    case base
    show ?case
      by (rule vh_inv_VerifyHeaders [OF assms(1-4)])
  qed (use vh_inv_step in blast)
  then show ?thesis
    by (auto simp: vh_inv_def results_upto_def split: if_splits intro: less_imp_le)
qed

theorem VerifyHeaders_in_order_witness:
  "\<exists>s. VerifyHeaders (Aquahash ModeNormal 0 None) [sample_header, sample_header] 2 = Ret s \<and>
     (\<exists>k \<le> 2. map Ret (vh_results (s\<lparr>vh_running := False\<rparr>)) =
        map (verifyHeaderWorker sample_env (Aquahash ModeNormal 0 None) known_chain [sample_header, sample_header] [True, True]) [0..<k])"
proof -
  let ?f = "verifyHeaderWorker sample_env (Aquahash ModeNormal 0 None) known_chain [sample_header, sample_header] [True, True]"
  obtain s where s: "VerifyHeaders (Aquahash ModeNormal 0 None) [sample_header, sample_header] 2 = Ret s" "vh_running s"
    by (simp add: VerifyHeaders_def sample_header_def)
  have "(vh_step ?f (length [sample_header, sample_header]) True)\<^sup>*\<^sup>* s (s\<lparr>vh_running := False\<rparr>)"
    using vh_abort [OF _ s(2)] by auto
  from VerifyHeaders_in_order [OF s(1) _ _ _ this] s(1) show ?thesis
    by (auto simp: numeral_2_eq_2)
qed

text \<open>
  An abort may leave a worker waiting for ever: with three headers and two workers, one worker can fill the
  channel of reports and be about to report a third index when the coordinator goes away.
\<close>

lemma abort_leaves_worker_waiting:
  assumes "VerifyHeaders engine headers 2 = Ret s" "length headers = 3" "PowMode_of engine \<noteq> ModeFullFake" "no_panic f 3"
  shows "\<exists>s'. (vh_step f 3 True)\<^sup>*\<^sup>* s s' \<and> (\<nexists>t. vh_step f 3 True s' t) \<and> vh_workers s' = [Reporting 2, Idle] \<and> \<not> vh_running s'"
proof -
  obtain e0 e1 e2 where e: "f 0 = Ret e0" "f (Suc 0) = Ret e1" "f 2 = Ret e2"
    using assms(4) by (force simp: no_panic_def)
  have s: "s = \<lparr>vh_in = 0, vh_out = 0, vh_checked = replicate 3 False, vh_done = [], vh_errors = replicate 3 None,
               vh_workers = [Idle, Idle], vh_results = [], vh_running = True\<rparr>"
    using assms(1-3) by (simp add: VerifyHeaders_def Let_def numeral_2_eq_2 split: if_split_asm)
  define s1 where "s1 = s\<lparr>vh_in := 1, vh_workers := [Busy 0, Idle]\<rparr>"
  define s2 where "s2 = s1\<lparr>vh_errors := (vh_errors s1)[0 := e0], vh_workers := [Reporting 0, Idle]\<rparr>"
  define s3 where "s3 = s2\<lparr>vh_done := [0], vh_workers := [Idle, Idle]\<rparr>"
  define s4 where "s4 = s3\<lparr>vh_in := 2, vh_workers := [Busy 1, Idle]\<rparr>"
  define s5 where "s5 = s4\<lparr>vh_errors := (vh_errors s4)[1 := e1], vh_workers := [Reporting 1, Idle]\<rparr>"
  define s6 where "s6 = s5\<lparr>vh_done := [0, 1], vh_workers := [Idle, Idle]\<rparr>"
  define s7 where "s7 = s6\<lparr>vh_in := 3, vh_workers := [Busy 2, Idle]\<rparr>"
  define s8 where "s8 = s7\<lparr>vh_errors := (vh_errors s7)[2 := e2], vh_workers := [Reporting 2, Idle]\<rparr>"
  define s9 where "s9 = s8\<lparr>vh_running := False\<rparr>"
  note defs = s s1_def s2_def s3_def s4_def s5_def s6_def s7_def s8_def s9_def
  let ?R = "vh_step f 3 True"
  have "?R s s1" "?R s3 s4" "?R s6 s7"
    using vh_send [of s 3 0 f True] vh_send [of s3 3 0 f True] vh_send [of s6 3 0 f True] by (simp_all add: defs numeral_2_eq_2 numeral_3_eq_3)
  moreover have "?R s1 s2" "?R s4 s5" "?R s7 s8"
    using vh_verify [of 0 s1 0 f e0 3 True] vh_verify [of 0 s4 1 f e1 3 True] vh_verify [of 0 s7 2 f e2 3 True] e by (simp_all add: defs numeral_2_eq_2 numeral_3_eq_3)
  moreover have "?R s2 s3" "?R s5 s6"
    using vh_report [of 0 s2 0 f 3 True] vh_report [of 0 s5 1 f 3 True] by (simp_all add: defs numeral_2_eq_2 numeral_3_eq_3)
  moreover have "?R s8 s9"
    using vh_abort [of True s8 f 3] by (simp add: defs)
  ultimately have "?R\<^sup>*\<^sup>* s s9"
    by (meson converse_rtranclp_into_rtranclp rtranclp.rtrancl_refl)
  moreover have "\<not> ?R s9 t" for t
  proof
    assume "?R s9 t"
    then show False
      by cases (auto simp: defs less_Suc_eq nth_Cons split: nat.splits)
  qed
  ultimately show ?thesis
    by (intro exI [of _ s9]) (simp add: defs)
qed

end
