(* ===== verification/Core_Transition.thy ===== *)
theory Core_Transition
  imports VM_Properties
begin

text \<open>
  The state transition of a message (\<open>core/state_transition.go\<close>) with the gas pool of its block
  (\<open>core/gaspool.go\<close>): nonce check, purchase of the gas, execution by the virtual machine, refund and
  fee. The state of a transition is the state of its machine, as in the code, where both hold the
  same pointer. The fuel of the virtual machine (\<open>cl\<close>, \<open>n\<close>) is passed through.
\<close>

section \<open>Gas pool\<close>

datatype core_err =
    ErrGasLimitReached
  | ErrNonceTooHigh
  | ErrNonceTooLow
  | errInsufficientBalanceForGas
  | CoreVM vm_error

definition pool_AddGas :: "u64 \<Rightarrow> u64 \<Rightarrow> u64 go" where
  "pool_AddGas amount gp = (if gp > 0xFFFFFFFFFFFFFFFF - amount then Panic else Ret (gp + amount))"

definition pool_SubGas :: "u64 \<Rightarrow> u64 \<Rightarrow> core_err option \<times> u64" where
  "pool_SubGas amount gp = (if gp < amount then (Some ErrGasLimitReached, gp) else (None, gp - amount))"

section \<open>Messages and transitions\<close>

record Message =
  msg_From :: address
  msg_To :: "address option"
  msg_GasPrice :: int
  msg_Gas :: u64
  msg_Value :: int
  msg_Nonce :: u64
  msg_CheckNonce :: bool
  msg_Data :: bytes

record StateTransition =
  st_gp :: u64
  st_msg :: Message
  st_gas :: u64
  st_gasPrice :: int
  st_initialGas :: u64
  st_value :: int
  st_data :: bytes
  st_evm :: EVM

definition IntrinsicGas :: "bytes \<Rightarrow> bool \<Rightarrow> bool \<Rightarrow> vm_error + u64" where
  "IntrinsicGas data contractCreation homestead =
     (let gas = (if contractCreation \<and> homestead then TxGasContractCreation else TxGas) in
      if length data > 0 then
        let nz = of_nat (length (filter (\<lambda>byt. byt \<noteq> 0) data)) in
        if (0xFFFFFFFFFFFFFFFF - gas) div TxDataNonZeroGas < nz then Inl ErrOutOfGas
        else
          let gas = gas + nz * TxDataNonZeroGas; z = of_nat (length data) - nz in
          if (0xFFFFFFFFFFFFFFFF - gas) div TxDataZeroGas < z then Inl ErrOutOfGas
          else Inr (gas + z * TxDataZeroGas)
      else Inr gas)"

definition NewStateTransition :: "EVM \<Rightarrow> Message \<Rightarrow> u64 \<Rightarrow> StateTransition" where
  "NewStateTransition evm msg gp =
     \<lparr>st_gp = gp, st_msg = msg, st_gas = 0, st_gasPrice = msg_GasPrice msg, st_initialGas = 0, st_value = msg_Value msg,
      st_data = msg_Data msg, st_evm = evm\<rparr>"

definition st_query :: "(Backend \<Rightarrow> StateDB \<Rightarrow> 'a \<times> StateDB) \<Rightarrow> StateTransition \<Rightarrow> 'a \<times> StateTransition" where
  "st_query q st = (let (r, evm) = on_state q (st_evm st) in (r, st\<lparr>st_evm := evm\<rparr>))"

definition st_update :: "(Backend \<Rightarrow> StateDB \<Rightarrow> StateDB) \<Rightarrow> StateTransition \<Rightarrow> StateTransition" where
  "st_update g st = st\<lparr>st_evm := upd_state g (st_evm st)\<rparr>"

definition existing :: "address \<Rightarrow> StateTransition \<Rightarrow> StateTransition" where
  "existing a st =
     (let (ex, st) = st_query (\<lambda>be. state_Exist be a) st in if \<not> ex then st_update (\<lambda>be. CreateAccount be a) st else st)"

definition st_from :: "StateTransition \<Rightarrow> address \<times> StateTransition" where
  "st_from st = (let f = msg_From (st_msg st) in (f, existing f st))"

definition st_to :: "StateTransition \<Rightarrow> address \<times> StateTransition" where
  "st_to st = (case msg_To (st_msg st) of None \<Rightarrow> (0, st) | Some to \<Rightarrow> (to, existing to st))"

definition useGas :: "u64 \<Rightarrow> StateTransition \<Rightarrow> core_err option \<times> StateTransition" where
  "useGas amount st =
     (if st_gas st < amount then (Some (CoreVM ErrOutOfGas), st) else (None, st\<lparr>st_gas := st_gas st - amount\<rparr>))"

definition buyGas :: "StateTransition \<Rightarrow> core_err option \<times> StateTransition" where
  "buyGas st =
     (let (sender, st) = st_from st;
          mgval = uint (msg_Gas (st_msg st)) * st_gasPrice st;
          (balance, st) = st_query (\<lambda>be. GetBalance be sender) st
      in if balance < mgval then (Some errInsufficientBalanceForGas, st)
         else case pool_SubGas (msg_Gas (st_msg st)) (st_gp st) of
             (Some e, gp) \<Rightarrow> (Some e, st)
           | (None, gp) \<Rightarrow>
               (None, st_update (\<lambda>be. SubBalance be sender mgval)
                  (st\<lparr>st_gp := gp, st_gas := st_gas st + msg_Gas (st_msg st), st_initialGas := msg_Gas (st_msg st)\<rparr>)))"

definition preCheck :: "StateTransition \<Rightarrow> core_err option \<times> StateTransition" where
  "preCheck st =
     (let (sender, st) = st_from st in
      if msg_CheckNonce (st_msg st) then
        let (nonce, st) = st_query (\<lambda>be. GetNonce be sender) st in
        if nonce < msg_Nonce (st_msg st) then (Some ErrNonceTooHigh, st)
        else if nonce > msg_Nonce (st_msg st) then (Some ErrNonceTooLow, st)
        else buyGas st
      else buyGas st)"

definition gasUsed :: "StateTransition \<Rightarrow> u64" where
  "gasUsed st = st_initialGas st - st_gas st"

definition refundGas :: "StateTransition \<Rightarrow> StateTransition go" where
  "refundGas st =
     (let refund = gasUsed st div 2;
          refund = (if refund > GetRefund (ev_StateDB (st_evm st)) then GetRefund (ev_StateDB (st_evm st)) else refund);
          st = st\<lparr>st_gas := st_gas st + refund\<rparr>;
          (sender, st) = st_from st;
          remaining = uint (st_gas st) * st_gasPrice st;
          st = st_update (\<lambda>be. AddBalance be sender remaining) st
      in go_bind (pool_AddGas (st_gas st) (st_gp st)) (\<lambda>gp. Ret (st\<lparr>st_gp := gp\<rparr>)))"

text \<open>The creation or the call of \<open>TransitionDb\<close>.\<close>

definition execMessage :: "calls \<Rightarrow> nat \<Rightarrow> address \<Rightarrow> StateTransition \<Rightarrow> ((bytes \<times> vm_error option) \<times> StateTransition) go" where
  "execMessage cl n sender st =
     (if msg_To (st_msg st) = None then
        go_bind (EVM_Create cl n (AccountRef sender) (st_data st) (st_gas st) (st_value st) (st_evm st)) (\<lambda>((ret, _, gas, vmerr), evm).
          Ret ((ret, vmerr), st\<lparr>st_gas := gas, st_evm := evm\<rparr>))
      else
        let (nonce, st) = st_query (\<lambda>be. GetNonce be sender) st;
            st = st_update (\<lambda>be. SetNonce be sender (nonce + 1)) st;
            (to, st) = st_to st
        in go_bind (EVM_Call cl n (AccountRef sender) to (st_data st) (st_gas st) (st_value st) (st_evm st)) (\<lambda>((ret, gas, vmerr), evm).
          Ret ((ret, vmerr), st\<lparr>st_gas := gas, st_evm := evm\<rparr>)))"

type_synonym transition_result = "((bytes \<times> u64 \<times> bool \<times> core_err option) \<times> StateTransition) go"

definition TransitionDb :: "calls \<Rightarrow> nat \<Rightarrow> StateTransition \<Rightarrow> transition_result" where
  "TransitionDb cl n st =
     (case preCheck st of
        (Some e, st) \<Rightarrow> Ret (([], 0, False, Some e), st)
      | (None, st) \<Rightarrow>
          let (sender, st) = st_from st;
              homestead = IsHomestead (ev_chainConfig (st_evm st)) (Some (ctx_BlockNumber (ev_ctx (st_evm st))));
              contractCreation = (msg_To (st_msg st) = None)
          in case IntrinsicGas (st_data st) contractCreation homestead of
              Inl e \<Rightarrow> Ret (([], 0, False, Some (CoreVM e)), st)
            | Inr gas \<Rightarrow>
                (case useGas gas st of
                   (Some e, st) \<Rightarrow> Ret (([], 0, False, Some e), st)
                 | (None, st) \<Rightarrow>
                     go_bind (execMessage cl n sender st) (\<lambda>((ret, vmerr), st).
                       if vmerr = Some ErrInsufficientBalance then Ret (([], 0, False, Some (CoreVM ErrInsufficientBalance)), st)
                       else go_bind (refundGas st) (\<lambda>st.
                         Ret ((ret, gasUsed st, vmerr \<noteq> None, None),
                              st_update (\<lambda>be. AddBalance be (ctx_Coinbase (ev_ctx (st_evm st))) (uint (gasUsed st) * st_gasPrice st)) st)))))"

definition ApplyMessage :: "calls \<Rightarrow> nat \<Rightarrow> EVM \<Rightarrow> Message \<Rightarrow> u64 \<Rightarrow> transition_result" where
  "ApplyMessage cl n evm msg gp = TransitionDb cl n (NewStateTransition evm msg gp)"

section \<open>How a transition develops\<close>

text \<open>
  \<open>st_evolves ro\<close>: the state of the transition has developed like the state of a machine, the
  message has not changed; with \<open>ro\<close> no query can see a difference but for empty accounts.
\<close>

definition st_evolves :: "bool \<Rightarrow> StateTransition \<Rightarrow> StateTransition \<Rightarrow> bool" where
  "st_evolves ro st st' \<longleftrightarrow>
     evm_core (st_evm st') = evm_core (st_evm st) \<and>
     evolves (ev_db (st_evm st)) ro (ev_StateDB (st_evm st)) (ev_StateDB (st_evm st')) \<and>
     st_msg st' = st_msg st \<and> st_gasPrice st' = st_gasPrice st \<and> st_value st' = st_value st \<and> st_data st' = st_data st"

definition same_gas :: "StateTransition \<Rightarrow> StateTransition \<Rightarrow> bool" where
  "same_gas st st' \<longleftrightarrow> st_gas st' = st_gas st \<and> st_initialGas st' = st_initialGas st \<and> st_gp st' = st_gp st"

lemma st_evolves_refl: "evm_ok (st_evm st) \<Longrightarrow> st_evolves ro st st"
  by (simp add: st_evolves_def evm_ok_def evolves_refl)

lemma st_evolves_trans:
  assumes "st_evolves ro st st'" "st_evolves ro st' st''"
  shows "st_evolves ro st st''"
  using assms evm_coreD(10) [of "st_evm st'" "st_evm st"] by (auto simp: st_evolves_def intro: evolves_trans)

lemma st_evolves_gas [simp]:
  "st_evolves ro st (st'\<lparr>st_gas := g\<rparr>) = st_evolves ro st st'" "st_evolves ro st (st'\<lparr>st_gp := g\<rparr>) = st_evolves ro st st'"
  "st_evolves ro st (st'\<lparr>st_initialGas := g\<rparr>) = st_evolves ro st st'"
  by (simp_all add: st_evolves_def)

lemma st_evolves_weaken: "st_evolves True st st' \<Longrightarrow> st_evolves ro st st'"
  by (auto simp: st_evolves_def intro: evolves_weaken)

lemma st_evolves_ok: "st_evolves ro st st' \<Longrightarrow> evm_ok (st_evm st) \<Longrightarrow> evm_ok (st_evm st')"
  using evm_rel_ok [of "st_evm st" "st_evm st'"] evolves_ok evm_coreD [of "st_evm st'" "st_evm st"]
  by (auto simp: st_evolves_def evm_ok_def)

lemma st_update_evolves:
  assumes "evolves (ev_db (st_evm st)) ro (ev_StateDB (st_evm st)) (g (ev_db (st_evm st)) (ev_StateDB (st_evm st)))"
  shows "st_evolves ro st (st_update g st)" "same_gas st (st_update g st)"
  using assms by (simp_all add: st_evolves_def st_update_def upd_state_def same_gas_def)

lemma st_queryE:
  assumes "st_query q st = (r, st')"
  obtains s' where "q (ev_db (st_evm st)) (ev_StateDB (st_evm st)) = (r, s')" "st' = st\<lparr>st_evm := (st_evm st)\<lparr>ev_StateDB := s'\<rparr>\<rparr>"
  using assms by (auto simp: st_query_def on_state_def split: prod.splits)

lemma st_query_evolves:
  assumes "evolves (ev_db (st_evm st)) ro (ev_StateDB (st_evm st)) s'"
  shows "st_evolves ro st (st\<lparr>st_evm := (st_evm st)\<lparr>ev_StateDB := s'\<rparr>\<rparr>)" "same_gas st (st\<lparr>st_evm := (st_evm st)\<lparr>ev_StateDB := s'\<rparr>\<rparr>)"
  using assms by (auto simp: st_evolves_def same_gas_def)

lemma same_gas_trans: "same_gas st st' \<Longrightarrow> same_gas st' st'' \<Longrightarrow> same_gas st st''"
  by (simp add: same_gas_def)

lemma existing_evolves:
  assumes "evm_ok (st_evm st)"
  shows "st_evolves ro st (existing a st)" "same_gas st (existing a st)"
proof -
  obtain ex st1 where q: "st_query (\<lambda>be. state_Exist be a) st = (ex, st1)"
    by (metis surj_pair)
  have ok: "vm_state_ok (ev_db (st_evm st)) (ev_StateDB (st_evm st))"
    using assms by (simp add: evm_ok_def)
  obtain s1 where s1: "state_Exist (ev_db (st_evm st)) a (ev_StateDB (st_evm st)) = (ex, s1)" "st1 = st\<lparr>st_evm := (st_evm st)\<lparr>ev_StateDB := s1\<rparr>\<rparr>"
    using st_queryE [OF q] .
  note 1 = st_query_evolves [OF Exist_evolves(1) [OF ok s1(1)], folded s1(2)]
  have "view (ev_db (st_evm st1)) (ev_StateDB (st_evm st1)) a = None" if "\<not> ex"
    using that s1(2) Exist_evolves(2,3) [OF ok s1(1)] by (auto simp: sim_def)
  then have 2: "evolves (ev_db (st_evm st1)) ro (ev_StateDB (st_evm st1)) (CreateAccount (ev_db (st_evm st1)) a (ev_StateDB (st_evm st1)))"
    if "\<not> ex"
    using that st_evolves_ok [OF 1(1) assms] by (intro CreateAccount_evolves) (simp_all add: evm_ok_def)
  show "st_evolves ro st (existing a st)"
    using 1(1) st_evolves_trans [OF 1(1) st_update_evolves(1) [where g = "\<lambda>be. CreateAccount be a", OF 2]] q by (simp add: existing_def)
  show "same_gas st (existing a st)"
    using 1(2) same_gas_trans [OF 1(2) st_update_evolves(2) [where g = "\<lambda>be. CreateAccount be a", OF 2]] q by (simp add: existing_def)
qed

lemma st_from_evolves:
  assumes "st_from st = (a, st')" "evm_ok (st_evm st)"
  shows "st_evolves ro st st'" "same_gas st st'" "a = msg_From (st_msg st)"
  using existing_evolves [OF assms(2)] assms(1) by (auto simp: st_from_def Let_def)

section \<open>Gas\<close>

lemma buyGas_ok:
  assumes "buyGas st = (e, st')" "evm_ok (st_evm st)" "0 \<le> st_gasPrice st"
  shows "e \<noteq> None \<Longrightarrow> st_evolves True st st' \<and> st_gp st' = st_gp st"
    "e = None \<Longrightarrow> st_evolves False st st' \<and> msg_Gas (st_msg st) \<le> st_gp st \<and> st_gp st' = st_gp st - msg_Gas (st_msg st) \<and>
       st_gas st' = st_gas st + msg_Gas (st_msg st) \<and> st_initialGas st' = msg_Gas (st_msg st)"
proof -
  obtain a st1 where 1: "st_from st = (a, st1)"
    by (metis surj_pair)
  obtain b st2 where 2: "st_query (\<lambda>be. GetBalance be a) st1 = (b, st2)"
    by (metis surj_pair)
  note e1 = st_from_evolves [OF 1 assms(2)]
  have ok1: "vm_state_ok (ev_db (st_evm st1)) (ev_StateDB (st_evm st1))"
    using st_evolves_ok [OF e1(1) assms(2)] by (simp add: evm_ok_def)
  obtain s2 where s2: "GetBalance (ev_db (st_evm st1)) a (ev_StateDB (st_evm st1)) = (b, s2)" "st2 = st1\<lparr>st_evm := (st_evm st1)\<lparr>ev_StateDB := s2\<rparr>\<rparr>"
    using st_queryE [OF 2] .
  note e2 = st_query_evolves [OF GetBalance_evolves(1) [OF ok1 s2(1)], folded s2(2)]
  have e12: "st_evolves ro st st2" "same_gas st st2" for ro
    using st_evolves_trans [OF e1(1) e2(1)] same_gas_trans [OF e1(2) e2(2)] by blast+
  have msg: "st_msg st1 = st_msg st" "st_gasPrice st1 = st_gasPrice st" "st_msg st2 = st_msg st"
    using e1(1) [of True] e12(1) [of True] by (simp_all add: st_evolves_def)
  let ?m = "uint (msg_Gas (st_msg st)) * st_gasPrice st"
  have run: "buyGas st = (if b < ?m then (Some errInsufficientBalanceForGas, st2)
      else if st_gp st < msg_Gas (st_msg st) then (Some ErrGasLimitReached, st2)
      else (None, st_update (\<lambda>be. SubBalance be a ?m)
         (st2\<lparr>st_gp := st_gp st - msg_Gas (st_msg st), st_gas := st_gas st + msg_Gas (st_msg st), st_initialGas := msg_Gas (st_msg st)\<rparr>)))"
    using 1 2 msg e12(2) by (auto simp: buyGas_def pool_SubGas_def same_gas_def Let_def)
  show "e \<noteq> None \<Longrightarrow> st_evolves True st st' \<and> st_gp st' = st_gp st"
    using run assms(1) e12 by (auto simp: same_gas_def split: if_splits)
  assume "e = None"
  then have b: "?m \<le> b" and gp: "msg_Gas (st_msg st) \<le> st_gp st"
    and st': "st' = st_update (\<lambda>be. SubBalance be a ?m)
         (st2\<lparr>st_gp := st_gp st - msg_Gas (st_msg st), st_gas := st_gas st + msg_Gas (st_msg st), st_initialGas := msg_Gas (st_msg st)\<rparr>)"
    using run assms(1) by (auto split: if_splits)
  have m0: "0 \<le> ?m"
    using assms(3) by simp
  have "vm_state_ok (ev_db (st_evm st2)) (ev_StateDB (st_evm st2))"
    using st_evolves_ok [OF e12(1) assms(2)] by (simp add: evm_ok_def)
  moreover have "?m \<le> av_balance (view_or_fresh (ev_db (st_evm st2)) (ev_StateDB (st_evm st2)) a)"
    using b m0 s2(2) GetBalance_evolves(2,4) [OF ok1 s2(1)] by (simp add: sim_def view_or_fresh_def split: option.splits)
  ultimately have "evolves (ev_db (st_evm st2)) False (ev_StateDB (st_evm st2)) (SubBalance (ev_db (st_evm st2)) a ?m (ev_StateDB (st_evm st2)))"
    by (rule SubBalance_evolves) simp
  then have "st_evolves False st2 st'" "st_gp st' = st_gp st - msg_Gas (st_msg st)"
    "st_gas st' = st_gas st + msg_Gas (st_msg st)" "st_initialGas st' = msg_Gas (st_msg st)"
    unfolding st' by (simp_all add: st_update_def st_evolves_def upd_state_def)
  then show "st_evolves False st st' \<and> msg_Gas (st_msg st) \<le> st_gp st \<and> st_gp st' = st_gp st - msg_Gas (st_msg st) \<and>
       st_gas st' = st_gas st + msg_Gas (st_msg st) \<and> st_initialGas st' = msg_Gas (st_msg st)"
    using gp st_evolves_trans [OF e12(1)] by blast
qed

lemma preCheck_ok:
  assumes "preCheck st = (e, st')" "evm_ok (st_evm st)" "0 \<le> st_gasPrice st"
  shows "e \<noteq> None \<Longrightarrow> st_evolves True st st' \<and> st_gp st' = st_gp st"
    "e = None \<Longrightarrow> st_evolves False st st' \<and> msg_Gas (st_msg st) \<le> st_gp st \<and> st_gp st' = st_gp st - msg_Gas (st_msg st) \<and>
       st_gas st' = st_gas st + msg_Gas (st_msg st) \<and> st_initialGas st' = msg_Gas (st_msg st)"
proof -
  obtain a st1 where 1: "st_from st = (a, st1)"
    by (metis surj_pair)
  obtain nonce st2 where 2: "st_query (\<lambda>be. GetNonce be a) st1 = (nonce, st2)"
    by (metis surj_pair)
  note e1 = st_from_evolves [OF 1 assms(2)]
  have ok1: "vm_state_ok (ev_db (st_evm st1)) (ev_StateDB (st_evm st1))"
    using st_evolves_ok [OF e1(1) assms(2)] by (simp add: evm_ok_def)
  obtain s2 where s2: "GetNonce (ev_db (st_evm st1)) a (ev_StateDB (st_evm st1)) = (nonce, s2)" "st2 = st1\<lparr>st_evm := (st_evm st1)\<lparr>ev_StateDB := s2\<rparr>\<rparr>"
    using st_queryE [OF 2] .
  note e2 = st_query_evolves [OF GetNonce_evolves(1) [OF ok1 s2(1)], folded s2(2)]
  have e12: "st_evolves ro st st2" "same_gas st st2" for ro
    using st_evolves_trans [OF e1(1) e2(1)] same_gas_trans [OF e1(2) e2(2)] by blast+
  obtain st3 where st3: "st_evolves True st st3" "same_gas st st3"
    and run: "buyGas st3 = (e, st') \<or> e \<noteq> None \<and> st' = st3"
    using assms(1) 1 2 e1 e12 by (auto simp: preCheck_def Let_def split: if_splits)
  have keep: "evm_ok (st_evm st3)" "0 \<le> st_gasPrice st3" "st_msg st3 = st_msg st"
    using st_evolves_ok [OF st3(1) assms(2)] st3(1) assms(3) by (auto simp: st_evolves_def)
  show "e \<noteq> None \<Longrightarrow> st_evolves True st st' \<and> st_gp st' = st_gp st"
    using run buyGas_ok(1) [OF _ keep(1,2)] st_evolves_trans [OF st3(1)] st3 by (fastforce simp: same_gas_def)
  show "e = None \<Longrightarrow> st_evolves False st st' \<and> msg_Gas (st_msg st) \<le> st_gp st \<and> st_gp st' = st_gp st - msg_Gas (st_msg st) \<and>
       st_gas st' = st_gas st + msg_Gas (st_msg st) \<and> st_initialGas st' = msg_Gas (st_msg st)"
    using run buyGas_ok(2) [OF _ keep(1,2)] st_evolves_trans [OF st_evolves_weaken [OF st3(1)]] st3(2) keep(3)
    by (auto simp: same_gas_def)
qed

text \<open>A machine ready for the call of a transition.\<close>

lemma execMessage_ok:
  assumes ok: "evm_ok (st_evm st)" "ev_depth (st_evm st) = 0" "\<not> read_only (st_evm st)" "0 \<le> st_value st" "length (st_data st) < 2 ^ 62"
    and fuel: "1025 \<le> d" "unat (st_gas st) < n" "unat (st_gas st) < 2 ^ 60"
  shows "\<exists>ret vmerr st'. execMessage (calls_at n d) n sender st = Ret ((ret, vmerr), st') \<and> st_evolves False st st' \<and>
    st_gas st' \<le> st_gas st \<and> st_initialGas st' = st_initialGas st \<and> st_gp st' = st_gp st"
proof -
  have ready: "ready n d (st_gas st) evm" if "evm_rel (st_evm st) evm" for evm
    using that evm_rel_ok [OF that ok(1)] ok(2) fuel evm_coreD(2) [of evm "st_evm st"] by (simp add: ready_def evm_rel_def)
  show ?thesis
  proof (cases "msg_To (st_msg st)")
    case None
    have "create_ok (st_evm st) (st_gas st) (EVM_Create (calls_at n d) n (AccountRef sender) (st_data st) (st_gas st) (st_value st) (st_evm st))"
      by (rule ready_calls(5) [OF ready [OF evm_rel_refl [OF ok(1)]] ok(5,4,3)])
    then obtain ret addr g err evm' where "EVM_Create (calls_at n d) n (AccountRef sender) (st_data st) (st_gas st) (st_value st) (st_evm st) = Ret ((ret, addr, g, err), evm')"
      "g \<le> st_gas st" "evm_rel (st_evm st) evm'"
      unfolding create_ok_def by blast
    then show ?thesis
      using None ok(3) by (simp add: execMessage_def st_evolves_def evm_rel_def)
  next
    case (Some to)
    obtain nonce st1 where 1: "st_query (\<lambda>be. GetNonce be sender) st = (nonce, st1)"
      by (metis surj_pair)
    have oks: "vm_state_ok (ev_db (st_evm st)) (ev_StateDB (st_evm st))"
      using ok(1) by (simp add: evm_ok_def)
    obtain s1 where s1: "GetNonce (ev_db (st_evm st)) sender (ev_StateDB (st_evm st)) = (nonce, s1)" "st1 = st\<lparr>st_evm := (st_evm st)\<lparr>ev_StateDB := s1\<rparr>\<rparr>"
      using st_queryE [OF 1] .
    note e1 = st_query_evolves [OF GetNonce_evolves(1) [OF oks s1(1)], folded s1(2)]
    let ?st2 = "st_update (\<lambda>be. SetNonce be sender (nonce + 1)) st1"
    have "vm_state_ok (ev_db (st_evm st1)) (ev_StateDB (st_evm st1))"
      using st_evolves_ok [OF e1(1) ok(1)] by (simp add: evm_ok_def)
    note e2 = st_update_evolves [where g = "\<lambda>be. SetNonce be sender (nonce + 1)", OF SetNonce_evolves [OF this]]
    have e12: "st_evolves False st ?st2" "same_gas st ?st2"
      using st_evolves_trans [OF e1(1) e2(1)] same_gas_trans [OF e1(2) e2(2)] by blast+
    note e3 = existing_evolves [where a = to, OF st_evolves_ok [OF e12(1) ok(1)]]
    let ?st3 = "existing to ?st2"
    have e13: "st_evolves False st ?st3" "same_gas st ?st3"
      using st_evolves_trans [OF e12(1) e3(1)] same_gas_trans [OF e12(2) e3(2)] by blast+
    then have st3: "evm_rel (st_evm st) (st_evm ?st3)" "st_data ?st3 = st_data st" "st_gas ?st3 = st_gas st" "st_value ?st3 = st_value st"
      "st_msg ?st2 = st_msg st"
      using ok(3) e12 by (simp_all add: evm_rel_def st_evolves_def same_gas_def)
    have ro: "\<not> read_only (st_evm ?st3)"
      using ok(3) st3(1) evm_coreD(12) [of "st_evm ?st3" "st_evm st"] by (simp add: evm_rel_def)
    have "call_ok (st_evm ?st3) (st_gas st) (EVM_Call (calls_at n d) n (AccountRef sender) to (st_data st) (st_gas st) (st_value st) (st_evm ?st3))"
      by (rule ready_calls(1) [OF ready [OF st3(1)] ok(5,4)]) (use ro in simp)
    then obtain ret g err evm' where call: "EVM_Call (calls_at n d) n (AccountRef sender) to (st_data st) (st_gas st) (st_value st) (st_evm ?st3) = Ret ((ret, g, err), evm')"
      "g \<le> st_gas st" "evm_rel (st_evm ?st3) evm'"
      unfolding call_ok_def by blast
    have "st_evolves False ?st3 (?st3\<lparr>st_gas := g, st_evm := evm'\<rparr>)"
      using call(3) ro by (simp add: st_evolves_def evm_rel_def)
    then have "st_evolves False st (?st3\<lparr>st_gas := g, st_evm := evm'\<rparr>)"
      by (rule st_evolves_trans [OF e13(1)])
    then show ?thesis
      using call e13(2) Some 1 st3 by (simp add: execMessage_def st_to_def same_gas_def)
  qed
qed

lemma gasUsed_nat: "st_gas st \<le> st_initialGas st \<Longrightarrow> unat (gasUsed st) = unat (st_initialGas st) - unat (st_gas st)"
  by (simp add: gasUsed_def unat_sub)

lemma refundGas_ok:
  assumes ok: "evm_ok (st_evm st)" "0 \<le> st_gasPrice st"
    and gas: "st_gas st \<le> st_initialGas st" "unat (st_gp st) + unat (st_initialGas st) < 2 ^ 64"
  shows "\<exists>st'. refundGas st = Ret st' \<and> st_evolves False st st' \<and> st_initialGas st' = st_initialGas st \<and> st_gas st' \<le> st_initialGas st \<and>
    gasUsed st' \<le> gasUsed st \<and> unat (gasUsed st) \<le> 2 * unat (gasUsed st') \<and> st_gp st' = st_gp st + st_gas st'"
proof -
  let ?r = "GetRefund (ev_StateDB (st_evm st))"
  let ?refund = "if gasUsed st div 2 > ?r then ?r else gasUsed st div 2"
  let ?st1 = "st\<lparr>st_gas := st_gas st + ?refund\<rparr>"
  obtain a st2 where 2: "st_from ?st1 = (a, st2)"
    by (metis surj_pair)
  have r: "unat ?refund \<le> unat (gasUsed st) div 2"
    by (auto simp: unat_div word_le_nat_alt word_less_nat_alt)
  then have sum: "unat (st_gas st + ?refund) = unat (st_gas st) + unat ?refund"
    using gasUsed_nat [OF gas(1)] gas by (subst unat_plus_simple [symmetric]) (simp add: no_plus_overflow_uint_size word_le_nat_alt unat_word_ariths uint_nat)
  have e2: "st_evolves False st st2" "same_gas ?st1 st2"
    using st_from_evolves [OF 2] ok(1) by (auto simp: st_evolves_def)
  have price: "st_gasPrice st2 = st_gasPrice st"
    using e2(1) by (simp add: st_evolves_def)
  let ?m = "uint (st_gas st2) * st_gasPrice st2"
  have "evolves (ev_db (st_evm st2)) False (ev_StateDB (st_evm st2)) (AddBalance (ev_db (st_evm st2)) a ?m (ev_StateDB (st_evm st2)))"
    using st_evolves_ok [OF e2(1) ok(1)] ok(2) price by (intro AddBalance_evolves) (simp_all add: evm_ok_def)
  note e3 = st_update_evolves [where g = "\<lambda>be. AddBalance be a ?m", OF this]
  let ?st3 = "st_update (\<lambda>be. AddBalance be a ?m) st2"
  have st3: "st_gas ?st3 = st_gas st + ?refund" "st_initialGas ?st3 = st_initialGas st" "st_gp ?st3 = st_gp st"
    using e2(2) e3(2) by (simp_all add: same_gas_def)
  have le: "unat (st_gas st + ?refund) \<le> unat (st_initialGas st)"
    using sum r gasUsed_nat [OF gas(1)] gas(1) by (simp add: word_le_nat_alt)
  have "\<not> st_gp st > 0xFFFFFFFFFFFFFFFF - (st_gas st + ?refund)"
    using le gas(2) by (simp add: word_less_nat_alt unat_sub word_le_nat_alt not_less)
  then have "refundGas st = Ret (?st3\<lparr>st_gp := st_gp st + (st_gas st + ?refund)\<rparr>)"
    using 2 st3 by (simp add: refundGas_def pool_AddGas_def Let_def)
  moreover have "unat (gasUsed st) \<le> 2 * unat (gasUsed (?st3\<lparr>st_gp := g\<rparr>)) \<and> gasUsed (?st3\<lparr>st_gp := g\<rparr>) \<le> gasUsed st" for g
    using le sum r gasUsed_nat [OF gas(1)] st3 gas(1) by (auto simp: gasUsed_def unat_sub word_le_nat_alt)
  ultimately show ?thesis
    using st3 le st_evolves_trans [OF e2(1) e3(1)] by (simp add: word_le_nat_alt)
qed

lemma IntrinsicGas_eq:
  assumes "length data < 2 ^ 62"
  shows "IntrinsicGas data contractCreation homestead =
    (let total = (if contractCreation \<and> homestead then 53000 else 21000) +
         68 * length (filter (\<lambda>b. b \<noteq> 0) data) + 4 * length (filter (\<lambda>b. b = 0) data)
     in if total < 2 ^ 64 then Inr (of_nat total) else Inl ErrOutOfGas)"
proof -
  let ?nz = "length (filter (\<lambda>b. b \<noteq> 0) data)" and ?z = "length (filter (\<lambda>b. b = 0) data)"
  have len: "length data = ?nz + ?z"
    using sum_length_filter_compl [of "\<lambda>b. b \<noteq> 0" data] by simp
  have main: "(if (0xFFFFFFFFFFFFFFFF - g) div 68 < of_nat ?nz then Inl ErrOutOfGas
      else if (0xFFFFFFFFFFFFFFFF - (g + of_nat ?nz * 68)) div 4 < of_nat (length data) - of_nat ?nz then Inl ErrOutOfGas
      else Inr (g + of_nat ?nz * 68 + (of_nat (length data) - of_nat ?nz) * 4)) =
    (if unat g + 68 * ?nz + 4 * ?z < 2 ^ 64 then Inr (of_nat (unat g + 68 * ?nz + 4 * ?z)) else Inl ErrOutOfGas)"
    if g: "unat g < 100000" for g :: u64
  proof -
    have nz: "unat (of_nat ?nz :: u64) = ?nz" "unat (of_nat ?z :: u64) = ?z"
      using assms len by (simp_all add: unat_of_nat)
    have z: "of_nat (length data) - of_nat ?nz = (of_nat ?z :: u64)"
      by (simp add: len)
    have c1: "(0xFFFFFFFFFFFFFFFF - g) div 68 < of_nat ?nz \<longleftrightarrow> 2 ^ 64 \<le> unat g + 68 * ?nz"
      using g nz by (simp add: word_less_nat_alt unat_div unat_sub word_le_nat_alt) linarith
    have sum: "unat (g + of_nat ?nz * 68) = unat g + 68 * ?nz" if "unat g + 68 * ?nz < 2 ^ 64"
      using that nz by (simp add: unat_word_ariths)
    have c2: "(0xFFFFFFFFFFFFFFFF - (g + of_nat ?nz * 68)) div 4 < of_nat ?z \<longleftrightarrow> 2 ^ 64 \<le> unat g + 68 * ?nz + 4 * ?z"
      if "unat g + 68 * ?nz < 2 ^ 64"
      using that sum [OF that] nz by (simp add: word_less_nat_alt unat_div unat_sub word_le_nat_alt) linarith
    show ?thesis
      using c1 c2 by (auto simp: z)
  qed
  show ?thesis
  proof (cases "data = []")
    case False
    let ?g = "if contractCreation \<and> homestead then 53000 else 21000 :: u64"
    have g: "unat ?g < 100000" "unat ?g = (if contractCreation \<and> homestead then 53000 else 21000)"
      by simp_all
    have "IntrinsicGas data contractCreation homestead =
      (if unat ?g + 68 * ?nz + 4 * ?z < 2 ^ 64 then Inr (of_nat (unat ?g + 68 * ?nz + 4 * ?z)) else Inl ErrOutOfGas)"
      unfolding main [OF g(1), symmetric] IntrinsicGas_def Let_def using False by (simp only: length_greater_0_conv if_True simp_thms)
    then show ?thesis
      unfolding g(2) Let_def .
  qed (simp add: IntrinsicGas_def)
qed

section \<open>Whole transitions\<close>

text \<open>A machine and a message that a block may contain; the gas of the message is below the fuel.\<close>

definition message_ok :: "nat \<Rightarrow> nat \<Rightarrow> EVM \<Rightarrow> Message \<Rightarrow> bool" where
  "message_ok n d evm msg \<longleftrightarrow>
     evm_ok evm \<and> ev_depth evm = 0 \<and> \<not> read_only evm \<and> 0 \<le> msg_GasPrice msg \<and> 0 \<le> msg_Value msg \<and>
     length (msg_Data msg) < 2 ^ 62 \<and> 1025 \<le> d \<and> unat (msg_Gas msg) < n \<and> unat (msg_Gas msg) < 2 ^ 60"

definition homestead_of :: "EVM \<Rightarrow> bool" where
  "homestead_of evm = IsHomestead (ev_chainConfig evm) (Some (ctx_BlockNumber (ev_ctx evm)))"

definition accounted :: "EVM \<Rightarrow> Message \<Rightarrow> u64 \<Rightarrow> u64 \<Rightarrow> StateTransition \<Rightarrow> bool" where
  "accounted evm msg gp used st \<longleftrightarrow>
     (\<exists>g0. IntrinsicGas (msg_Data msg) (msg_To msg = None) (homestead_of evm) = Inr g0 \<and> g0 \<le> msg_Gas msg \<and> unat g0 \<le> 2 * unat used) \<and>
     used \<le> msg_Gas msg \<and> msg_Gas msg \<le> gp \<and> st_gp st = gp - used"

lemma exec_accounted:
  assumes run: "execMessage cl n sender st = Ret ((ret, vmerr), st1)"
    and rel: "st_evolves False st st1" "st_gas st1 \<le> st_gas st" "st_initialGas st1 = st_initialGas st" "st_gp st1 = st_gp st"
    and ok: "evm_ok (st_evm st)" "0 \<le> st_gasPrice st" and init: "st_initialGas st = g" "st_gas st = g - g0" "g0 \<le> g"
      "st_gp st = gp - g" "g \<le> gp" and vmerr: "vmerr \<noteq> Some ErrInsufficientBalance"
  shows "\<exists>used st'. go_bind (refundGas st1) (\<lambda>st. Ret ((ret, gasUsed st, vmerr \<noteq> None, None :: core_err option),
      st_update (\<lambda>be. AddBalance be (ctx_Coinbase (ev_ctx (st_evm st))) (uint (gasUsed st) * st_gasPrice st)) st)) =
        Ret ((ret, used, vmerr \<noteq> None, None), st') \<and> st_evolves False st st' \<and>
      used \<le> g \<and> unat g0 \<le> 2 * unat used \<and> st_gp st' = gp - used"
proof -
  have ok1: "evm_ok (st_evm st1)" "0 \<le> st_gasPrice st1"
    using st_evolves_ok [OF rel(1) ok(1)] rel(1) ok(2) by (simp_all add: st_evolves_def)
  have "unat gp < 2 ^ 64"
    by (rule order_less_le_trans [OF unsigned_less]) simp
  then have "st_gas st1 \<le> st_initialGas st1" "unat (st_gp st1) + unat (st_initialGas st1) < 2 ^ 64"
    using rel init by (auto simp: word_le_nat_alt unat_sub)
  then obtain st2 where 2: "refundGas st1 = Ret st2" "st_evolves False st1 st2" "st_initialGas st2 = g" "st_gas st2 \<le> g"
    "gasUsed st2 \<le> gasUsed st1" "unat (gasUsed st1) \<le> 2 * unat (gasUsed st2)" "st_gp st2 = st_gp st1 + st_gas st2"
    using refundGas_ok [OF ok1] rel(3) init(1) by metis
  let ?c = "ctx_Coinbase (ev_ctx (st_evm st2))" and ?m = "uint (gasUsed st2) * st_gasPrice st2"
  have "evolves (ev_db (st_evm st2)) False (ev_StateDB (st_evm st2)) (AddBalance (ev_db (st_evm st2)) ?c ?m (ev_StateDB (st_evm st2)))"
    using st_evolves_ok [OF 2(2) ok1(1)] 2(2) ok1(2) by (intro AddBalance_evolves) (auto simp: evm_ok_def st_evolves_def)
  note e3 = st_update_evolves [where g = "\<lambda>be. AddBalance be ?c ?m", OF this]
  have "st_evolves False st (st_update (\<lambda>be. AddBalance be ?c ?m) st2)"
    using st_evolves_trans [OF rel(1) st_evolves_trans [OF 2(2) e3(1)]] .
  moreover have "unat g0 \<le> unat (gasUsed st1)"
    using rel init by (auto simp: gasUsed_def word_le_nat_alt unat_sub)
  moreover have "gasUsed st2 \<le> g" "st_gp st2 = gp - gasUsed st2"
    using 2(3,4,7) rel(4) init(4) by (simp_all add: gasUsed_def word_le_nat_alt unat_sub)
  ultimately show ?thesis
    using 2 e3(2) by (auto simp: same_gas_def)
qed

lemma TransitionDb_ok:
  assumes "message_ok n d evm msg"
  shows "\<exists>ret used failed err st. ApplyMessage (calls_at n d) n evm msg gp = Ret ((ret, used, failed, err), st) \<and>
    st_evolves False (NewStateTransition evm msg gp) st \<and>
    (err = None \<longrightarrow> accounted evm msg gp used st) \<and> (err \<noteq> None \<longrightarrow> used = 0 \<and> \<not> failed \<and> ret = []) \<and>
    (preCheck (NewStateTransition evm msg gp) = (err, st) \<or> fst (preCheck (NewStateTransition evm msg gp)) = None)"
proof -
  let ?st = "NewStateTransition evm msg gp"
  have st: "evm_ok (st_evm ?st)" "0 \<le> st_gasPrice ?st" "st_msg ?st = msg" "st_gas ?st = 0" "st_gp ?st = gp" "st_value ?st = msg_Value msg"
    "st_data ?st = msg_Data msg" "st_evm ?st = evm"
    using assms by (simp_all add: message_ok_def NewStateTransition_def)
  obtain e st1 where 1: "preCheck ?st = (e, st1)"
    by (metis surj_pair)
  note e1 = preCheck_ok [OF 1 st(1,2), unfolded st]
  show ?thesis
  proof (cases e)
    case (Some e')
    then show ?thesis
      using 1 e1(1) st_evolves_weaken by (auto simp: ApplyMessage_def TransitionDb_def)
  next
    case None
    obtain a st2 where 2: "st_from st1 = (a, st2)"
      by (metis surj_pair)
    have ok1: "evm_ok (st_evm st1)"
      using st_evolves_ok [OF _ st(1)] e1(2) [OF None] by blast
    note e2 = st_from_evolves [OF 2 ok1]
    have e12: "st_evolves False ?st st2"
      using st_evolves_trans e1(2) [OF None] e2(1) by blast
    have st2: "st_msg st2 = msg" "st_gas st2 = msg_Gas msg" "st_initialGas st2 = msg_Gas msg" "st_gp st2 = gp - msg_Gas msg" "msg_Gas msg \<le> gp"
      "st_data st2 = msg_Data msg" "st_value st2 = msg_Value msg" "st_gasPrice st2 = msg_GasPrice msg"
      using e1(2) [OF None] e12 e2(2) st by (simp_all add: st_evolves_def same_gas_def NewStateTransition_def)
    have core: "evm_core (st_evm st2) = evm_core evm"
      using e12 st by (simp add: st_evolves_def)
    have hs: "IsHomestead (ev_chainConfig (st_evm st2)) (Some (ctx_BlockNumber (ev_ctx (st_evm st2)))) = homestead_of evm"
      by (simp add: homestead_of_def evm_coreD(1,3) [OF core])
    let ?ig = "IntrinsicGas (msg_Data msg) (msg_To msg = None) (homestead_of evm)"
    have run: "ApplyMessage (calls_at n d) n evm msg gp = (case ?ig of Inl e \<Rightarrow> Ret (([], 0, False, Some (CoreVM e)), st2)
        | Inr gas \<Rightarrow> (case useGas gas st2 of (Some e, st) \<Rightarrow> Ret (([], 0, False, Some e), st)
          | (None, st) \<Rightarrow> go_bind (execMessage (calls_at n d) n a st) (\<lambda>((ret, vmerr), st).
              if vmerr = Some ErrInsufficientBalance then Ret (([], 0, False, Some (CoreVM ErrInsufficientBalance)), st)
              else go_bind (refundGas st) (\<lambda>st. Ret ((ret, gasUsed st, vmerr \<noteq> None, None),
                st_update (\<lambda>be. AddBalance be (ctx_Coinbase (ev_ctx (st_evm st))) (uint (gasUsed st) * st_gasPrice st)) st)))))"
      using 1 None 2 st2 hs by (simp add: ApplyMessage_def TransitionDb_def)
    show ?thesis
    proof (cases "\<exists>g0. ?ig = Inr g0 \<and> g0 \<le> msg_Gas msg")
      case False
      then show ?thesis
        unfolding run using e12 st2 1 None by (cases ?ig) (auto simp: useGas_def)
    next
      case True
      then obtain g0 where g0: "?ig = Inr g0" "g0 \<le> msg_Gas msg"
        by blast
      let ?st3 = "st2\<lparr>st_gas := msg_Gas msg - g0\<rparr>"
      have ok2: "evm_ok (st_evm ?st3)" "0 \<le> st_gasPrice ?st3"
        using st_evolves_ok [OF e2(1) ok1] st2 assms by (simp_all add: message_ok_def)
      have le: "unat (msg_Gas msg - g0) \<le> unat (msg_Gas msg)"
        using g0(2) by (simp add: unat_sub word_le_nat_alt)
      obtain ret vmerr st4 where 4: "execMessage (calls_at n d) n a ?st3 = Ret ((ret, vmerr), st4)" "st_evolves False ?st3 st4"
        "st_gas st4 \<le> st_gas ?st3" "st_initialGas st4 = st_initialGas ?st3" "st_gp st4 = st_gp ?st3"
        using execMessage_ok [OF ok2(1), of d n a] assms le st2 evm_coreD(2,12) [OF core] unfolding message_ok_def by auto
      have e: "st_evolves False ?st st'" if "st_evolves False ?st3 st'" for st'
        using st_evolves_trans [OF e12] that by (simp add: st_evolves_def)
      show ?thesis
      proof (cases "vmerr = Some ErrInsufficientBalance")
        case True
        then show ?thesis
          unfolding run using g0 4 e st2 1 None by (auto simp: useGas_def linorder_not_less)
      next
        case False
        show ?thesis
          unfolding run using g0 4 False st2 1 None e exec_accounted [OF 4 ok2, of "msg_Gas msg" g0 gp]
          by (auto simp: useGas_def linorder_not_less accounted_def)
      qed
    qed
  qed
qed

section \<open>Properties\<close>

text \<open>
  C6: The transition of a message accounts for its gas. Whatever the message makes the virtual
  machine do, \<open>ApplyMessage\<close> returns, and leaves a well-formed state without negative balances. If it
  reports no error, the intrinsic gas (21000, or 53000 for a creation, plus 4 for each zero byte and
  68 for each other byte of the data, computed without overflow) was within the gas of the message;
  the gas used is at least half of it and at most the gas of the message; and the pool of the
  block, which had the gas of the message, has lost exactly the gas used.
\<close>

theorem transition_accounts_gas:
  assumes "message_ok n d evm msg"
  shows "\<exists>ret used failed err st. ApplyMessage (calls_at n d) n evm msg gp = Ret ((ret, used, failed, err), st) \<and>
    state_ok (ev_db evm) (ev_StateDB (st_evm st)) \<and> views_ok (view (ev_db evm) (ev_StateDB (st_evm st))) \<and>
    (err = None \<longrightarrow> (\<exists>g0. IntrinsicGas (msg_Data msg) (msg_To msg = None) (homestead_of evm) = Inr g0 \<and> g0 \<le> msg_Gas msg \<and>
        unat g0 = (if msg_To msg = None \<and> homestead_of evm then 53000 else 21000) +
          68 * length (filter (\<lambda>b. b \<noteq> 0) (msg_Data msg)) + 4 * length (filter (\<lambda>b. b = 0) (msg_Data msg)) \<and>
        unat g0 \<le> 2 * unat used) \<and> used \<le> msg_Gas msg \<and> msg_Gas msg \<le> gp \<and> st_gp st = gp - used)"
proof -
  have g0: "unat g0 = (if c \<and> h then 53000 else 21000) + 68 * length (filter (\<lambda>b. b \<noteq> 0) (msg_Data msg)) + 4 * length (filter (\<lambda>b. b = 0) (msg_Data msg))"
    if "IntrinsicGas (msg_Data msg) c h = Inr g0" for g0 c h
  proof -
    have "length (msg_Data msg) < 2 ^ 62"
      using assms by (simp add: message_ok_def)
    moreover define t where "t = (if c \<and> h then 53000 else 21000) + 68 * length (filter (\<lambda>b. b \<noteq> 0) (msg_Data msg)) + 4 * length (filter (\<lambda>b. b = 0) (msg_Data msg))"
    ultimately have "(if t < 2 ^ 64 then Inr (of_nat t) else Inl ErrOutOfGas) = Inr g0"
      using that by (simp only: IntrinsicGas_eq Let_def t_def)
    then have "unat g0 = t"
      by (auto simp: unat_of_nat split: if_split_asm)
    then show ?thesis
      by (simp only: t_def)
  qed
  obtain ret used failed err st where t: "ApplyMessage (calls_at n d) n evm msg gp = Ret ((ret, used, failed, err), st)"
    "st_evolves False (NewStateTransition evm msg gp) st" "err = None \<longrightarrow> accounted evm msg gp used st"
    using TransitionDb_ok [OF assms, of gp] by blast
  have "vm_state_ok (ev_db evm) (ev_StateDB (st_evm st))"
    using t(2) evolves_ok by (auto simp: st_evolves_def NewStateTransition_def)
  then show ?thesis
    using t g0 unfolding accounted_def vm_state_ok_def by blast
qed

definition sample_message :: Message where
  "sample_message = \<lparr>msg_From = 7, msg_To = Some 9, msg_GasPrice = 0, msg_Gas = 50000, msg_Value = 1, msg_Nonce = 0,
     msg_CheckNonce = False, msg_Data = [0, 5]\<rparr>"

lemma sample_message_ok: "message_ok 100000 1025 sample_evm sample_message"
  using sample_evm_ok sample_read_only by (simp add: message_ok_def sample_message_def sample_evm_def NewEVM_def Let_def)

theorem transition_accounts_gas_witness:
  "\<exists>ret used failed err st. ApplyMessage (calls_at 100000 1025) 100000 sample_evm sample_message 4200000 = Ret ((ret, used, failed, err), st) \<and>
     (err = None \<longrightarrow> 21072 \<le> 2 * unat used \<and> used \<le> 50000 \<and> st_gp st = 4200000 - used)"
  using transition_accounts_gas [OF sample_message_ok, of 4200000] by (auto simp: sample_message_def)

section \<open>Messages that may not run\<close>

text \<open>
  The reasons to reject a message before it runs, on the account of the sender as the state shows
  it; an account that does not exist counts as an empty one.
\<close>

definition rejection :: "acct_view \<Rightarrow> Message \<Rightarrow> u64 \<Rightarrow> core_err option" where
  "rejection v msg gp =
     (if msg_CheckNonce msg \<and> uint (av_nonce v) < uint (msg_Nonce msg) then Some ErrNonceTooHigh
      else if msg_CheckNonce msg \<and> uint (msg_Nonce msg) < uint (av_nonce v) then Some ErrNonceTooLow
      else if av_balance v < uint (msg_Gas msg) * msg_GasPrice msg then Some errInsufficientBalanceForGas
      else if uint gp < uint (msg_Gas msg) then Some ErrGasLimitReached
      else None)"

abbreviation sender_view :: "StateTransition \<Rightarrow> acct_view" where
  "sender_view st \<equiv> view_or_fresh (ev_db (st_evm st)) (ev_StateDB (st_evm st)) (msg_From (st_msg st))"

text \<open>The sender of \<open>st\<close> has an account in \<open>st'\<close>, an empty one if it had none; nothing else has changed.\<close>

definition with_sender :: "StateTransition \<Rightarrow> StateTransition \<Rightarrow> bool" where
  "with_sender st st' \<longleftrightarrow> st_evolves True st st' \<and> same_gas st st' \<and>
     (let be = ev_db (st_evm st); s = ev_StateDB (st_evm st); a = msg_From (st_msg st) in
      view be (ev_StateDB (st_evm st')) = (view be s)(a \<mapsto> view_or_fresh be s a))"

lemma existing_view:
  assumes "evm_ok (st_evm st)"
  shows "view (ev_db (st_evm st)) (ev_StateDB (st_evm (existing a st))) =
    (view (ev_db (st_evm st)) (ev_StateDB (st_evm st)))(a \<mapsto> view_or_fresh (ev_db (st_evm st)) (ev_StateDB (st_evm st)) a)"
proof -
  let ?be = "ev_db (st_evm st)" and ?s = "ev_StateDB (st_evm st)"
  obtain ex s1 where ex: "state_Exist ?be a ?s = (ex, s1)"
    by (metis surj_pair)
  have ok: "vm_state_ok ?be ?s"
    using assms by (simp add: evm_ok_def)
  have s1: "vm_state_ok ?be s1" "view ?be s1 = view ?be ?s" "ex \<longleftrightarrow> view ?be ?s a \<noteq> None"
    using Exist_evolves(2,3) [OF ok ex] evolves_ok [OF Exist_evolves(1) [OF ok ex]] by (auto simp: sim_def)
  have st: "ev_StateDB (st_evm (existing a st)) = (if ex then s1 else CreateAccount ?be a s1)"
    by (simp add: existing_def st_query_def on_state_def ex st_update_def upd_state_def)
  have "(fresh_view ?be a)\<lparr>av_balance := 0\<rparr> = fresh_view ?be a"
    by (metis acct_view.surjective acct_view.update_convs(2) fresh_view_simps(1))
  then show ?thesis
    using CreateAccount_ok(2) [OF vm_state_objs_ok [OF s1(1)], of a] s1(2,3)
    by (auto simp: st view_or_fresh_def fun_upd_idem)
qed

lemma with_senderD:
  assumes "with_sender st st'"
  shows "st_evolves True st st'" "same_gas st st'" "st_msg st' = st_msg st" "ev_db (st_evm st') = ev_db (st_evm st)"
    "view (ev_db (st_evm st)) (ev_StateDB (st_evm st')) =
       (view (ev_db (st_evm st)) (ev_StateDB (st_evm st)))(msg_From (st_msg st) \<mapsto> sender_view st)"
  using assms evm_coreD(10) [of "st_evm st'" "st_evm st"] by (simp_all add: with_sender_def st_evolves_def Let_def)

lemma with_sender_first:
  assumes "st_from st = (a, st')" "evm_ok (st_evm st)"
  shows "with_sender st st'" "a = msg_From (st_msg st)"
proof -
  have "a = msg_From (st_msg st)" "st' = existing (msg_From (st_msg st)) st"
    using assms(1) by (auto simp: st_from_def Let_def)
  then show "with_sender st st'" "a = msg_From (st_msg st)"
    using existing_view [OF assms(2)] existing_evolves [OF assms(2)] by (simp_all add: with_sender_def Let_def)
qed

lemma with_sender_again:
  assumes "st_from st' = (a, st'')" "with_sender st st'" "evm_ok (st_evm st)"
  shows "with_sender st st''" "a = msg_From (st_msg st)"
proof -
  note d = with_senderD [OF assms(2)]
  note w = with_sender_first [OF assms(1) st_evolves_ok [OF d(1) assms(3)]]
  note d' = with_senderD [OF w(1)]
  show "a = msg_From (st_msg st)"
    using w(2) d(3) by simp
  have "sender_view st' = sender_view st"
    using d(3-5) by (simp add: view_or_fresh_def)
  then have "view (ev_db (st_evm st)) (ev_StateDB (st_evm st'')) =
       (view (ev_db (st_evm st)) (ev_StateDB (st_evm st)))(msg_From (st_msg st) \<mapsto> sender_view st)"
    using d'(5) d(3-5) by simp
  then show "with_sender st st''"
    using st_evolves_trans [OF d(1) d'(1)] same_gas_trans [OF d(2) d'(2)] by (simp add: with_sender_def Let_def)
qed

lemma with_sender_query:
  assumes "st_query q st' = (r, st'')" "with_sender st st'" "evm_ok (st_evm st)"
    and q: "\<And>be s r s'. vm_state_ok be s \<Longrightarrow> q be s = (r, s') \<Longrightarrow> evolves be True s s' \<and> sim be s' s \<and> r = F (view be s)"
  shows "with_sender st st''" "r = F (view (ev_db (st_evm st)) (ev_StateDB (st_evm st')))"
proof -
  note e = with_senderD(1,2,4) [OF assms(2)]
  obtain s' where s': "q (ev_db (st_evm st')) (ev_StateDB (st_evm st')) = (r, s')" "st'' = st'\<lparr>st_evm := (st_evm st')\<lparr>ev_StateDB := s'\<rparr>\<rparr>"
    using st_queryE [OF assms(1)] .
  have "vm_state_ok (ev_db (st_evm st')) (ev_StateDB (st_evm st'))"
    using st_evolves_ok [OF e(1) assms(3)] by (simp add: evm_ok_def)
  note * = q [OF this s'(1)]
  show "r = F (view (ev_db (st_evm st)) (ev_StateDB (st_evm st')))"
    using * e(3) by simp
  have st'': "st_evolves True st' st''" "same_gas st' st''"
    using st_query_evolves [OF conjunct1 [OF *]] s'(2) by simp_all
  have "view (ev_db (st_evm st)) (ev_StateDB (st_evm st'')) =
       (view (ev_db (st_evm st)) (ev_StateDB (st_evm st)))(msg_From (st_msg st) \<mapsto> sender_view st)"
    using * s'(2) e(3) with_senderD(5) [OF assms(2)] by (simp add: sim_def)
  then show "with_sender st st''"
    using st_evolves_trans [OF e(1) st''(1)] same_gas_trans [OF e(2) st''(2)] by (simp add: with_sender_def Let_def)
qed

lemma with_sender_GetNonce:
  assumes "st_query (\<lambda>be. GetNonce be (msg_From (st_msg st))) st' = (r, st'')" "with_sender st st'" "evm_ok (st_evm st)"
  shows "with_sender st st''" "r = av_nonce (sender_view st)"
proof -
  let ?F = "\<lambda>V. case V (msg_From (st_msg st)) of None \<Rightarrow> 0 | Some v \<Rightarrow> av_nonce v"
  have "evolves be True s s' \<and> sim be s' s \<and> r = ?F (view be s)" if "vm_state_ok be s" "GetNonce be (msg_From (st_msg st)) s = (r, s')" for be s r s'
    using GetNonce_evolves [OF that] query_ok_GetNonce [OF vm_state_objs_ok [OF that(1)], of "msg_From (st_msg st)"] that(2) by (simp add: query_ok_def)
  note * = with_sender_query [where F = ?F, OF assms this]
  show "with_sender st st''" "r = av_nonce (sender_view st)"
    using * with_senderD(5) [OF assms(2)] by simp_all
qed

lemma with_sender_GetBalance:
  assumes "st_query (\<lambda>be. GetBalance be (msg_From (st_msg st))) st' = (r, st'')" "with_sender st st'" "evm_ok (st_evm st)"
  shows "with_sender st st''" "r = av_balance (sender_view st)"
proof -
  let ?F = "\<lambda>V. case V (msg_From (st_msg st)) of None \<Rightarrow> 0 | Some v \<Rightarrow> av_balance v"
  have "evolves be True s s' \<and> sim be s' s \<and> r = ?F (view be s)" if "vm_state_ok be s" "GetBalance be (msg_From (st_msg st)) s = (r, s')" for be s r s'
    using GetBalance_evolves [OF that] by blast
  note * = with_sender_query [where F = ?F, OF assms this]
  show "with_sender st st''" "r = av_balance (sender_view st)"
    using * with_senderD(5) [OF assms(2)] by simp_all
qed

lemma buyGas_rejection:
  assumes "buyGas st' = (e, st'')" "with_sender st st'" "evm_ok (st_evm st)"
  shows "e = rejection (sender_view st) ((st_msg st)\<lparr>msg_CheckNonce := False, msg_GasPrice := st_gasPrice st\<rparr>) (st_gp st)"
    "e \<noteq> None \<Longrightarrow> with_sender st st''"
proof -
  obtain a st1 where 1: "st_from st' = (a, st1)"
    by (metis surj_pair)
  note f = with_sender_again [OF 1 assms(2,3)]
  obtain b st2 where 2: "st_query (\<lambda>be. GetBalance be (msg_From (st_msg st))) st1 = (b, st2)"
    by (metis surj_pair)
  note q = with_sender_GetBalance [OF 2 f(1) assms(3)]
  have same: "st_msg st1 = st_msg st" "st_gasPrice st1 = st_gasPrice st" "st_gp st2 = st_gp st" "st_msg st2 = st_msg st"
    using with_senderD(1-3) [OF f(1)] with_senderD(1-3) [OF q(1)] by (simp_all add: st_evolves_def same_gas_def)
  have run: "(e, st'') = (if b < uint (msg_Gas (st_msg st)) * st_gasPrice st then (Some errInsufficientBalanceForGas, st2)
      else if st_gp st < msg_Gas (st_msg st) then (Some ErrGasLimitReached, st2) else (None, st''))"
    using 1 2 f(2) same assms(1) by (auto simp: buyGas_def pool_SubGas_def Let_def)
  show "e = rejection (sender_view st) ((st_msg st)\<lparr>msg_CheckNonce := False, msg_GasPrice := st_gasPrice st\<rparr>) (st_gp st)"
    using run q(2) by (auto simp: rejection_def word_less_def split: if_splits)
  show "e \<noteq> None \<Longrightarrow> with_sender st st''"
    using run q(1) by (auto split: if_splits)
qed

lemma preCheck_rejection:
  assumes "preCheck st = (e, st')" "evm_ok (st_evm st)" "st_gasPrice st = msg_GasPrice (st_msg st)"
  shows "e = rejection (sender_view st) (st_msg st) (st_gp st)" "e \<noteq> None \<Longrightarrow> with_sender st st'"
proof -
  obtain a st1 where 1: "st_from st = (a, st1)"
    by (metis surj_pair)
  note f = with_sender_first [OF 1 assms(2)]
  obtain nonce st2 where 2: "st_query (\<lambda>be. GetNonce be (msg_From (st_msg st))) st1 = (nonce, st2)"
    by (metis surj_pair)
  note q = with_sender_GetNonce [OF 2 f(1) assms(2)]
  have same: "st_msg st1 = st_msg st" "st_msg st2 = st_msg st"
    using with_senderD(3) f(1) q(1) by blast+
  have run: "preCheck st = (if msg_CheckNonce (st_msg st) then
        if nonce < msg_Nonce (st_msg st) then (Some ErrNonceTooHigh, st2)
        else if msg_Nonce (st_msg st) < nonce then (Some ErrNonceTooLow, st2) else buyGas st2
      else buyGas st1)"
    using 1 2 f(2) same by (simp add: preCheck_def Let_def)
  note buy = buyGas_rejection [OF _ f(1) assms(2), of e st'] buyGas_rejection [OF _ q(1) assms(2), of e st']
  show "e = rejection (sender_view st) (st_msg st) (st_gp st)"
    using run assms(1,3) q(2) buy(1,3) by (auto simp: rejection_def word_less_def split: if_splits)
  show "e \<noteq> None \<Longrightarrow> with_sender st st'"
    using run assms(1) q(1) buy(2,4) by (auto split: if_splits)
qed

text \<open>
  C8: A message that may not run is rejected with the reason and changes nothing. When the nonce of the message is
  above or below the nonce of the sender (and the nonce is to be checked), when the sender cannot
  pay for the gas of the message at its price, or when the block has less gas left, \<open>ApplyMessage\<close> returns the error for the first of these reasons,
  uses no gas, leaves the pool of the block as it was, and every account, the logs and the refund
  counter as they were; but the account of the sender exists afterwards, an empty one if it had
  none. For any other message it reports none of these errors.
\<close>

theorem rejected_message_changes_nothing:
  assumes "message_ok n d evm msg"
  shows "case rejection (view_or_fresh (ev_db evm) (ev_StateDB evm) (msg_From msg)) msg gp of
      Some e \<Rightarrow> \<exists>st. ApplyMessage (calls_at n d) n evm msg gp = Ret (([], 0, False, Some e), st) \<and> st_gp st = gp \<and>
        view (ev_db evm) (ev_StateDB (st_evm st)) =
          (view (ev_db evm) (ev_StateDB evm))(msg_From msg \<mapsto> view_or_fresh (ev_db evm) (ev_StateDB evm) (msg_From msg)) \<and>
        sd_logs (ev_StateDB (st_evm st)) = sd_logs (ev_StateDB evm) \<and> sd_refund (ev_StateDB (st_evm st)) = sd_refund (ev_StateDB evm)
    | None \<Rightarrow> \<exists>ret used failed err st. ApplyMessage (calls_at n d) n evm msg gp = Ret ((ret, used, failed, err), st) \<and>
        err \<notin> Some ` {ErrNonceTooHigh, ErrNonceTooLow, errInsufficientBalanceForGas, ErrGasLimitReached}"
proof -
  let ?st = "NewStateTransition evm msg gp"
  have ok: "evm_ok (st_evm ?st)" "st_gasPrice ?st = msg_GasPrice (st_msg ?st)"
    using assms(1) by (simp_all add: message_ok_def NewStateTransition_def)
  obtain e st1 where 1: "preCheck ?st = (e, st1)"
    by (metis surj_pair)
  note r = preCheck_rejection [OF 1 ok]
  have e: "e = rejection (view_or_fresh (ev_db evm) (ev_StateDB evm) (msg_From msg)) msg gp"
    using r(1) by (simp add: NewStateTransition_def)
  show ?thesis
  proof (cases e)
    case None
    obtain ret used failed err st where t: "ApplyMessage (calls_at n d) n evm msg gp = Ret ((ret, used, failed, err), st)"
      using TransitionDb_ok [OF assms, of gp] by blast
    have "err \<notin> Some ` {ErrNonceTooHigh, ErrNonceTooLow, errInsufficientBalanceForGas, ErrGasLimitReached}"
      using t by (auto simp: ApplyMessage_def TransitionDb_def 1 None useGas_def Let_def go_bind_eq_Ret split: prod.splits sum.splits if_splits)
    then show ?thesis
      using t None by (auto simp: e [symmetric])
  next
    case (Some e')
    then have "with_sender ?st st1"
      using r(2) by simp
    then have "st_gp st1 = gp" "view (ev_db evm) (ev_StateDB (st_evm st1)) =
          (view (ev_db evm) (ev_StateDB evm))(msg_From msg \<mapsto> view_or_fresh (ev_db evm) (ev_StateDB evm) (msg_From msg))"
        "sd_logs (ev_StateDB (st_evm st1)) = sd_logs (ev_StateDB evm)" "sd_refund (ev_StateDB (st_evm st1)) = sd_refund (ev_StateDB evm)"
      by (simp_all add: with_sender_def same_gas_def st_evolves_def evolves_def quiet_def NewStateTransition_def Let_def)
    moreover have "ApplyMessage (calls_at n d) n evm msg gp = Ret (([], 0, False, Some e'), st1)"
      by (simp add: ApplyMessage_def TransitionDb_def 1 Some)
    ultimately show ?thesis
      by (simp add: e [symmetric] Some)
  qed
qed

theorem rejected_message_changes_nothing_witness:
  "\<exists>st. ApplyMessage (calls_at 100000 1025) 100000 sample_evm (sample_message\<lparr>msg_CheckNonce := True, msg_Nonce := 1\<rparr>) 4200000 =
       Ret (([], 0, False, Some ErrNonceTooHigh), st) \<and> st_gp st = 4200000"
proof -
  let ?m = "sample_message\<lparr>msg_CheckNonce := True, msg_Nonce := 1\<rparr>"
  have ok: "message_ok 100000 1025 sample_evm ?m"
    using sample_message_ok by (simp add: message_ok_def)
  have "av_nonce (view_or_fresh (ev_db sample_evm) (ev_StateDB sample_evm) (msg_From ?m)) = 0"
    by code_simp
  then have "rejection (view_or_fresh (ev_db sample_evm) (ev_StateDB sample_evm) (msg_From ?m)) ?m 4200000 = Some ErrNonceTooHigh"
    by (simp add: rejection_def)
  then show ?thesis
    using rejected_message_changes_nothing [OF ok, of 4200000] by auto
qed

end
