(* ===== verification/Spec2Isabelle.thy ===== *)
theory Spec2Isabelle
  imports Go_Base Math_Big Params_Config RLP_Encode RLP_Raw Aquahash_Difficulty
    State_Object State_DB State_View State_Undo State_Ops State_Revert State_Commit
    VM_Base VM_Analysis VM_Machine VM_Gas VM_Instructions VM_Contracts VM_JumpTable VM_Interpreter VM_State
    VM_Logic VM_Exec VM_GasCost VM_Calls VM_Table VM_Run VM_Safety VM_Properties
    Trie_Encoding Trie_Node Trie_Map
    Types_Block Aquahash_Engine Aquahash_Headers Core_Transition
begin

text \<open>
  \<^bold>\<open>Verification of the aquachain node.\<close>

  The node keeps a chain of blocks. A header is checked by the consensus engine; the transactions of a block
  are applied to the state by the virtual machine; the state lives in Merkle Patricia tries; whatever is hashed or
  stored is encoded in RLP; and the rules in force at a height come from the chain configuration. This
  development models these parts of the Go source as HOL functions with the names of the source, and proves
  what makes them correct.

  \<^bold>\<open>Conventions.\<close> \<open>Go_Base\<close> is the prelude: a Go function that may panic, or whose loop the model drives with
  fuel, returns \<open>'a go\<close> with the values \<open>Ret\<close>, \<open>Panic\<close> and \<open>NoFuel\<close>; errors are the left side of a sum or an option;
  \<open>big.Int\<close> is \<open>int\<close>, \<open>uint64\<close> is a 64-bit word that wraps, byte slices are lists of 8-bit words, hashes and addresses
  are words of 256 and 160 bits. A pointer that is mutated is a state that is passed on and returned. The
  elliptic curves, the hash functions and the stored state are parameters, collected in records
  (\<open>Backend\<close>, \<open>Crypto\<close>, \<open>Hashes\<close>, \<open>Env\<close>); where a theorem relies on them it says so.

  \<^bold>\<open>Theories and the source they model.\<close>

  \<^item> \<open>Go_Base\<close>, \<open>Math_Big\<close>: \<open>common/bytes.go\<close>, \<open>common/types.go\<close>, \<open>common/math\<close>. Padding, conversions, modular arithmetic,
    exponentiation, overflow-checked operations; exactness, round trips.
  \<^item> \<open>Params_Config\<close>: \<open>params/config.go\<close>, \<open>hf.go\<close>, \<open>gas_table.go\<close>. Fork schedule, hard-fork selection, and the check of a
    stored chain against a new configuration, which finds the highest height that is still compatible.
  \<^item> \<open>RLP_Encode\<close>, \<open>RLP_Raw\<close>: \<open>rlp/encode.go\<close>, \<open>rlp/raw.go\<close>. The two-pass encoder refines the recursive format; \<open>Split\<close> and
    \<open>CountValues\<close> accept exactly the canonical encodings and never panic.
  \<^item> \<open>Trie_Encoding\<close>, \<open>Trie_Node\<close>, \<open>Trie_Map\<close>: \<open>trie/encoding.go\<close>, \<open>node.go\<close>, \<open>trie.go\<close>, \<open>database.go\<close>. Key encodings, decoding of
    nodes, lookup, insertion and deletion with nodes loaded from the database. The relation \<open>holds\<close> says which map a
    canonical trie stores; the operations refine lookup and update of this map. The contract is the
    locale \<open>kv_store\<close>, interpreted on \<open>TryGet\<close> and \<open>TryUpdate\<close>.
  \<^item> \<open>State_Object\<close>, \<open>State_DB\<close>, \<open>State_View\<close>, \<open>State_Undo\<close>, \<open>State_Ops\<close>, \<open>State_Revert\<close>, \<open>State_Commit\<close>: \<open>core/state\<close>. Accounts with
    their caches, journal, snapshots, finalisation and managed nonces. \<open>view\<close> is what queries can see; \<open>undoes\<close> and \<open>since\<close> say that a state
    can be taken back; the locale \<open>snapshots\<close> is the contract of snapshot and revert.
  \<^item> \<open>VM_Base\<close>, \<open>VM_Analysis\<close>, \<open>VM_Machine\<close>, \<open>VM_Gas\<close>, \<open>VM_Instructions\<close>, \<open>VM_Contracts\<close>, \<open>VM_JumpTable\<close>, \<open>VM_Interpreter\<close>: \<open>core/vm\<close>. Memory and stack, jump
    analysis, gas and stack functions, all instructions, the precompiled contracts, the five instruction
    sets, the interpreter loop and the calls.
  \<^item> \<open>VM_State\<close>, \<open>VM_Logic\<close>, \<open>VM_Exec\<close>, \<open>VM_GasCost\<close>, \<open>VM_Calls\<close>, \<open>VM_Table\<close>, \<open>VM_Run\<close>, \<open>VM_Safety\<close>, \<open>VM_Properties\<close>: the proofs about the machine. A
    weakest-precondition calculus (\<open>wp\<close>), contracts for memory, gas and execution of each instruction,
    and for calls by induction on the depth; from them termination, type safety, restoration of the state
    after a failed call, and that static calls change nothing.
  \<^item> \<open>Types_Block\<close>: \<open>core/types\<close>. Versioned hashes of headers, transactions and blocks, receipts, bloom filters.
  \<^item> \<open>Aquahash_Difficulty\<close>, \<open>Aquahash_Engine\<close>, \<open>Aquahash_Headers\<close>: \<open>consensus/aquahash\<close>. Difficulty rules (locale \<open>retarget\<close>), header, seal and uncle
    verification, rewards, and the concurrent verification of a batch as a step relation (locale
    \<open>bounded_run\<close>) with its liveness.
  \<^item> \<open>Core_Transition\<close>: \<open>core/state_transition.go\<close>, \<open>gaspool.go\<close>. The transition of a message on top of state and machine.

  \<^bold>\<open>How the parts compose.\<close> The state transition calls \<open>EVM_Call\<close> and \<open>EVM_Create\<close>, which use the state database
  through its operations; the theorems about transitions rest on the contracts of calls, these on the lemmas
  about states, these on the undo lemmas of the journal. The trie is what the state database writes to; there
  it is seen through lookup functions, which \<open>Trie_Map\<close> shows the trie to implement. The engine uses the difficulty
  rules and the hashes of headers, and its rewards are credited by the operations of the state database.

  \<^bold>\<open>Fuel.\<close> The interpreter runs with one unit for each instruction of a frame and one for each nested call. \<open>ready\<close>
  asks for more units than the call has gas and for 1025 levels: every instruction that does not end a
  frame costs gas, and depth is limited to 1024, so that fuel never runs out (\<open>calls_terminate\<close>). The recursion of a trie operation is
  bounded by twice the length of the key, that of decoding by the length of the buffer, and that of counting values by the length of the input;
  the theorems show a result for these bounds. The concurrent verification needs no fuel: its runs are finite.

  \<^bold>\<open>Not modelled.\<close> Networking, databases on disk, wallets, the command line and RPC are input and output. Elliptic curves,
  Keccak, Argon2id and Hashimoto are numerical kernels, partly in assembly; they are parameters. The selection of
  RLP encoders by reflection is represented by the constructors of \<open>rlpval\<close>; the streaming decoder, which fills Go values
  through reflection, is left out. The chain and the transaction pool are concurrent code over the key/value database.
  Reference counts of the trie database only decide what is kept in memory. Logging, metrics, tracing and JSON have no effect on
  consensus.
\<close>

end
